(* ===== verification/Kein_Base.thy ===== *)
theory Kein_Base
  imports Main "HOL-Library.Word" "HOL-Library.AList"
begin

text \<open>
  The prelude of the development: machine integers, little-endian byte strings, slices and patches of
  byte buffers, checked arithmetic, results, and the state-and-error monad in which the Rust code's
  \<open>?\<close> operator is written.

  \<^item> \<open>u8\<close>, \<open>u16\<close>, \<open>u32\<close>, \<open>u64\<close> are words of that width. A \<open>Vec<u8>\<close> or \<open>&[u8]\<close> is a \<open>u8 list\<close>.
  \<^item> \<open>io_error\<close> is \<open>std::io::ErrorKind\<close>, as far as the sources construct or test it. The text of
    an error is not modelled: no code path depends on it.
  \<^item> \<open>'a io_result\<close> is \<open>io::Result<A>\<close>: \<open>Inl\<close> the error, \<open>Inr\<close> the value.
\<close>

section \<open>Integers, bytes and results\<close>

type_synonym u8 = "8 word"
type_synonym u16 = "16 word"
type_synonym u32 = "32 word"
type_synonym u64 = "64 word"

datatype io_error =
    InvalidInput
  | InvalidData
  | NotFound
  | UnexpectedEof
  | WriteZero
  | PermissionDenied
  | OutOfMemory
  | OtherError

type_synonym 'a io_result = "io_error + 'a"

named_theorems codec_simps \<open>equations that compute a field out of an encoded buffer\<close>
named_theorems checked_simps \<open>what a successful checked operation says about its operands\<close>
named_theorems io_simps \<open>equations and inversions for the state-and-error monad\<close>

subsection \<open>Results\<close>

definition bind_r :: "'e + 'a \<Rightarrow> ('a \<Rightarrow> 'e + 'b) \<Rightarrow> 'e + 'b" where
  "bind_r m f = (case m of Inl e \<Rightarrow> Inl e | Inr x \<Rightarrow> f x)"

definition ok_or :: "'e \<Rightarrow> 'a option \<Rightarrow> 'e + 'a" where
  "ok_or e m = (case m of None \<Rightarrow> Inl e | Some x \<Rightarrow> Inr x)"

definition is_ok :: "'e + 'a \<Rightarrow> bool" where
  "is_ok m = (case m of Inl _ \<Rightarrow> False | Inr _ \<Rightarrow> True)"

definition guard_r :: "bool \<Rightarrow> 'e \<Rightarrow> 'e + unit" where
  "guard_r b e = (if b then Inr () else Inl e)"

lemma bind_r_simps [simp]:
  "bind_r (Inl e) f = Inl e" "bind_r (Inr x) f = f x"
  by (simp_all add: bind_r_def)

lemma bind_r_eq_Inr [simp]:
  "bind_r m f = Inr y \<longleftrightarrow> (\<exists>x. m = Inr x \<and> f x = Inr y)"
  by (cases m) auto

lemma bind_r_cong [fundef_cong]:
  "m = m' \<Longrightarrow> (\<And>x. m' = Inr x \<Longrightarrow> f x = f' x) \<Longrightarrow> bind_r m f = bind_r m' f'"
  by (cases m') auto

lemma ok_or_simps [simp]:
  "ok_or e None = Inl e" "ok_or e (Some x) = Inr x"
  by (simp_all add: ok_or_def)

lemma ok_or_eq_Inr [simp]: "ok_or e m = Inr x \<longleftrightarrow> m = Some x"
  by (cases m) auto

lemma is_ok_simps [simp]: "is_ok (Inl e) = False" "is_ok (Inr x) = True"
  by (simp_all add: is_ok_def)

lemma is_ok_iff: "is_ok m \<longleftrightarrow> (\<exists>x. m = Inr x)"
  by (cases m) auto

lemma guard_r_simps [simp]:
  "guard_r b e = Inr x \<longleftrightarrow> b" "guard_r True e = Inr ()" "guard_r False e = Inl e"
  by (simp_all add: guard_r_def)

subsection \<open>Checked arithmetic\<close>

definition checked_add :: "'a::len word \<Rightarrow> 'a word \<Rightarrow> 'a word option" where
  "checked_add a b = (if unat a + unat b < 2 ^ LENGTH('a) then Some (a + b) else None)"

definition checked_sub :: "'a::len word \<Rightarrow> 'a word \<Rightarrow> 'a word option" where
  "checked_sub a b = (if b \<le> a then Some (a - b) else None)"

definition checked_mul :: "'a::len word \<Rightarrow> 'a word \<Rightarrow> 'a word option" where
  "checked_mul a b = (if unat a * unat b < 2 ^ LENGTH('a) then Some (a * b) else None)"

definition saturating_sub :: "'a::len word \<Rightarrow> 'a word \<Rightarrow> 'a word" where
  "saturating_sub a b = (if b \<le> a then a - b else 0)"

lemma checked_add_Some [checked_simps]:
  "checked_add a b = Some c \<longleftrightarrow>
     unat a + unat b < 2 ^ LENGTH('a) \<and> unat c = unat a + unat b"
  for a b c :: "'a::len word"
proof -
  have "unat (a + b) = unat a + unat b" if "unat a + unat b < 2 ^ LENGTH('a)"
    using that by (simp add: unat_add_lem)
  then show ?thesis
    by (auto simp: checked_add_def word_unat_eq_iff)
qed

lemma checked_sub_Some [checked_simps]:
  "checked_sub a b = Some c \<longleftrightarrow> unat b \<le> unat a \<and> unat c = unat a - unat b"
  for a b c :: "'a::len word"
  by (auto simp: checked_sub_def word_le_nat_alt unat_sub word_unat_eq_iff)

lemma checked_mul_Some [checked_simps]:
  "checked_mul a b = Some c \<longleftrightarrow>
     unat a * unat b < 2 ^ LENGTH('a) \<and> unat c = unat a * unat b"
  for a b c :: "'a::len word"
proof -
  have "unat (a * b) = unat a * unat b" if "unat a * unat b < 2 ^ LENGTH('a)"
    using that by (simp add: unat_mult_lem)
  then show ?thesis
    by (auto simp: checked_mul_def word_unat_eq_iff)
qed

lemma unat_saturating_sub [simp]: "unat (saturating_sub a b) = unat a - unat b"
  for a b :: "'a::len word"
  by (auto simp: saturating_sub_def word_le_nat_alt unat_sub)

lemma unat_add_no_wrap: "unat a + unat b < 2 ^ LENGTH('a) \<Longrightarrow> unat (a + b) = unat a + unat b"
  for a b :: "'a::len word"
  by (simp add: unat_add_lem)

section \<open>Byte strings\<close>

subsection \<open>Little-endian integers\<close>

fun nat_to_le :: "nat \<Rightarrow> nat \<Rightarrow> u8 list" where
  "nat_to_le 0 x = []"
| "nat_to_le (Suc n) x = of_nat x # nat_to_le n (x div 256)"

fun le_to_nat :: "u8 list \<Rightarrow> nat" where
  "le_to_nat [] = 0"
| "le_to_nat (b # bs) = unat b + 256 * le_to_nat bs"

text \<open>\<open>to_le_bytes\<close> of an integer of \<open>n\<close> bytes and \<open>from_le_bytes\<close>.\<close>

definition le_bytes :: "nat \<Rightarrow> 'a::len word \<Rightarrow> u8 list" where
  "le_bytes n w = nat_to_le n (unat w)"

definition le_word :: "u8 list \<Rightarrow> 'a::len word" where
  "le_word bs = of_nat (le_to_nat bs)"

lemma length_nat_to_le [simp]: "length (nat_to_le n x) = n"
  by (induction n arbitrary: x) auto

lemma length_le_bytes [simp]: "length (le_bytes n w) = n"
  by (simp add: le_bytes_def)

lemma le_to_nat_to_le: "le_to_nat (nat_to_le n x) = x mod 256 ^ n"
proof (induction n arbitrary: x)
  case 0
  then show ?case by simp
next
  case (Suc n)
  have "le_to_nat (nat_to_le (Suc n) x) = x mod 256 + 256 * (x div 256 mod 256 ^ n)"
    using Suc by (simp add: unat_of_nat)
  also have "\<dots> = x mod (256 * 256 ^ n)"
    by (simp add: mod_mult2_eq)
  finally show ?case by simp
qed

lemma le_to_nat_bound: "le_to_nat bs < 256 ^ length bs"
proof (induction bs)
  case Nil
  then show ?case by simp
next
  case (Cons b bs)
  have "unat b < 256" using unsigned_less [of b] by simp
  moreover have "256 * le_to_nat bs + 256 \<le> 256 * 256 ^ length bs"
    using Cons by simp
  ultimately show ?case by simp
qed

lemma nat_to_le_to_nat: "nat_to_le (length bs) (le_to_nat bs) = bs"
proof (induction bs)
  case Nil
  then show ?case by simp
next
  case (Cons b bs)
  have b: "unat b < 256" using unsigned_less [of b] by simp
  have "unat (of_nat (unat b + 256 * le_to_nat bs) :: u8) = unat b"
    using b by (simp add: unat_of_nat del: of_nat_add of_nat_mult)
  then have "(of_nat (unat b + 256 * le_to_nat bs) :: u8) = b"
    by (simp only: word_unat_eq_iff)
  then show ?case using Cons b by simp
qed

lemma le_word_le_bytes:
  "LENGTH('a) \<le> 8 * n \<Longrightarrow> le_word (le_bytes n w) = w" for w :: "'a::len word"
proof -
  assume n: "LENGTH('a) \<le> 8 * n"
  have "(2::nat) ^ LENGTH('a) \<le> 2 ^ (8 * n)"
    using n by (intro power_increasing) auto
  also have "\<dots> = 256 ^ n" by (simp add: power_mult)
  finally have "unat w < 256 ^ n"
    using unsigned_less [of w, where ?'a = nat] by linarith
  then have "unat w mod 256 ^ n = unat w" by simp
  then show ?thesis by (simp add: le_word_def le_bytes_def le_to_nat_to_le)
qed

lemma le_bytes_le_word:
  "length bs = n \<Longrightarrow> 8 * n \<le> LENGTH('a) \<Longrightarrow> le_bytes n (le_word bs :: 'a::len word) = bs"
proof -
  assume n: "length bs = n" and l: "8 * n \<le> LENGTH('a)"
  have "le_to_nat bs < 256 ^ n" using le_to_nat_bound [of bs] n by simp
  also have "(256::nat) ^ n = 2 ^ (8 * n)" by (simp add: power_mult)
  also have "\<dots> \<le> 2 ^ LENGTH('a)" using l by (intro power_increasing) auto
  finally have "unat (of_nat (le_to_nat bs) :: 'a word) = le_to_nat bs"
    by (simp add: unat_of_nat)
  then show ?thesis using nat_to_le_to_nat [of bs] n
    by (simp add: le_bytes_def le_word_def)
qed

lemma le_word_le_bytes_16 [simp, codec_simps]: "le_word (le_bytes 2 w) = (w :: u16)"
  and le_word_le_bytes_32 [simp, codec_simps]: "le_word (le_bytes 4 v) = (v :: u32)"
  and le_word_le_bytes_64 [simp, codec_simps]: "le_word (le_bytes 8 x) = (x :: u64)"
  by (simp_all add: le_word_le_bytes)

subsection \<open>Slices and patches\<close>

text \<open>
  \<open>subslice bs a b\<close> is \<open>&bs[a..b]\<close>; \<open>patch bs a src\<close> is \<open>bs[a..a + src.len()].copy_from_slice(src)\<close>.
  Both panic in Rust when out of range; every use in the sources is behind a length test or on a
  buffer of fixed size, and the lemmas ask for the range.
\<close>

definition subslice :: "'b list \<Rightarrow> nat \<Rightarrow> nat \<Rightarrow> 'b list" where
  "subslice bs a b = take (b - a) (drop a bs)"

definition patch :: "'b list \<Rightarrow> nat \<Rightarrow> 'b list \<Rightarrow> 'b list" where
  "patch bs a src = take (length bs) (take a bs @ src @ drop (a + length src) bs)"

definition zeros :: "nat \<Rightarrow> u8 list" where
  "zeros n = replicate n 0"

text \<open>\<open>Vec::resize(n, 0)\<close>.\<close>

definition resize :: "u8 list \<Rightarrow> nat \<Rightarrow> u8 list" where
  "resize bs n = (if length bs \<le> n then bs @ zeros (n - length bs) else take n bs)"

lemma length_zeros [simp]: "length (zeros n) = n"
  by (simp add: zeros_def)

lemma nth_zeros [simp]: "i < n \<Longrightarrow> zeros n ! i = 0"
  by (simp add: zeros_def)

lemma take_zeros [simp]: "take m (zeros n) = zeros (min m n)"
  by (simp add: zeros_def min.commute)

lemma drop_zeros [simp]: "drop m (zeros n) = zeros (n - m)"
  by (simp add: zeros_def)

lemma zeros_0 [simp]: "zeros 0 = []"
  by (simp add: zeros_def)

lemma set_zeros: "set (zeros n) \<subseteq> {0}"
  by (auto simp: zeros_def)

lemma length_resize [simp]: "length (resize bs n) = n"
  by (auto simp: resize_def)

lemma take_resize [simp]: "length bs \<le> n \<Longrightarrow> take (length bs) (resize bs n) = bs"
  by (simp add: resize_def)

lemma length_subslice [simp]: "length (subslice bs a b) = min (b - a) (length bs - a)"
  by (simp add: subslice_def)

lemma length_patch [simp]: "length (patch bs a src) = length bs"
  by (simp add: patch_def)

lemma patch_inside: "a + length src \<le> length bs \<Longrightarrow> patch bs a src = take a bs @ src @ drop (a + length src) bs"
  by (simp add: patch_def)

lemma subslice_patch_same [codec_simps]:
  "a + length src \<le> length bs \<Longrightarrow> b = a + length src \<Longrightarrow> subslice (patch bs a src) a b = src"
  by (simp add: subslice_def patch_inside)

lemma subslice_patch_before [codec_simps]:
  "a + length src \<le> length bs \<Longrightarrow> b \<le> a \<Longrightarrow> subslice (patch bs a src) c b = subslice bs c b"
  by (cases "c \<le> b") (auto simp: subslice_def patch_inside drop_take)

lemma subslice_patch_after [codec_simps]:
  "a + length src \<le> length bs \<Longrightarrow> a + length src \<le> c \<Longrightarrow> subslice (patch bs a src) c b = subslice bs c b"
  by (simp add: subslice_def patch_inside)

lemma nth_patch:
  "a + length src \<le> length bs \<Longrightarrow> i < length bs \<Longrightarrow>
     patch bs a src ! i = (if a \<le> i \<and> i < a + length src then src ! (i - a) else bs ! i)"
  by (auto simp: patch_inside nth_append min_def)

lemma subslice_append_left [codec_simps]:
  "b \<le> length xs \<Longrightarrow> subslice (xs @ ys) a b = subslice xs a b"
  by (simp add: subslice_def)

lemma subslice_append_right [codec_simps]:
  "length xs \<le> a \<Longrightarrow> subslice (xs @ ys) a b = subslice ys (a - length xs) (b - length xs)"
  by (simp add: subslice_def)

lemma subslice_full [simp]: "length xs = n \<Longrightarrow> subslice xs 0 n = xs"
  by (simp add: subslice_def)

lemma subslice_take: "b \<le> n \<Longrightarrow> subslice (take n bs) a b = subslice bs a b"
  by (simp add: subslice_def drop_take min_absorb1 diff_le_mono)

lemma subslice_eq_nthI:
  "b \<le> length xs \<Longrightarrow> b \<le> length ys \<Longrightarrow> (\<And>i. a \<le> i \<Longrightarrow> i < b \<Longrightarrow> xs ! i = ys ! i) \<Longrightarrow>
     subslice xs a b = subslice ys a b"
  by (intro nth_equalityI) (auto simp: subslice_def)

section \<open>State and error\<close>

text \<open>
  A Rust method on \<open>&mut self\<close> that returns \<open>Result<A, E>\<close> is a function from the state to the result
  and the state it leaves behind. The state is there after an error too: what the code has already
  written stays written.
\<close>

type_synonym ('s, 'e, 'a) st = "'s \<Rightarrow> ('e + 'a) \<times> 's"

definition st_ret :: "'a \<Rightarrow> ('s, 'e, 'a) st" where
  "st_ret x = (\<lambda>s. (Inr x, s))"

definition st_err :: "'e \<Rightarrow> ('s, 'e, 'a) st" where
  "st_err e = (\<lambda>s. (Inl e, s))"

definition st_lift :: "'e + 'a \<Rightarrow> ('s, 'e, 'a) st" where
  "st_lift r = (\<lambda>s. (r, s))"

definition st_bind :: "('s, 'e, 'a) st \<Rightarrow> ('a \<Rightarrow> ('s, 'e, 'b) st) \<Rightarrow> ('s, 'e, 'b) st" where
  "st_bind m f = (\<lambda>s. case m s of (Inl e, s') \<Rightarrow> (Inl e, s') | (Inr x, s') \<Rightarrow> f x s')"

text \<open>\<open>map_err\<close>, with the error of one layer turned into the error of the next.\<close>

definition st_map_err :: "('e \<Rightarrow> 'f) \<Rightarrow> ('s, 'e, 'a) st \<Rightarrow> ('s, 'f, 'a) st" where
  "st_map_err g m = (\<lambda>s. case m s of (Inl e, s') \<Rightarrow> (Inl (g e), s') | (Inr x, s') \<Rightarrow> (Inr x, s'))"

text \<open>An operation of a part of the state, run on the whole.\<close>

definition st_zoom :: "('t \<Rightarrow> 's) \<Rightarrow> ('s \<Rightarrow> 't \<Rightarrow> 't) \<Rightarrow> ('s, 'e, 'a) st \<Rightarrow> ('t, 'e, 'a) st" where
  "st_zoom get put m = (\<lambda>t. case m (get t) of (r, s') \<Rightarrow> (r, put s' t))"

lemma st_simps [simp, io_simps]:
  "st_ret x s = (Inr x, s)"
  "st_err e s = (Inl e, s)"
  "st_lift r s = (r, s)"
  "st_zoom get put m t = (fst (m (get t)), put (snd (m (get t))) t)"
  by (simp_all add: st_ret_def st_err_def st_lift_def st_zoom_def split_beta)

lemma st_bind_run [io_simps]:
  "m s = (Inr x, s') \<Longrightarrow> st_bind m f s = f x s'"
  "m s = (Inl e, s') \<Longrightarrow> st_bind m f s = (Inl e, s')"
  by (simp_all add: st_bind_def)

lemma st_bind_ret [simp]: "st_bind (st_ret x) f = f x"
  and st_bind_err [simp]: "st_bind (st_err e) f = st_err e"
  and st_bind_lift_Inr [simp]: "st_bind (st_lift (Inr x)) f = f x"
  and st_bind_lift_Inl [simp]: "st_bind (st_lift (Inl e)) f = st_err e"
  by (simp_all add: st_bind_def fun_eq_iff)

lemma st_bind_assoc: "st_bind (st_bind m f) g = st_bind m (\<lambda>x. st_bind (f x) g)"
  by (auto simp: st_bind_def fun_eq_iff split: prod.split sum.split)

lemma st_bind_unit: "st_bind m (\<lambda>_. st_ret ()) = m"
  by (auto simp: st_bind_def fun_eq_iff split: prod.split sum.split)

lemma st_bind_eq_Inr:
  "st_bind m f s = (Inr y, s2) \<longleftrightarrow> (\<exists>x s1. m s = (Inr x, s1) \<and> f x s1 = (Inr y, s2))"
  by (auto simp: st_bind_def split: prod.splits sum.splits)

lemma st_bind_eq_Inl:
  "st_bind m f s = (Inl e, s2) \<longleftrightarrow>
     m s = (Inl e, s2) \<or> (\<exists>x s1. m s = (Inr x, s1) \<and> f x s1 = (Inl e, s2))"
  by (auto simp: st_bind_def split: prod.splits sum.splits)

lemma st_map_err_eq_Inr [io_simps]: "st_map_err g m s = (Inr x, s') \<longleftrightarrow> m s = (Inr x, s')"
  by (auto simp: st_map_err_def split: prod.splits sum.splits)

lemma st_map_err_eq_Inl [io_simps]:
  "st_map_err g m s = (Inl f, s') \<longleftrightarrow> (\<exists>e. m s = (Inl e, s') \<and> f = g e)"
  by (auto simp: st_map_err_def split: prod.splits sum.splits)

text \<open>\<open>keeps g m\<close>: the operation leaves the view \<open>g\<close> of the state as it was, whatever its result.\<close>

definition keeps :: "('s \<Rightarrow> 'v) \<Rightarrow> ('s, 'e, 'a) st \<Rightarrow> bool" where
  "keeps g m \<longleftrightarrow> (\<forall>s. g (snd (m s)) = g s)"

lemma keepsD: "keeps g m \<Longrightarrow> m s = (r, s') \<Longrightarrow> g s' = g s"
  by (metis keeps_def snd_conv)

lemma keeps_basic [simp]: "keeps g (st_ret x)" "keeps g (st_err e)" "keeps g (st_lift r)"
  by (simp_all add: keeps_def)

lemma keeps_bind [intro]: "keeps g m \<Longrightarrow> (\<And>x. keeps g (f x)) \<Longrightarrow> keeps g (st_bind m f)"
  by (auto simp: keeps_def st_bind_def split: prod.split sum.split dest: spec) (metis snd_conv)+

lemma keeps_if [intro]: "keeps g m \<Longrightarrow> keeps g n \<Longrightarrow> keeps g (if b then m else n)"
  by simp

end
