(* ===== verification/Kix_Layout.thy ===== *)
theory Kix_Layout
  imports Kein_Base
begin











section \<open>Arithmetic of the split\<close>




lemma unat_min [simp]: "unat (min a b) = min (unat a) (unat b)"
  by (simp add: min_def word_le_nat_alt)

lemma unat_max [simp]: "unat (max a b) = max (unat a) (unat b)"
  by (simp add: max_def word_le_nat_alt)




end
