(* ===== verification/Byte_Codec.thy ===== *)
theory Byte_Codec
  imports Kein_Base
begin

text \<open>
  The contract of a fixed-width byte codec and what follows from it for a table of entries. The
  decoders of the sources walk such a table with a running offset
  (\<open>decode_checkpoint\<close>, \<open>decode_delta_batch\<close> in \<open>arena.rs\<close>) or with a base computed from
  the index (the KP2 decoders); both are \<open>decode_run\<close>.
\<close>

section \<open>Walking a table\<close>

fun decode_run :: "(u8 list \<Rightarrow> 'x option) \<Rightarrow> nat \<Rightarrow> nat \<Rightarrow> nat \<Rightarrow> u8 list \<Rightarrow> 'x list option" where
  "decode_run dec w 0 off bs = Some []"
| "decode_run dec w (Suc n) off bs =
     (case dec (subslice bs off (off + w)) of
        None \<Rightarrow> None
      | Some x \<Rightarrow> (case decode_run dec w n (off + w) bs of None \<Rightarrow> None | Some xs \<Rightarrow> Some (x # xs)))"

lemma decode_run_length: "decode_run dec w n off bs = Some xs \<Longrightarrow> length xs = n"
  by (induction n arbitrary: off xs) (auto split: option.splits)

section \<open>Fixed-width codecs\<close>

locale fixed_codec =
  fixes enc :: "'x \<Rightarrow> u8 list"
    and dec :: "u8 list \<Rightarrow> 'x option"
    and width :: nat
    and wf :: "'x \<Rightarrow> bool"
  assumes enc_length: "wf x \<Longrightarrow> length (enc x) = width"
    and dec_enc: "wf x \<Longrightarrow> dec (enc x) = Some x"
begin

lemma enc_inj: "wf x \<Longrightarrow> wf y \<Longrightarrow> enc x = enc y \<Longrightarrow> x = y"
  by (metis dec_enc option.inject)

lemma table_length: "list_all wf xs \<Longrightarrow> length (concat (map enc xs)) = length xs * width"
  by (induction xs) (auto simp: enc_length)

lemma decode_run_table:
  "list_all wf xs \<Longrightarrow>
     decode_run dec width (length xs) (length pre) (pre @ concat (map enc xs) @ post) = Some xs"
proof (induction xs arbitrary: pre)
  case Nil
  then show ?case by simp
next
  case (Cons x xs)
  then have x: "length (enc x) = width" "dec (enc x) = Some x"
    by (auto simp: enc_length dec_enc)
  have "decode_run dec width (length xs) (length (pre @ enc x)) ((pre @ enc x) @ concat (map enc xs) @ post) = Some xs"
    using Cons.prems by (intro Cons.IH) simp
  then show ?case
    using x by (simp add: subslice_def)
qed

lemma table_inj:
  "list_all wf xs \<Longrightarrow> list_all wf ys \<Longrightarrow> concat (map enc xs) = concat (map enc ys) \<Longrightarrow>
     length xs = length ys \<Longrightarrow> xs = ys"
  by (metis decode_run_table option.inject)

end

end
