(* ===== verification/Kix_Types.thy ===== *)
theory Kix_Types
  imports Byte_Codec
begin

unbundle bit_operations_syntax

text \<open>
  \<open>poc/kix/crates/kix/src/types.rs\<close>: chunk identifiers, location records and their on-disk form.
  A \<open>ChunkId\<close> wraps \<open>[u8; 32]\<close>; \<open>chunk_id_ok\<close> says that the list has that length.
\<close>

section \<open>Chunk identifiers\<close>

datatype ChunkId = ChunkId (chunk_bytes: "u8 list")

definition chunk_id_ok :: "ChunkId \<Rightarrow> bool" where
  "chunk_id_ok c \<longleftrightarrow> length (chunk_bytes c) = 32"

definition splitmix64 :: "u64 \<Rightarrow> u64" where
  "splitmix64 x0 =
     (let x = x0 + 0x9e3779b97f4a7c15;
          z = (x XOR drop_bit 30 x) * 0xbf58476d1ce4e5b9;
          z = (z XOR drop_bit 27 z) * 0x94d049bb133111eb
      in z XOR drop_bit 31 z)"

fun seed_run :: "nat \<Rightarrow> u64 \<Rightarrow> u8 list" where
  "seed_run 0 x = []"
| "seed_run (Suc n) x = (let x' = splitmix64 x in le_bytes 8 x' @ seed_run n x')"

definition from_seed :: "u64 \<Rightarrow> ChunkId" where
  "from_seed seed = ChunkId (seed_run 4 seed)"

section \<open>Location records\<close>

datatype LocationKind = Extent | PackedContainer

fun location_kind_byte :: "LocationKind \<Rightarrow> u8" where
  "location_kind_byte Extent = 1"
| "location_kind_byte PackedContainer = 2"

definition location_kind_from_byte :: "u8 \<Rightarrow> LocationKind option" where
  "location_kind_from_byte v = (if v = 1 then Some Extent else if v = 2 then Some PackedContainer else None)"

record LocationRecord =
  drive_id :: u16
  location_kind :: LocationKind
  physical_offset :: u64
  logical_length :: u32
  stored_length :: u32
  generation :: u32
  checksum :: u32

definition ENCODED_LEN :: nat where
  "ENCODED_LEN = 28"

definition extent_record :: "u16 \<Rightarrow> u64 \<Rightarrow> u32 \<Rightarrow> u32 \<Rightarrow> u32 \<Rightarrow> u32 \<Rightarrow> LocationRecord" where
  "extent_record drive off logical stored gen csum =
     \<lparr>drive_id = drive, location_kind = Extent, physical_offset = off, logical_length = logical,
      stored_length = stored, generation = gen, checksum = csum\<rparr>"

definition packed_record :: "u16 \<Rightarrow> u64 \<Rightarrow> u32 \<Rightarrow> u32 \<Rightarrow> u32 \<Rightarrow> u32 \<Rightarrow> LocationRecord" where
  "packed_record drive off logical stored gen csum =
     \<lparr>drive_id = drive, location_kind = PackedContainer, physical_offset = off, logical_length = logical,
      stored_length = stored, generation = gen, checksum = csum\<rparr>"

definition encode_location :: "LocationRecord \<Rightarrow> u8 list" where
  "encode_location r =
     (let out = zeros ENCODED_LEN;
          out = patch out 0 (le_bytes 2 (drive_id r));
          out = patch out 2 [location_kind_byte (location_kind r)];
          out = patch out 3 [0];
          out = patch out 4 (le_bytes 8 (physical_offset r));
          out = patch out 12 (le_bytes 4 (logical_length r));
          out = patch out 16 (le_bytes 4 (stored_length r));
          out = patch out 20 (le_bytes 4 (generation r));
          out = patch out 24 (le_bytes 4 (checksum r))
      in out)"

definition decode_location :: "u8 list \<Rightarrow> LocationRecord option" where
  "decode_location bytes =
     (if length bytes < ENCODED_LEN then None
      else case location_kind_from_byte (bytes ! 2) of
        None \<Rightarrow> None
      | Some kind \<Rightarrow> Some
          \<lparr>drive_id = le_word (subslice bytes 0 2),
           location_kind = kind,
           physical_offset = le_word (subslice bytes 4 12),
           logical_length = le_word (subslice bytes 12 16),
           stored_length = le_word (subslice bytes 16 20),
           generation = le_word (subslice bytes 20 24),
           checksum = le_word (subslice bytes 24 28)\<rparr>)"

section \<open>Round trip\<close>

lemma location_kind_from_byte_byte [simp, codec_simps]:
  "location_kind_from_byte (location_kind_byte k) = Some k"
  by (cases k) (auto simp: location_kind_from_byte_def)

lemma nth_subslice: "i < length bs \<Longrightarrow> bs ! i = subslice bs i (Suc i) ! 0"
  by (simp add: subslice_def)

lemma length_encode_location [simp]: "length (encode_location r) = ENCODED_LEN"
  by (simp add: encode_location_def ENCODED_LEN_def Let_def)

lemma decode_encode_location: "decode_location (encode_location r) = Some r"
proof -
  have "encode_location r ! 2 = location_kind_byte (location_kind r)"
    by (simp add: encode_location_def ENCODED_LEN_def Let_def nth_patch)
  moreover have
    "subslice (encode_location r) 0 2 = le_bytes 2 (drive_id r)"
    "subslice (encode_location r) 4 12 = le_bytes 8 (physical_offset r)"
    "subslice (encode_location r) 12 16 = le_bytes 4 (logical_length r)"
    "subslice (encode_location r) 16 20 = le_bytes 4 (stored_length r)"
    "subslice (encode_location r) 20 24 = le_bytes 4 (generation r)"
    "subslice (encode_location r) 24 28 = le_bytes 4 (checksum r)"
    by (simp_all add: encode_location_def ENCODED_LEN_def Let_def codec_simps)
  ultimately show ?thesis
    by (simp add: decode_location_def ENCODED_LEN_def)
qed

interpretation loc: fixed_codec encode_location decode_location ENCODED_LEN "\<lambda>_. True"
  by unfold_locales (simp_all add: decode_encode_location)

section \<open>Seeds\<close>

lemma length_seed_run [simp]: "length (seed_run n x) = 8 * n"
  by (induction n arbitrary: x) (auto simp: Let_def)

lemma from_seed_ok: "chunk_id_ok (from_seed s)"
  by (simp add: chunk_id_ok_def from_seed_def)

lemma drop_bit_fixpoint: "0 < k \<Longrightarrow> drop_bit k d = d \<Longrightarrow> d = 0" for d :: "'a::len word"
proof -
  assume k: "0 < k" and d: "drop_bit k d = d"
  have "unat (drop_bit k d) = drop_bit k (unat d)"
    by (simp only: unsigned_drop_bit_eq unsigned_take_bit_eq [symmetric]) simp
  then have "unat d = unat d div 2 ^ k"
    by (simp only: d) (simp only: drop_bit_eq_div)
  moreover have "(1::nat) < 2 ^ k" using k by (rule one_less_power [rotated]) simp
  ultimately have "unat d = 0"
    by (metis div_less_dividend less_irrefl not_gr_zero)
  then show "d = 0" by (simp add: unsigned_eq_0_iff)
qed

lemma xorshift_inj: "0 < k \<Longrightarrow> x XOR drop_bit k x = y XOR drop_bit k y \<Longrightarrow> x = y"
  for x y :: "'a::len word"
proof -
  assume k: "0 < k" and eq: "x XOR drop_bit k x = y XOR drop_bit k y"
  have "(x XOR y) XOR drop_bit k (x XOR y) = (x XOR drop_bit k x) XOR (y XOR drop_bit k y)"
    by (simp add: drop_bit_xor ac_simps)
  also have "\<dots> = 0" using eq by simp
  finally have "drop_bit k (x XOR y) = x XOR y"
    by (metis bit.xor_self xor.assoc xor.comm_neutral xor.commute)
  then have "x XOR y = 0" using drop_bit_fixpoint [OF k] by blast
  then show "x = y" by (metis bit.xor_self xor.assoc xor.comm_neutral xor.left_neutral)
qed

lemma mult_odd_inj: "c * d = 1 \<Longrightarrow> x * c = y * c \<Longrightarrow> x = y" for x y c d :: "'a::len word"
  by (metis mult.assoc mult.right_neutral)

lemma splitmix64_inj: "splitmix64 x = splitmix64 y \<Longrightarrow> x = y"
proof -
  assume eq: "splitmix64 x = splitmix64 y"
  have c1: "(0xbf58476d1ce4e5b9 :: u64) * 0x96de1b173f119089 = 1"
    and c2: "(0x94d049bb133111eb :: u64) * 0x319642b2d24d8ec3 = 1"
    by simp_all
  from eq show ?thesis
    unfolding splitmix64_def Let_def
    by (auto dest!: xorshift_inj [rotated] mult_odd_inj [OF c1] mult_odd_inj [OF c2])
qed

lemma from_seed_inj: "from_seed x = from_seed y \<Longrightarrow> x = y"
proof -
  assume "from_seed x = from_seed y"
  then have "take 8 (seed_run 4 x) = take 8 (seed_run 4 y)"
    by (simp add: from_seed_def)
  then have "le_bytes 8 (splitmix64 x) = le_bytes 8 (splitmix64 y)"
    by (simp add: numeral_eq_Suc Let_def)
  then have "splitmix64 x = splitmix64 y"
    by (metis le_word_le_bytes_64)
  then show "x = y" by (rule splitmix64_inj)
qed

end
