(* ===== verification/Kix_Slots.thy ===== *)
theory Kix_Slots
  imports Kix_Types
begin

text \<open>
  The geometry of chunk media (\<open>poc/kix/crates/kix/src/chunk_media.rs\<close>): a superblock, then per slot
  two publication lanes, each a header block followed by the payload area; \<open>slot_geometry\<close> places a lane,
  \<open>slot_address_for_record\<close> finds the lane a location record points to. All arithmetic is on 64-bit words
  with the source's checked operations.
\<close>

section \<open>Layouts\<close>

definition CHUNK_MEDIA_ALIGN_BYTES :: nat where "CHUNK_MEDIA_ALIGN_BYTES = 4096"
definition CHUNK_MEDIA_SUPERBLOCK_BYTES :: u64 where "CHUNK_MEDIA_SUPERBLOCK_BYTES = 4096"
definition CHUNK_MEDIA_SLOT_HEADER_BYTES :: u64 where "CHUNK_MEDIA_SLOT_HEADER_BYTES = 4096"
definition CHUNK_MEDIA_PUBLICATION_LANES :: u64 where "CHUNK_MEDIA_PUBLICATION_LANES = 2"

lemmas media_consts [simp] =
  CHUNK_MEDIA_ALIGN_BYTES_def CHUNK_MEDIA_SUPERBLOCK_BYTES_def CHUNK_MEDIA_SLOT_HEADER_BYTES_def
  CHUNK_MEDIA_PUBLICATION_LANES_def

datatype ChunkMediaLayoutKind = ExtentOnly | PackedOnly | Mixed

record ChunkMediaLayoutSpec =
  layout_kind :: ChunkMediaLayoutKind
  extent_bytes :: u32
  packed_bytes :: u32
  key_slots :: u64

record SlotGeometry =
  slot_base_offset :: u64
  payload_offset :: u64
  geo_location_kind :: LocationKind
  geo_logical_length :: u32
  geo_stored_length :: u32

record SlotAddress =
  slot_index :: u64
  publication_lane :: u64

definition validate_layout :: "ChunkMediaLayoutSpec \<Rightarrow> unit io_result" where
  "validate_layout layout =
     (if key_slots layout = 0 then Inr ()
      else if (ucast (extent_bytes layout) :: u64) mod of_nat CHUNK_MEDIA_ALIGN_BYTES \<noteq> 0 then Inl InvalidInput
      else if (ucast (packed_bytes layout) :: u64) mod of_nat CHUNK_MEDIA_ALIGN_BYTES \<noteq> 0 then Inl InvalidInput
      else Inr ())"

definition slot_bytes :: "u64 \<Rightarrow> u64 io_result" where
  "slot_bytes payload_bytes = ok_or InvalidInput (checked_add CHUNK_MEDIA_SLOT_HEADER_BYTES payload_bytes)"

section \<open>From slot and lane to place\<close>

definition geometry_at :: "u64 \<Rightarrow> LocationKind \<Rightarrow> u32 \<Rightarrow> SlotGeometry" where
  "geometry_at base kind bytes =
     \<lparr>slot_base_offset = base, payload_offset = base + CHUNK_MEDIA_SLOT_HEADER_BYTES,
      geo_location_kind = kind, geo_logical_length = bytes, geo_stored_length = bytes\<rparr>"

definition flat_slot_base :: "u64 \<Rightarrow> u64 \<Rightarrow> u64 \<Rightarrow> u64 io_result" where
  "flat_slot_base slot_size key_seed lane =
     bind_r (ok_or InvalidInput (checked_mul CHUNK_MEDIA_PUBLICATION_LANES slot_size)) (\<lambda>slot_stride.
     bind_r (ok_or InvalidInput (checked_mul key_seed slot_stride)) (\<lambda>slot_off.
     ok_or InvalidInput
       (case checked_add CHUNK_MEDIA_SUPERBLOCK_BYTES slot_off of
          None \<Rightarrow> None
        | Some base \<Rightarrow> (case checked_mul lane slot_size of None \<Rightarrow> None | Some l \<Rightarrow> checked_add base l))))"

definition slot_geometry :: "ChunkMediaLayoutSpec \<Rightarrow> u64 \<Rightarrow> u64 \<Rightarrow> SlotGeometry io_result" where
  "slot_geometry layout key_seed lane =
     (if lane \<ge> CHUNK_MEDIA_PUBLICATION_LANES then Inl InvalidInput
      else
        bind_r (slot_bytes (ucast (extent_bytes layout))) (\<lambda>extent_slot_bytes.
        bind_r (slot_bytes (ucast (packed_bytes layout))) (\<lambda>packed_slot_bytes.
        case layout_kind layout of
          ExtentOnly \<Rightarrow>
            bind_r (flat_slot_base extent_slot_bytes key_seed lane) (\<lambda>base.
            Inr (geometry_at base Extent (extent_bytes layout)))
        | PackedOnly \<Rightarrow>
            bind_r (flat_slot_base packed_slot_bytes key_seed lane) (\<lambda>base.
            Inr (geometry_at base PackedContainer (packed_bytes layout)))
        | Mixed \<Rightarrow>
            bind_r (ok_or InvalidInput (checked_mul CHUNK_MEDIA_PUBLICATION_LANES extent_slot_bytes)) (\<lambda>extent_group_bytes.
            bind_r (ok_or InvalidInput (checked_mul CHUNK_MEDIA_PUBLICATION_LANES packed_slot_bytes)) (\<lambda>packed_group_bytes.
            bind_r (ok_or InvalidInput (checked_add extent_group_bytes packed_group_bytes)) (\<lambda>pair_stride.
            let pair_index = key_seed div 2 in
            bind_r (ok_or InvalidInput (checked_mul pair_index pair_stride)) (\<lambda>pair_off.
            bind_r (ok_or InvalidInput (checked_add CHUNK_MEDIA_SUPERBLOCK_BYTES pair_off)) (\<lambda>pair_base.
            if key_seed AND 1 = 0 then
              bind_r (ok_or InvalidInput (checked_mul lane extent_slot_bytes)) (\<lambda>l.
              bind_r (ok_or InvalidInput (checked_add pair_base l)) (\<lambda>base.
              Inr (geometry_at base Extent (extent_bytes layout))))
            else
              bind_r (ok_or InvalidInput
                (case checked_add pair_base extent_group_bytes of
                   None \<Rightarrow> None
                 | Some b \<Rightarrow> (case checked_mul lane packed_slot_bytes of None \<Rightarrow> None | Some l \<Rightarrow> checked_add b l))) (\<lambda>base.
              Inr (geometry_at base PackedContainer (packed_bytes layout)))))))))))"

section \<open>From a record to slot and lane\<close>

definition record_fits :: "LocationRecord \<Rightarrow> LocationKind \<Rightarrow> u32 \<Rightarrow> bool" where
  "record_fits r kind bytes \<longleftrightarrow>
     location_kind r = kind \<and> logical_length r \<noteq> 0 \<and> logical_length r \<le> bytes \<and> stored_length r = bytes"

definition flat_address :: "LocationRecord \<Rightarrow> LocationKind \<Rightarrow> u32 \<Rightarrow> u64 \<Rightarrow> u64 \<Rightarrow> SlotAddress io_result" where
  "flat_address r kind bytes slot_size relative_offset =
     (if \<not> record_fits r kind bytes then Inl InvalidInput
      else if relative_offset mod slot_size \<noteq> 0 then Inl InvalidInput
      else
        let physical_slot = relative_offset div slot_size in
        Inr \<lparr>slot_index = physical_slot div CHUNK_MEDIA_PUBLICATION_LANES,
             publication_lane = physical_slot mod CHUNK_MEDIA_PUBLICATION_LANES\<rparr>)"

definition mixed_address :: "ChunkMediaLayoutSpec \<Rightarrow> LocationRecord \<Rightarrow> u64 \<Rightarrow> u64 \<Rightarrow> u64 \<Rightarrow> SlotAddress io_result" where
  "mixed_address layout r extent_slot_bytes packed_slot_bytes relative_offset =
     bind_r (ok_or InvalidInput (checked_mul CHUNK_MEDIA_PUBLICATION_LANES extent_slot_bytes)) (\<lambda>extent_group_bytes.
     bind_r (ok_or InvalidInput (checked_mul CHUNK_MEDIA_PUBLICATION_LANES packed_slot_bytes)) (\<lambda>packed_group_bytes.
     bind_r (ok_or InvalidInput (checked_add extent_group_bytes packed_group_bytes)) (\<lambda>pair_stride.
     let pair_index = relative_offset div pair_stride;
         pair_offset = relative_offset mod pair_stride
     in case location_kind r of
          Extent \<Rightarrow>
            if record_fits r Extent (extent_bytes layout)
               \<and> pair_offset < extent_group_bytes \<and> pair_offset mod extent_slot_bytes = 0
            then bind_r (ok_or InvalidInput (checked_mul pair_index 2)) (\<lambda>idx.
                 Inr \<lparr>slot_index = idx, publication_lane = pair_offset div extent_slot_bytes\<rparr>)
            else Inl InvalidInput
        | PackedContainer \<Rightarrow>
            if record_fits r PackedContainer (packed_bytes layout)
               \<and> pair_offset \<ge> extent_group_bytes
               \<and> (pair_offset - extent_group_bytes) mod packed_slot_bytes = 0
            then bind_r (ok_or InvalidInput
                   (case checked_mul pair_index 2 of None \<Rightarrow> None | Some v \<Rightarrow> checked_add v 1)) (\<lambda>idx.
                 Inr \<lparr>slot_index = idx,
                      publication_lane = (pair_offset - extent_group_bytes) div packed_slot_bytes\<rparr>)
            else Inl InvalidInput)))"

definition slot_address_for_record :: "ChunkMediaLayoutSpec \<Rightarrow> LocationRecord \<Rightarrow> SlotAddress io_result" where
  "slot_address_for_record layout r =
     bind_r (validate_layout layout) (\<lambda>_.
     if physical_offset r < CHUNK_MEDIA_SUPERBLOCK_BYTES + CHUNK_MEDIA_SLOT_HEADER_BYTES then Inl InvalidInput
     else
       bind_r (ok_or InvalidInput (checked_sub (physical_offset r) CHUNK_MEDIA_SLOT_HEADER_BYTES)) (\<lambda>slot_base.
       bind_r (ok_or InvalidInput (checked_sub slot_base CHUNK_MEDIA_SUPERBLOCK_BYTES)) (\<lambda>relative_offset.
       bind_r (slot_bytes (ucast (extent_bytes layout))) (\<lambda>extent_slot_bytes.
       bind_r (slot_bytes (ucast (packed_bytes layout))) (\<lambda>packed_slot_bytes.
       bind_r
         (case layout_kind layout of
            ExtentOnly \<Rightarrow> flat_address r Extent (extent_bytes layout) extent_slot_bytes relative_offset
          | PackedOnly \<Rightarrow> flat_address r PackedContainer (packed_bytes layout) packed_slot_bytes relative_offset
          | Mixed \<Rightarrow> mixed_address layout r extent_slot_bytes packed_slot_bytes relative_offset)
         (\<lambda>address. if slot_index address \<ge> key_slots layout then Inl InvalidInput else Inr address))))))"

definition chunk_media_slot_index_for_record :: "ChunkMediaLayoutSpec \<Rightarrow> LocationRecord \<Rightarrow> u64 io_result" where
  "chunk_media_slot_index_for_record layout r =
     bind_r (slot_address_for_record layout r) (\<lambda>a. Inr (slot_index a))"

definition slot_geometry_for_record :: "ChunkMediaLayoutSpec \<Rightarrow> LocationRecord \<Rightarrow> SlotGeometry io_result" where
  "slot_geometry_for_record layout r =
     bind_r (slot_address_for_record layout r) (\<lambda>a. slot_geometry layout (slot_index a) (publication_lane a))"

section \<open>Records for slots\<close>

definition publication_lane_for_generation :: "u32 \<Rightarrow> u64" where
  "publication_lane_for_generation gen = ucast (saturating_sub gen 1) mod CHUNK_MEDIA_PUBLICATION_LANES"

definition next_publication_lane :: "ChunkMediaLayoutSpec \<Rightarrow> u64 \<Rightarrow> LocationRecord option \<Rightarrow> u64 io_result" where
  "next_publication_lane layout slot current_record =
     (case current_record of
        None \<Rightarrow> Inr 0
      | Some r \<Rightarrow>
          bind_r (slot_address_for_record layout r) (\<lambda>address.
          if slot_index address = slot
          then Inr ((publication_lane address + 1) mod CHUNK_MEDIA_PUBLICATION_LANES)
          else Inr 0))"

definition record_of_geometry :: "u16 \<Rightarrow> u32 \<Rightarrow> SlotGeometry \<Rightarrow> LocationRecord" where
  "record_of_geometry drive gen g =
     (case geo_location_kind g of
        Extent \<Rightarrow> extent_record drive (payload_offset g) (geo_logical_length g) (geo_stored_length g) gen 0
      | PackedContainer \<Rightarrow> packed_record drive (payload_offset g) (geo_logical_length g) (geo_stored_length g) gen 0)"

definition chunk_media_record_for_key :: "ChunkMediaLayoutSpec \<Rightarrow> u16 \<Rightarrow> u64 \<Rightarrow> u32 \<Rightarrow> LocationRecord io_result" where
  "chunk_media_record_for_key layout drive key_seed gen =
     bind_r (slot_geometry layout key_seed (publication_lane_for_generation gen)) (\<lambda>g.
     Inr (record_of_geometry drive gen g))"

definition chunk_media_record_for_slot_against_current ::
    "ChunkMediaLayoutSpec \<Rightarrow> u16 \<Rightarrow> u64 \<Rightarrow> LocationRecord option \<Rightarrow> u32 \<Rightarrow> LocationRecord io_result" where
  "chunk_media_record_for_slot_against_current layout drive slot current_record gen =
     bind_r (next_publication_lane layout slot current_record) (\<lambda>lane.
     bind_r (slot_geometry layout slot lane) (\<lambda>g.
     Inr (record_of_geometry drive gen g)))"

definition chunk_media_record_for_slot_to_lane ::
    "ChunkMediaLayoutSpec \<Rightarrow> u16 \<Rightarrow> u64 \<Rightarrow> u64 \<Rightarrow> u32 \<Rightarrow> LocationRecord io_result" where
  "chunk_media_record_for_slot_to_lane layout drive slot lane gen =
     bind_r (slot_geometry layout slot lane) (\<lambda>g. Inr (record_of_geometry drive gen g))"

definition planned_chunk_media_span_bytes :: "ChunkMediaLayoutSpec \<Rightarrow> u64 io_result" where
  "planned_chunk_media_span_bytes layout =
     bind_r (validate_layout layout) (\<lambda>_.
     if key_slots layout = 0 then Inr CHUNK_MEDIA_SUPERBLOCK_BYTES
     else
       bind_r (slot_geometry layout (key_slots layout - 1) (CHUNK_MEDIA_PUBLICATION_LANES - 1)) (\<lambda>last.
       ok_or InvalidInput (checked_add (payload_offset last) (ucast (geo_stored_length last)))))"

section \<open>The geometry over the natural numbers\<close>

definition extent_size :: "ChunkMediaLayoutSpec \<Rightarrow> nat" where
  "extent_size l = 4096 + unat (extent_bytes l)"

definition packed_size :: "ChunkMediaLayoutSpec \<Rightarrow> nat" where
  "packed_size l = 4096 + unat (packed_bytes l)"

definition slot_kind :: "ChunkMediaLayoutSpec \<Rightarrow> nat \<Rightarrow> LocationKind" where
  "slot_kind l k =
     (case layout_kind l of
        ExtentOnly \<Rightarrow> Extent | PackedOnly \<Rightarrow> PackedContainer | Mixed \<Rightarrow> if even k then Extent else PackedContainer)"

definition slot_payload :: "ChunkMediaLayoutSpec \<Rightarrow> nat \<Rightarrow> u32" where
  "slot_payload l k = (case slot_kind l k of Extent \<Rightarrow> extent_bytes l | PackedContainer \<Rightarrow> packed_bytes l)"

definition slot_size :: "ChunkMediaLayoutSpec \<Rightarrow> nat \<Rightarrow> nat" where
  "slot_size l k = 4096 + unat (slot_payload l k)"

definition group_start :: "ChunkMediaLayoutSpec \<Rightarrow> nat \<Rightarrow> nat" where
  "group_start l k =
     (case layout_kind l of
        ExtentOnly \<Rightarrow> 4096 + k * (2 * extent_size l)
      | PackedOnly \<Rightarrow> 4096 + k * (2 * packed_size l)
      | Mixed \<Rightarrow> 4096 + k div 2 * (2 * extent_size l + 2 * packed_size l) + (if even k then 0 else 2 * extent_size l))"

definition slot_start :: "ChunkMediaLayoutSpec \<Rightarrow> nat \<Rightarrow> nat \<Rightarrow> nat" where
  "slot_start l k lane = group_start l k + lane * slot_size l k"

lemmas slot_spec_defs = slot_kind_def slot_payload_def slot_size_def group_start_def slot_start_def extent_size_def packed_size_def

lemma slot_size_pos: "4096 \<le> slot_size l k"
  by (simp add: slot_size_def)

lemma group_start_Suc: "group_start l (Suc k) = group_start l k + 2 * slot_size l k"
proof (cases "layout_kind l")
  case Mixed
  then show ?thesis
    by (cases "even k") (auto simp: slot_spec_defs elim!: oddE evenE)
qed (auto simp: slot_spec_defs)

lemma group_start_mono: "k < k' \<Longrightarrow> group_start l k + 2 * slot_size l k \<le> group_start l k'"
proof (induction k')
  case (Suc k')
  then show ?case
    using group_start_Suc [of l k'] by (cases "k = k'") auto
qed simp

lemma group_start_ge: "4096 \<le> group_start l k"
  by (cases "layout_kind l") (auto simp: group_start_def)

lemma group_start_ge_index: "k \<le> group_start l k"
proof (induction k)
  case (Suc k)
  then show ?case using slot_size_pos [of l k] by (simp add: group_start_Suc)
qed simp

text \<open>Distinct lanes occupy disjoint ranges, one after the other.\<close>

lemma slot_start_mono:
  assumes "lane < 2" "lane' < 2" "k < k' \<or> (k = k' \<and> lane < lane')"
  shows "slot_start l k lane + slot_size l k \<le> slot_start l k' lane'"
proof (cases "k < k'")
  case True
  have "lane = 0 \<or> lane = 1" using assms(1) by auto
  with group_start_mono [OF True, of l] show ?thesis by (auto simp: slot_start_def)
next
  case False
  with assms have "k = k'" "lane = 0" "lane' = 1" by auto
  then show ?thesis by (simp add: slot_start_def)
qed

subsection \<open>Words and naturals\<close>

lemma checked_add_of_nat:
  "a < 2 ^ 64 \<Longrightarrow> b < 2 ^ 64 \<Longrightarrow>
     checked_add (of_nat a :: u64) (of_nat b) = (if a + b < 2 ^ 64 then Some (of_nat (a + b)) else None)"
  by (simp add: checked_add_def unat_of_nat)

lemma checked_mul_of_nat:
  "a < 2 ^ 64 \<Longrightarrow> b < 2 ^ 64 \<Longrightarrow>
     checked_mul (of_nat a :: u64) (of_nat b) = (if a * b < 2 ^ 64 then Some (of_nat (a * b)) else None)"
  by (simp add: checked_mul_def unat_of_nat)

lemma ucast_u32_of_nat: "(ucast w :: u64) = of_nat (unat w)" for w :: u32
  by simp

lemma u32_less: "unat w < 2 ^ 32" for w :: u32
  using unsigned_less [of w, where ?'a = nat] by simp

lemma slot_bytes_ok: "slot_bytes (ucast w) = Inr (of_nat (4096 + unat w))" for w :: u32
  using checked_add_of_nat [of 4096 "unat w"] u32_less [of w]
  by (simp add: slot_bytes_def)

lemma flat_slot_base_nat:
  assumes k: "k < 2 ^ 64" and lane: "lane < 2" and s: "s < 2 ^ 34"
  shows "flat_slot_base (of_nat s) (of_nat k) (of_nat lane) =
    (if 4096 + k * (2 * s) + lane * s < 2 ^ 64 then Inr (of_nat (4096 + k * (2 * s) + lane * s)) else Inl InvalidInput)"
proof -
  have m1: "checked_mul (2 :: u64) (of_nat s) = Some (of_nat (2 * s))"
    using checked_mul_of_nat [of 2 s] s by simp
  have ls: "lane * s < 2 ^ 64" using lane s by (cases lane) auto
  then have m3: "checked_mul (of_nat lane :: u64) (of_nat s) = Some (of_nat (lane * s))"
    using checked_mul_of_nat [of lane s] lane s by simp
  show ?thesis
  proof (cases "k * (2 * s) < 2 ^ 64")
    case False
    then show ?thesis
      using m1 checked_mul_of_nat [of k "2 * s"] k s by (simp add: flat_slot_base_def)
  next
    case True
    then have m2: "checked_mul (of_nat k :: u64) (of_nat (2 * s)) = Some (of_nat (k * (2 * s)))"
      using checked_mul_of_nat [of k "2 * s"] k s by simp
    show ?thesis
      using m1 m2 m3 True ls checked_add_of_nat [of 4096 "k * (2 * s)"] checked_add_of_nat [of "4096 + k * (2 * s)" "lane * s"]
      by (simp add: flat_slot_base_def del: of_nat_add of_nat_mult)
  qed
qed

lemma unat_and_1: "(w AND 1 = 0) = even (unat w)" for w :: u64
proof -
  have "(w AND 1 = 0) = (unat (w mod 2) = 0)" by (simp add: and_one_eq unsigned_eq_0_iff)
  then show ?thesis by (simp add: unat_mod_distrib even_iff_mod_2_eq_zero)
qed

lemma slot_geometry_nat:
  assumes "lane < 2"
  shows "slot_geometry l k (of_nat lane) =
    (if slot_start l (unat k) lane < 2 ^ 64
     then Inr (geometry_at (of_nat (slot_start l (unat k) lane)) (slot_kind l (unat k)) (slot_payload l (unat k)))
     else Inl InvalidInput)"
proof -
  define e p where "e = extent_size l" and "p = packed_size l"
  have ep: "e < 2 ^ 34" "p < 2 ^ 34"
    using u32_less [of "extent_bytes l"] u32_less [of "packed_bytes l"] by (simp_all add: e_def p_def extent_size_def packed_size_def)
  have sb: "slot_bytes (ucast (extent_bytes l)) = Inr (of_nat e)" "slot_bytes (ucast (packed_bytes l)) = Inr (of_nat p)"
    using slot_bytes_ok [of "extent_bytes l"] slot_bytes_ok [of "packed_bytes l"] by (simp_all add: e_def p_def extent_size_def packed_size_def)
  have k: "unat k < 2 ^ 64" "(of_nat (unat k) :: u64) = k" using unsigned_less [of k, where ?'a = nat] by simp_all
  have ln: "\<not> (2 :: u64) \<le> of_nat lane" using assms by (simp add: word_le_nat_alt unat_of_nat)
  note flat = flat_slot_base_nat [OF k(1) assms, unfolded k(2)]
  show ?thesis
  proof (cases "layout_kind l")
    case ExtentOnly
    then show ?thesis
      using ln sb flat [OF ep(1)] by (simp add: slot_geometry_def slot_spec_defs e_def)
  next
    case PackedOnly
    then show ?thesis
      using ln sb flat [OF ep(2)] by (simp add: slot_geometry_def slot_spec_defs p_def)
  next
    case Mixed
    define q t where "q = unat k div 2" and "t = 2 * e + 2 * p"
    have q: "q < 2 ^ 64" "k div 2 = of_nat q"
      using k(1) by (simp_all add: q_def word_unat_eq_iff unat_div_distrib unat_of_nat)
    have t: "t < 2 ^ 36" using ep by (simp add: t_def)
    have m: "checked_mul (2 :: u64) (of_nat e) = Some (of_nat (2 * e))" "checked_mul (2 :: u64) (of_nat p) = Some (of_nat (2 * p))"
      "checked_add (of_nat (2 * e) :: u64) (of_nat (2 * p)) = Some (of_nat t)"
      using checked_mul_of_nat [of 2 e] checked_mul_of_nat [of 2 p] checked_add_of_nat [of "2 * e" "2 * p"] ep
      by (simp_all add: t_def del: of_nat_add of_nat_mult)
    have mt: "checked_mul (of_nat q :: u64) (of_nat t) = (if q * t < 2 ^ 64 then Some (of_nat (q * t)) else None)"
      using checked_mul_of_nat [of q t] q t by simp
    have ma: "checked_add (4096 :: u64) (of_nat (q * t)) = (if 4096 + q * t < 2 ^ 64 then Some (of_nat (4096 + q * t)) else None)"
      if "q * t < 2 ^ 64" using checked_add_of_nat [of 4096 "q * t"] that by simp
    have ml: "checked_mul (of_nat lane :: u64) (of_nat x) = Some (of_nat (lane * x))" "lane * x < 2 ^ 35" if "x < 2 ^ 34" for x
    proof -
      have "lane = 0 \<or> lane = 1" using assms by auto
      then show "lane * x < 2 ^ 35" using that by auto
      with checked_mul_of_nat [of lane x] that assms
      show "checked_mul (of_nat lane :: u64) (of_nat x) = Some (of_nat (lane * x))" by simp
    qed
    have ss: "slot_start l (unat k) lane = (if even (unat k) then 4096 + q * t + lane * e else 4096 + q * t + 2 * e + lane * p)"
      "slot_kind l (unat k) = (if even (unat k) then Extent else PackedContainer)"
      "slot_payload l (unat k) = (if even (unat k) then extent_bytes l else packed_bytes l)"
      using Mixed by (auto simp: slot_spec_defs q_def t_def e_def p_def)
    show ?thesis
    proof (cases "4096 + q * t < 2 ^ 64")
      case False
      then show ?thesis
        using ln sb m mt ma Mixed q(2) ss by (auto simp: slot_geometry_def simp del: of_nat_add of_nat_mult)
    next
      case True
      show ?thesis
        using True ln sb m mt ma Mixed q(2) ss unat_and_1 [of k] ml [OF ep(1)] ml [OF ep(2)] ep
          checked_add_of_nat [of "4096 + q * t" "lane * e"] checked_add_of_nat [of "4096 + q * t" "2 * e"]
          checked_add_of_nat [of "4096 + q * t + 2 * e" "lane * p"]
        by (auto simp: slot_geometry_def simp del: of_nat_add of_nat_mult)
    qed
  qed
qed

section \<open>The two directions agree\<close>

lemma mod_of_nat: "a < 2 ^ 64 \<Longrightarrow> b < 2 ^ 64 \<Longrightarrow> (of_nat a :: u64) mod of_nat b = of_nat (a mod b)"
  by (simp add: word_unat_eq_iff unat_mod_distrib unat_of_nat le_less_trans [OF mod_less_eq_dividend])

lemma div_of_nat: "a < 2 ^ 64 \<Longrightarrow> b < 2 ^ 64 \<Longrightarrow> (of_nat a :: u64) div of_nat b = of_nat (a div b)"
  by (simp add: word_unat_eq_iff unat_div_distrib unat_of_nat div_less_dividend le_less_trans [OF div_le_dividend])

lemma of_nat_eq_0: "a < 2 ^ 64 \<Longrightarrow> (of_nat a :: u64) = 0 \<longleftrightarrow> a = 0"
  by (simp add: word_unat_eq_iff unat_of_nat)

lemma of_nat_less: "a < 2 ^ 64 \<Longrightarrow> b < 2 ^ 64 \<Longrightarrow> (of_nat a :: u64) < of_nat b \<longleftrightarrow> a < b"
  by (simp add: word_less_nat_alt unat_of_nat)

text \<open>The slot and lane of an offset behind the superblock, over the naturals.\<close>

definition flat_pos :: "nat \<Rightarrow> nat \<Rightarrow> (nat \<times> nat) option" where
  "flat_pos s rel = (if rel mod s = 0 then Some (rel div s div 2, rel div s mod 2) else None)"

definition mixed_pos :: "LocationKind \<Rightarrow> nat \<Rightarrow> nat \<Rightarrow> nat \<Rightarrow> (nat \<times> nat) option" where
  "mixed_pos kind e p rel =
     (let i = rel div (2 * e + 2 * p); off = rel mod (2 * e + 2 * p) in
      case kind of
        Extent \<Rightarrow> if off < 2 * e \<and> off mod e = 0 then Some (i * 2, off div e) else None
      | PackedContainer \<Rightarrow>
          if 2 * e \<le> off \<and> (off - 2 * e) mod p = 0 then Some (i * 2 + 1, (off - 2 * e) div p) else None)"

definition pos_of :: "ChunkMediaLayoutSpec \<Rightarrow> LocationRecord \<Rightarrow> (nat \<times> nat) option" where
  "pos_of l r =
     (let rel = unat (physical_offset r) - 8192 in
      if unat (physical_offset r) < 8192 then None
      else case layout_kind l of
        ExtentOnly \<Rightarrow> if record_fits r Extent (extent_bytes l) then flat_pos (extent_size l) rel else None
      | PackedOnly \<Rightarrow> if record_fits r PackedContainer (packed_bytes l) then flat_pos (packed_size l) rel else None
      | Mixed \<Rightarrow>
          if record_fits r (location_kind r) (case location_kind r of Extent \<Rightarrow> extent_bytes l | PackedContainer \<Rightarrow> packed_bytes l)
          then mixed_pos (location_kind r) (extent_size l) (packed_size l) rel else None)"

lemma flat_address_nat:
  assumes "rel < 2 ^ 64" "s < 2 ^ 34" "0 < s"
  shows "flat_address r kind bytes (of_nat s) (of_nat rel) =
    (if record_fits r kind bytes then
       (case flat_pos s rel of
          None \<Rightarrow> Inl InvalidInput
        | Some (i, lane) \<Rightarrow> Inr \<lparr>slot_index = of_nat i, publication_lane = of_nat lane\<rparr>)
     else Inl InvalidInput)"
proof -
  have s: "s < 2 ^ 64" "rel mod s < 2 ^ 64" "rel div s < 2 ^ 64"
    using assms by (auto intro: le_less_trans [OF mod_less_eq_dividend] le_less_trans [OF div_le_dividend])
  have two: "(2 :: u64) = of_nat 2" by simp
  show ?thesis
    unfolding flat_address_def flat_pos_def media_consts Let_def two mod_of_nat [OF assms(1) s(1)]
      div_of_nat [OF assms(1) s(1)] of_nat_eq_0 [OF s(2)]
    using s(3) div_of_nat [of "rel div s" 2] mod_of_nat [of "rel div s" 2] by simp
qed

lemma mixed_pos_bound:
  assumes "mixed_pos kind e p rel = Some (i, lane)" "0 < e" "0 < p"
  shows "lane < 2"
proof -
  define off where "off = rel mod (2 * e + 2 * p)"
  have off: "off < 2 * e + 2 * p" using assms by (simp add: off_def)
  have "off div e < 2" if "off < 2 * e" using that by (intro less_mult_imp_div_less)
  moreover have "(off - 2 * e) div p < 2" if "2 * e \<le> off"
    using that off by (intro less_mult_imp_div_less) linarith
  ultimately show ?thesis
    using assms(1) by (auto simp: mixed_pos_def Let_def off_def [symmetric] split: LocationKind.splits if_splits)
qed

definition address_of :: "(nat \<times> nat) option \<Rightarrow> SlotAddress io_result" where
  "address_of m =
     (case m of
        None \<Rightarrow> Inl InvalidInput
      | Some (i, lane) \<Rightarrow> Inr \<lparr>slot_index = of_nat i, publication_lane = of_nat lane\<rparr>)"

lemma mixed_address_nat:
  assumes rel: "rel < 2 ^ 64" and e: "e < 2 ^ 34" "4096 \<le> e" and p: "p < 2 ^ 34" "4096 \<le> p"
  shows "mixed_address l r (of_nat e) (of_nat p) (of_nat rel) =
    (if record_fits r (location_kind r) (case location_kind r of Extent \<Rightarrow> extent_bytes l | PackedContainer \<Rightarrow> packed_bytes l)
     then address_of (mixed_pos (location_kind r) e p rel) else Inl InvalidInput)"
proof -
  define t where "t = 2 * e + 2 * p"
  define i off where "i = rel div t" and "off = rel mod t"
  have t: "t < 2 ^ 36" "16384 \<le> t" using e p by (simp_all add: t_def)
  have i: "i < 2 ^ 62"
    unfolding i_def using rel t(2) by (intro less_mult_imp_div_less) simp
  have off: "off < t" using t by (simp add: off_def)
  have m: "checked_mul (2 :: u64) (of_nat e) = Some (of_nat (2 * e))" "checked_mul (2 :: u64) (of_nat p) = Some (of_nat (2 * p))"
    "checked_add (of_nat (2 * e) :: u64) (of_nat (2 * p)) = Some (of_nat t)"
    using checked_mul_of_nat [of 2 e] checked_mul_of_nat [of 2 p] checked_add_of_nat [of "2 * e" "2 * p"] e p
    by (simp_all add: t_def del: of_nat_add of_nat_mult)
  have w: "(of_nat rel :: u64) div of_nat t = of_nat i" "(of_nat rel :: u64) mod of_nat t = of_nat off"
    using div_of_nat [of rel t] mod_of_nat [of rel t] rel t by (simp_all add: i_def off_def)
  have i2: "checked_mul (of_nat i :: u64) 2 = Some (of_nat (i * 2))" "checked_add (of_nat (i * 2) :: u64) 1 = Some (of_nat (i * 2 + 1))"
    using checked_mul_of_nat [of i 2] checked_add_of_nat [of "i * 2" 1] i by (simp_all del: of_nat_mult of_nat_add)
  have em: "((of_nat x :: u64) mod of_nat y = 0) = (x mod y = 0)" "(of_nat x :: u64) div of_nat y = of_nat (x div y)"
    if "x < 2 ^ 64" "y < 2 ^ 64" for x y
    using that mod_of_nat [of x y] div_of_nat [of x y] of_nat_eq_0 [of "x mod y"] le_less_trans [OF mod_less_eq_dividend, of x "2 ^ 64" y]
    by simp_all
  have lt: "((of_nat off :: u64) < of_nat (2 * e)) = (off < 2 * e)"
    using of_nat_less [of off "2 * e"] off t e by (simp del: of_nat_mult)
  then have le: "(of_nat (2 * e) \<le> (of_nat off :: u64)) = (2 * e \<le> off)" by (metis not_le)
  have sub: "(of_nat off :: u64) - of_nat (2 * e) = of_nat (off - 2 * e)" if "2 * e \<le> off"
    using that by (simp add: of_nat_diff)
  have bounds: "off < 2 ^ 64" "e < 2 ^ 64" "p < 2 ^ 64" "off - 2 * e < 2 ^ 64" using off t e p by simp_all
  show ?thesis
  proof (cases "location_kind r")
    case Extent
    then show ?thesis
      using m w i2 lt em [OF bounds(1,2)]
      by (auto simp: mixed_address_def mixed_pos_def address_of_def Let_def t_def [symmetric] i_def [symmetric] off_def [symmetric]
          simp del: of_nat_add of_nat_mult)
  next
    case PackedContainer
    then show ?thesis
      using m w i2 le
      by (cases "2 * e \<le> off")
        (simp_all add: mixed_address_def mixed_pos_def address_of_def Let_def t_def [symmetric] i_def [symmetric] off_def [symmetric]
          not_less sub em [OF bounds(4,3)] del: of_nat_add of_nat_mult of_nat_diff mod_eq_0_iff_dvd of_nat_Suc)
  qed
qed

lemma slot_address_nat:
  assumes v: "validate_layout l = Inr ()"
  shows "slot_address_for_record l r =
    bind_r (address_of (pos_of l r)) (\<lambda>a. if slot_index a \<ge> key_slots l then Inl InvalidInput else Inr a)"
proof -
  define e p where "e = extent_size l" and "p = packed_size l"
  have ep: "e < 2 ^ 34" "p < 2 ^ 34" "4096 \<le> e" "4096 \<le> p"
    using u32_less [of "extent_bytes l"] u32_less [of "packed_bytes l"] by (simp_all add: e_def p_def extent_size_def packed_size_def)
  have sb: "slot_bytes (ucast (extent_bytes l)) = Inr (of_nat e)" "slot_bytes (ucast (packed_bytes l)) = Inr (of_nat p)"
    using slot_bytes_ok [of "extent_bytes l"] slot_bytes_ok [of "packed_bytes l"] by (simp_all add: e_def p_def extent_size_def packed_size_def)
  define ph where "ph = unat (physical_offset r)"
  have ph: "ph < 2 ^ 64" "physical_offset r = of_nat ph" using unsigned_less [of "physical_offset r", where ?'a = nat] by (simp_all add: ph_def)
  show ?thesis
  proof (cases "ph < 8192")
    case True
    then show ?thesis using v by (simp add: slot_address_for_record_def pos_of_def address_of_def word_less_nat_alt ph_def)
  next
    case False
    then have c1: "checked_sub (physical_offset r) 4096 = Some (of_nat (ph - 4096))"
      and c2: "checked_sub (of_nat (ph - 4096) :: u64) 4096 = Some (of_nat (ph - 8192))"
      using ph by (simp_all add: checked_sub_Some unat_of_nat ph_def [symmetric] del: of_nat_diff)
    have n: "\<not> physical_offset r < 8192" using False by (simp add: word_less_nat_alt ph_def)
    have rel: "ph - 8192 < 2 ^ 64" using ph by simp
    have tail: "(case layout_kind l of
        ExtentOnly \<Rightarrow> flat_address r Extent (extent_bytes l) (of_nat e) (of_nat (ph - 8192))
      | PackedOnly \<Rightarrow> flat_address r PackedContainer (packed_bytes l) (of_nat p) (of_nat (ph - 8192))
      | Mixed \<Rightarrow> mixed_address l r (of_nat e) (of_nat p) (of_nat (ph - 8192))) = address_of (pos_of l r)"
      using False flat_address_nat [OF rel ep(1)] flat_address_nat [OF rel ep(2)] mixed_address_nat [OF rel ep(1,3) ep(2,4)] ep
      by (cases "layout_kind l")
        (simp_all add: pos_of_def address_of_def Let_def ph_def [symmetric] e_def [symmetric] p_def [symmetric] del: of_nat_diff)
    show ?thesis
      using v n c1 c2 sb tail by (simp add: slot_address_for_record_def del: of_nat_diff)
  qed
qed

lemma flat_pos_inverse:
  assumes "0 < s" "lane < 2"
  shows "flat_pos s (k * (2 * s) + lane * s) = Some (k, lane)"
proof -
  have "k * (2 * s) + lane * s = (2 * k + lane) * s" by (simp add: algebra_simps)
  then show ?thesis using assms by (simp add: flat_pos_def)
qed

lemma flat_pos_Some:
  assumes "flat_pos s rel = Some (k, lane)"
  shows "rel = k * (2 * s) + lane * s" "lane < 2"
proof -
  have d: "rel mod s = 0" "k = rel div s div 2" "lane = rel div s mod 2"
    using assms by (auto simp: flat_pos_def split: if_splits)
  then show "lane < 2" by simp
  have "rel = rel div s * s" using d(1) by auto
  also have "rel div s = 2 * k + lane" using d by simp
  finally show "rel = k * (2 * s) + lane * s" by (simp add: algebra_simps)
qed

lemma mixed_pos_inverse:
  assumes "0 < e" "0 < p" "lane < 2"
  shows "mixed_pos Extent e p (i * (2 * e + 2 * p) + lane * e) = Some (i * 2, lane)"
    and "mixed_pos PackedContainer e p (i * (2 * e + 2 * p) + 2 * e + lane * p) = Some (i * 2 + 1, lane)"
proof -
  define t where "t = 2 * e + 2 * p"
  have l: "lane = 0 \<or> lane = 1" using assms(3) by auto
  have r: "(i * t + x) div t = i" "(i * t + x) mod t = x" if "x < t" for x
    using that by auto
  have "lane * e < t" "2 * e + lane * p < t" using l assms by (auto simp: t_def)
  then show "mixed_pos Extent e p (i * (2 * e + 2 * p) + lane * e) = Some (i * 2, lane)"
    "mixed_pos PackedContainer e p (i * (2 * e + 2 * p) + 2 * e + lane * p) = Some (i * 2 + 1, lane)"
    using l assms r [of "lane * e"] r [of "2 * e + lane * p"]
    by (auto simp: mixed_pos_def t_def [symmetric] add.assoc)
qed

lemma mixed_pos_Some:
  assumes "mixed_pos kind e p rel = Some (k, lane)"
  shows "rel = k div 2 * (2 * e + 2 * p) + (if even k then lane * e else 2 * e + lane * p)" "even k = (kind = Extent)"
proof -
  define t i off where "t = 2 * e + 2 * p" and "i = rel div t" and "off = rel mod t"
  have rel: "rel = i * t + off" by (simp add: i_def off_def)
  have "(kind = Extent \<and> off mod e = 0 \<and> k = i * 2 \<and> lane = off div e)
      \<or> (kind = PackedContainer \<and> 2 * e \<le> off \<and> (off - 2 * e) mod p = 0 \<and> k = i * 2 + 1 \<and> lane = (off - 2 * e) div p)"
    using assms unfolding mixed_pos_def t_def [symmetric] i_def [symmetric] off_def [symmetric] Let_def
    by (auto split: LocationKind.splits if_splits)
  then have "(kind = Extent \<and> k = i * 2 \<and> off = lane * e) \<or> (kind = PackedContainer \<and> k = i * 2 + 1 \<and> off = 2 * e + lane * p)"
    by auto
  then show "rel = k div 2 * (2 * e + 2 * p) + (if even k then lane * e else 2 * e + lane * p)" "even k = (kind = Extent)"
    using rel by (auto simp: t_def)
qed

text \<open>\<open>pos_of\<close> inverts \<open>slot_start\<close>.\<close>

lemma pos_of_iff:
  "pos_of l r = Some (k, lane) \<longleftrightarrow>
     lane < 2 \<and> record_fits r (slot_kind l k) (slot_payload l k) \<and> unat (physical_offset r) = slot_start l k lane + 4096"
  (is "?L = ?R")
proof
  define e p where "e = extent_size l" and "p = packed_size l"
  have ep: "0 < e" "0 < p" by (simp_all add: e_def p_def extent_size_def packed_size_def)
  note fold = e_def [symmetric] p_def [symmetric]
  show "?L" if R: "?R"
  proof (cases "layout_kind l")
    case Mixed
    have "odd k \<Longrightarrow> Suc (k div 2 * 2) = k" by presburger
    then show ?thesis
      using R Mixed mixed_pos_inverse [OF ep, of lane "k div 2"]
      by (cases "even k") (auto simp: pos_of_def slot_start_def group_start_def slot_size_def slot_payload_def slot_kind_def
          record_fits_def extent_size_def packed_size_def e_def p_def add_ac)
  qed (use R flat_pos_inverse [OF ep(1)] flat_pos_inverse [OF ep(2)] in
      \<open>auto simp: pos_of_def slot_start_def group_start_def slot_size_def slot_payload_def slot_kind_def
         extent_size_def packed_size_def e_def p_def\<close>)
  show "?R" if L: "?L"
  proof (cases "layout_kind l")
    case Mixed
    then have m: "mixed_pos (location_kind r) e p (unat (physical_offset r) - 8192) = Some (k, lane)"
      and f: "record_fits r (location_kind r) (case location_kind r of Extent \<Rightarrow> extent_bytes l | PackedContainer \<Rightarrow> packed_bytes l)"
      and g: "8192 \<le> unat (physical_offset r)"
      using L by (auto simp: pos_of_def Let_def fold split: if_splits)
    have "(if even k then Extent else PackedContainer) = location_kind r"
      using mixed_pos_Some(2) [OF m] by (cases "location_kind r") auto
    then show ?thesis
      using mixed_pos_Some(1) [OF m] mixed_pos_bound [OF m ep] f g Mixed
      by (cases "even k") (auto simp: slot_start_def group_start_def slot_size_def slot_payload_def slot_kind_def
          extent_size_def packed_size_def e_def p_def)
  qed (use L flat_pos_Some [of "extent_size l" "unat (physical_offset r) - 8192" k lane]
         flat_pos_Some [of "packed_size l" "unat (physical_offset r) - 8192" k lane] in
       \<open>auto simp: pos_of_def Let_def slot_start_def group_start_def slot_size_def slot_payload_def slot_kind_def
         extent_size_def packed_size_def not_less split: if_splits\<close>)
qed

section \<open>Slots of a layout\<close>

text \<open>A layout whose last lane ends below \<open>2 ^ 64\<close>.\<close>

definition layout_fits :: "ChunkMediaLayoutSpec \<Rightarrow> bool" where
  "layout_fits l \<longleftrightarrow> validate_layout l = Inr () \<and> group_start l (unat (key_slots l)) < 2 ^ 64"

lemma slot_end:
  assumes "layout_fits l" "k < unat (key_slots l)" "lane < 2"
  shows "slot_start l k lane + slot_size l k \<le> group_start l (unat (key_slots l))"
  using slot_start_mono [of lane 0 k "unat (key_slots l)" l] assms by (simp add: slot_start_def)

lemma slot_start_bounds:
  assumes "layout_fits l" "k < unat (key_slots l)" "lane < 2"
  shows "slot_start l k lane + 4096 \<le> group_start l (unat (key_slots l))" "slot_start l k lane + 4096 < 2 ^ 64"
    "4096 \<le> slot_start l k lane"
  using slot_end [OF assms] assms(1) slot_size_pos [of l k] group_start_ge [of l k]
  by (auto simp: layout_fits_def slot_start_def)

lemma lane_of_nat: "(lane :: u64) < 2 \<longleftrightarrow> unat lane < 2" "(of_nat (unat lane) :: u64) = lane"
  by (simp_all add: word_less_nat_alt)

lemma slot_geometry_ok:
  assumes "layout_fits l" "k < key_slots l" "lane < 2"
  shows "slot_geometry l k lane =
    Inr (geometry_at (of_nat (slot_start l (unat k) (unat lane))) (slot_kind l (unat k)) (slot_payload l (unat k)))"
proof -
  have "unat lane < 2" using assms(3) by (simp add: lane_of_nat)
  from slot_geometry_nat [OF this, of l k] slot_start_bounds(2) [OF assms(1) _ this, of "unat k"] assms(2)
  show ?thesis by (simp add: lane_of_nat word_less_nat_alt)
qed

lemma geometry_at_fields:
  assumes "layout_fits l" "k < key_slots l" "lane < 2" "slot_geometry l k lane = Inr g"
  shows "unat (slot_base_offset g) = slot_start l (unat k) (unat lane)"
    "unat (payload_offset g) = slot_start l (unat k) (unat lane) + 4096"
    "geo_location_kind g = slot_kind l (unat k)" "geo_stored_length g = slot_payload l (unat k)"
    "geo_logical_length g = slot_payload l (unat k)" "payload_offset g = slot_base_offset g + 4096"
proof -
  let ?s = "slot_start l (unat k) (unat lane)"
  have g: "g = geometry_at (of_nat ?s) (slot_kind l (unat k)) (slot_payload l (unat k))"
    using slot_geometry_ok [OF assms(1-3)] assms(4) by simp
  have b: "?s + 4096 < 2 ^ 64"
    using slot_start_bounds(2) [OF assms(1)] assms(2,3) by (simp add: word_less_nat_alt)
  then have "unat (of_nat ?s + 4096 :: u64) = ?s + 4096"
    by (subst unat_add_no_wrap) (simp_all add: unat_of_nat)
  with b g show "unat (slot_base_offset g) = ?s" "unat (payload_offset g) = ?s + 4096"
    "geo_location_kind g = slot_kind l (unat k)" "geo_stored_length g = slot_payload l (unat k)"
    "geo_logical_length g = slot_payload l (unat k)" "payload_offset g = slot_base_offset g + 4096"
    by (simp_all add: geometry_at_def unat_of_nat)
qed

lemma slot_address_iff:
  assumes fits: "layout_fits l"
  shows "slot_address_for_record l r = Inr a \<longleftrightarrow>
    slot_index a < key_slots l \<and> publication_lane a < 2
    \<and> record_fits r (slot_kind l (unat (slot_index a))) (slot_payload l (unat (slot_index a)))
    \<and> unat (physical_offset r) = slot_start l (unat (slot_index a)) (unat (publication_lane a)) + 4096"
  (is "_ \<longleftrightarrow> ?R")
proof -
  have v: "validate_layout l = Inr ()" using fits by (simp add: layout_fits_def)
  have "slot_address_for_record l r = Inr a \<longleftrightarrow>
      (\<exists>k lane. pos_of l r = Some (k, lane) \<and> a = \<lparr>slot_index = of_nat k, publication_lane = of_nat lane\<rparr> \<and> slot_index a < key_slots l)"
    unfolding slot_address_nat [OF v] by (cases "pos_of l r") (auto simp: address_of_def not_le split: if_splits)
  also have "\<dots> \<longleftrightarrow> ?R"
  proof
    assume "\<exists>k lane. pos_of l r = Some (k, lane) \<and> a = \<lparr>slot_index = of_nat k, publication_lane = of_nat lane\<rparr> \<and> slot_index a < key_slots l"
    then obtain k lane where p: "pos_of l r = Some (k, lane)" "a = \<lparr>slot_index = of_nat k, publication_lane = of_nat lane\<rparr>" "slot_index a < key_slots l"
      by blast
    have q: "lane < 2" "unat (physical_offset r) = slot_start l k lane + 4096" using p(1) by (auto simp: pos_of_iff)
    have "k \<le> group_start l k" by (rule group_start_ge_index)
    then have "k < 2 ^ 64" using q(2) unsigned_less [of "physical_offset r", where ?'a = nat] by (simp add: slot_start_def)
    then have "unat (slot_index a) = k" "unat (publication_lane a) = lane" using p(2) q(1) by (simp_all add: unat_of_nat)
    with p q show ?R by (auto simp: pos_of_iff lane_of_nat)
  next
    assume R: ?R
    then have "pos_of l r = Some (unat (slot_index a), unat (publication_lane a))" by (simp add: pos_of_iff lane_of_nat)
    moreover have "a = \<lparr>slot_index = of_nat (unat (slot_index a)), publication_lane = of_nat (unat (publication_lane a))\<rparr>" by simp
    ultimately show "\<exists>k lane. pos_of l r = Some (k, lane) \<and> a = \<lparr>slot_index = of_nat k, publication_lane = of_nat lane\<rparr> \<and> slot_index a < key_slots l"
      using R by blast
  qed
  finally show ?thesis .
qed

lemma planned_span:
  assumes "layout_fits l"
  shows "planned_chunk_media_span_bytes l = Inr (of_nat (group_start l (unat (key_slots l))))"
proof (cases "key_slots l = 0")
  case True
  then show ?thesis
    by (simp add: planned_chunk_media_span_bytes_def validate_layout_def group_start_def split: ChunkMediaLayoutKind.split)
next
  case False
  define n where "n = unat (key_slots l) - 1"
  have ks: "unat (key_slots l) = Suc n" using False by (simp add: n_def unat_gt_0)
  have k: "key_slots l - 1 < key_slots l" "unat (key_slots l - 1) = n"
    using False ks by (simp_all add: n_def word_less_nat_alt unat_minus_one)
  obtain g where g: "slot_geometry l (key_slots l - 1) 1 = Inr g" using slot_geometry_ok [OF assms k(1), of 1] by auto
  note f = geometry_at_fields [OF assms k(1) _ g, unfolded k(2)]
  have e: "slot_start l n 1 + 4096 + unat (slot_payload l n) = group_start l (Suc n)"
    by (simp add: slot_start_def group_start_Suc slot_size_def)
  have u: "unat (ucast (slot_payload l n) :: u64) = unat (slot_payload l n)"
    using u32_less [of "slot_payload l n"] by (simp add: unsigned_ucast_eq take_bit_nat_eq_self)
  have "checked_add (payload_offset g) (ucast (geo_stored_length g)) = Some (of_nat (group_start l (Suc n)))"
    using f assms ks e u by (auto simp: checked_add_Some layout_fits_def unat_of_nat)
  then show ?thesis
    using False g assms ks by (simp add: planned_chunk_media_span_bytes_def layout_fits_def)
qed

section \<open>Properties of the geometry\<close>

definition sample_layout :: ChunkMediaLayoutSpec where
  "sample_layout = \<lparr>layout_kind = Mixed, extent_bytes = 8192, packed_bytes = 4096, key_slots = 4\<rparr>"

lemma sample_layout_fits: "layout_fits sample_layout"
  by (simp add: layout_fits_def sample_layout_def validate_layout_def group_start_def extent_size_def packed_size_def)

text \<open>
  C18. Placement and address are inverse to each other, in all three layouts. A location record maps to slot
  \<open>k\<close> and lane \<open>j\<close> exactly when \<open>k\<close> is a slot of the layout, \<open>j\<close> one of its two lanes, and
  \<open>slot_geometry\<close> puts the payload of that lane at the record's offset, with the record's kind and
  stored length and a non-zero logical length within it.
\<close>

theorem slot_address_geometry_inverse:
  assumes "layout_fits l"
  shows "slot_address_for_record l r = Inr \<lparr>slot_index = k, publication_lane = j\<rparr> \<longleftrightarrow>
    k < key_slots l \<and> j < CHUNK_MEDIA_PUBLICATION_LANES
    \<and> (\<exists>g. slot_geometry l k j = Inr g \<and> payload_offset g = physical_offset r
          \<and> record_fits r (geo_location_kind g) (geo_stored_length g))"
proof (cases "k < key_slots l \<and> j < 2")
  case True
  then obtain g where g: "slot_geometry l k j = Inr g" using slot_geometry_ok [OF assms] by blast
  from True have "k < key_slots l" "j < 2" by auto
  note f = geometry_at_fields [OF assms this g]
  show ?thesis
    using True g f(1-5) by (auto simp: slot_address_iff [OF assms] word_unat_eq_iff [of "payload_offset g" "physical_offset r"])
next
  case False
  then show ?thesis by (auto simp: slot_address_iff [OF assms])
qed

theorem slot_address_geometry_inverse_witness:
  "layout_fits sample_layout
   \<and> slot_address_for_record sample_layout (packed_record 7 81920 100 4096 3 0) = Inr \<lparr>slot_index = 3, publication_lane = 1\<rparr>"
proof -
  have "slot_geometry sample_layout 3 1 = Inr (geometry_at 77824 PackedContainer 4096)"
    using slot_geometry_ok [OF sample_layout_fits, of 3 1]
    by (simp add: sample_layout_def slot_start_def group_start_def slot_kind_def slot_payload_def slot_size_def extent_size_def packed_size_def)
  then show ?thesis
    using slot_address_geometry_inverse [OF sample_layout_fits, of "packed_record 7 81920 100 4096 3 0" 3 1] sample_layout_fits
    by (simp add: geometry_at_def sample_layout_def packed_record_def record_fits_def)
qed

text \<open>
  C20. Lanes never overlap. In a layout that ends below \<open>2 ^ 64\<close>, \<open>planned_chunk_media_span_bytes\<close> succeeds,
  every lane of every slot lies behind the superblock and inside the planned span, and the
  ranges (header block and payload area) of two different lanes are disjoint.
\<close>

theorem lanes_disjoint_in_span:
  assumes "layout_fits l" "k < key_slots l" "k' < key_slots l" "j < 2" "j' < 2"
    "slot_geometry l k j = Inr g" "slot_geometry l k' j' = Inr g'" "(k, j) \<noteq> (k', j')"
  shows "\<exists>span. planned_chunk_media_span_bytes l = Inr span
    \<and> 4096 \<le> unat (slot_base_offset g)
    \<and> unat (payload_offset g) + unat (geo_stored_length g) \<le> unat span
    \<and> (unat (payload_offset g) + unat (geo_stored_length g) \<le> unat (slot_base_offset g')
       \<or> unat (payload_offset g') + unat (geo_stored_length g') \<le> unat (slot_base_offset g))"
proof -
  note f = geometry_at_fields [OF assms(1,2,4,6)] and f' = geometry_at_fields [OF assms(1,3,5,7)]
  have j: "unat j < 2" "unat j' < 2" and k: "unat k < unat (key_slots l)"
    using assms by (simp_all add: word_less_nat_alt)
  have u: "unat (of_nat (group_start l (unat (key_slots l))) :: u64) = group_start l (unat (key_slots l))"
    using assms(1) by (simp add: layout_fits_def unat_of_nat)
  have "unat k < unat k' \<or> (unat k = unat k' \<and> unat j < unat j') \<or> unat k' < unat k \<or> (unat k' = unat k \<and> unat j' < unat j)"
    using assms(8) by (auto simp: word_unat_eq_iff)
  then have "slot_start l (unat k) (unat j) + slot_size l (unat k) \<le> slot_start l (unat k') (unat j')
      \<or> slot_start l (unat k') (unat j') + slot_size l (unat k') \<le> slot_start l (unat k) (unat j)"
    using slot_start_mono [OF j, of "unat k" "unat k'" l] slot_start_mono [OF j(2,1), of "unat k'" "unat k" l] by blast
  then show ?thesis
    using planned_span [OF assms(1)] slot_end [OF assms(1) k j(1)] slot_start_bounds(3) [OF assms(1) k j(1)] f f' u
    by (auto simp: slot_size_def)
qed

theorem lanes_disjoint_in_span_witness:
  "\<exists>g g' span. slot_geometry sample_layout 1 0 = Inr g \<and> slot_geometry sample_layout 1 1 = Inr g'
    \<and> planned_chunk_media_span_bytes sample_layout = Inr span
    \<and> unat (payload_offset g) + unat (geo_stored_length g) \<le> unat span"
proof -
  have k: "(1 :: u64) < key_slots sample_layout" by (simp add: sample_layout_def)
  obtain g g' where g: "slot_geometry sample_layout 1 0 = Inr g" "slot_geometry sample_layout 1 1 = Inr g'"
    using slot_geometry_ok [OF sample_layout_fits k] by fastforce
  from lanes_disjoint_in_span [OF sample_layout_fits k k _ _ g] g show ?thesis by auto
qed


end
