(* ===== verification/Block_Device.thy ===== *)
theory Block_Device
  imports Kein_Base
begin

text \<open>
  The backing store below KIX and the chunk media: a raw block device, or a regular file standing in
  for one. The kernel is not under \<open>src/\<close>; what the code relies on is modelled as follows.

  \<^item> \<open>dev_bytes\<close> is what a read sees, \<open>dev_durable\<close> what the last completed barrier made durable;
    \<open>dev_len\<close> is the size of the block device or of the file (\<open>dev_block\<close> tells which).
  \<^item> \<open>dev_sched\<close> is the environment: one outcome per request, consumed in order, and every request
    completes in full once it is used up. A request may complete in full, may stop after some whole
    sectors (direct I/O moves whole sectors), or may fail with an error of the kernel's choosing.
    Quantifying over it quantifies over every pattern of short transfers and errors; an error also
    stands for a crash at that point, because the code issues no further request after one.
  \<^item> A write beyond the end extends a regular file and fails on a block device.

  On top of it: the loops \<open>direct_read_exact\<close>/\<open>direct_write_exact\<close> of
  \<open>poc/kix/crates/kix/src/chunk_media.rs\<close> and the single-request transfers of \<open>DirectIoUring\<close> in
  \<open>arena.rs\<close>, with the width of their length fields.
\<close>

section \<open>The device\<close>

datatype io_outcome = IoFull | IoSectors nat | IoFault io_error

record device =
  dev_bytes :: "nat \<Rightarrow> u8"
  dev_durable :: "nat \<Rightarrow> u8"
  dev_len :: nat
  dev_block :: bool
  dev_sched :: "io_outcome list"

definition sector :: nat where
  "sector = 512"

definition load_bytes :: "(nat \<Rightarrow> u8) \<Rightarrow> nat \<Rightarrow> nat \<Rightarrow> u8 list" where
  "load_bytes f off n = map f [off..<off + n]"

definition store_bytes :: "(nat \<Rightarrow> u8) \<Rightarrow> nat \<Rightarrow> u8 list \<Rightarrow> nat \<Rightarrow> u8" where
  "store_bytes f off bs = (\<lambda>i. if off \<le> i \<and> i < off + length bs then bs ! (i - off) else f i)"

fun next_outcome :: "device \<Rightarrow> io_outcome \<times> device" where
  "next_outcome d = (case dev_sched d of [] \<Rightarrow> (IoFull, d) | x # xs \<Rightarrow> (x, d\<lparr>dev_sched := xs\<rparr>))"

text \<open>\<open>pread(2)\<close>: the bytes transferred, none at the end of the store.\<close>

definition pread :: "nat \<Rightarrow> nat \<Rightarrow> (device, io_error, u8 list) st" where
  "pread off n d =
     (let m = min n (dev_len d - off) in
      case next_outcome d of
        (IoFull, d') \<Rightarrow> (Inr (load_bytes (dev_bytes d) off m), d')
      | (IoSectors k, d') \<Rightarrow> (Inr (load_bytes (dev_bytes d) off (min (k * sector) m)), d')
      | (IoFault e, d') \<Rightarrow> (Inl e, d'))"

definition put_bytes :: "nat \<Rightarrow> u8 list \<Rightarrow> device \<Rightarrow> device" where
  "put_bytes off bs d =
     d\<lparr>dev_bytes := store_bytes (dev_bytes d) off bs,
       dev_len := (if bs = [] then dev_len d else max (dev_len d) (off + length bs))\<rparr>"

text \<open>\<open>pwrite(2)\<close>: the number of bytes transferred.\<close>

definition pwrite :: "nat \<Rightarrow> u8 list \<Rightarrow> (device, io_error, nat) st" where
  "pwrite off bs d =
     (let m = (if dev_block d then min (length bs) (dev_len d - off) else length bs) in
      case next_outcome d of
        (IoFull, d') \<Rightarrow>
          if m = 0 \<and> bs \<noteq> [] then (Inl OtherError, d') else (Inr m, put_bytes off (take m bs) d')
      | (IoSectors k, d') \<Rightarrow>
          (let r = min (k * sector) m in (Inr r, put_bytes off (take r bs) d'))
      | (IoFault e, d') \<Rightarrow> (Inl e, d'))"

text \<open>\<open>ftruncate(2)\<close>, as \<open>File::set_len\<close>: bytes that come into being read as zero.\<close>

definition set_len :: "nat \<Rightarrow> (device, io_error, unit) st" where
  "set_len n d =
     (case next_outcome d of
        (IoFault e, d') \<Rightarrow> (Inl e, d')
      | (_, d') \<Rightarrow>
          (Inr (), d'\<lparr>dev_bytes := (\<lambda>i. if i < min n (dev_len d) then dev_bytes d i else 0), dev_len := n\<rparr>))"

text \<open>The durability barrier: \<open>fdatasync(2)\<close>, or the fsync request of the ring.\<close>

definition fdatasync :: "(device, io_error, unit) st" where
  "fdatasync d =
     (case next_outcome d of
        (IoFault e, d') \<Rightarrow> (Inl e, d')
      | (_, d') \<Rightarrow> (Inr (), d'\<lparr>dev_durable := dev_bytes d\<rparr>))"

text \<open>
  A call that moves no data and either succeeds or fails: \<open>open\<close>, \<open>fstat\<close>, the size ioctl, and the
  setup of a ring.
\<close>

definition syscall :: "(device, io_error, unit) st" where
  "syscall d = (case next_outcome d of (IoFault e, d') \<Rightarrow> (Inl e, d') | (_, d') \<Rightarrow> (Inr (), d'))"

abbreviation quiet :: "device \<Rightarrow> bool" where
  "quiet d \<equiv> dev_sched d = []"

text \<open>Losing power and coming back: what the last barrier made durable is what is read.\<close>

definition power_cycle :: "device \<Rightarrow> device" where
  "power_cycle d = d\<lparr>dev_bytes := dev_durable d, dev_sched := []\<rparr>"

text \<open>
  A crash in the middle of an operation that took the device from \<open>f\<close> to \<open>f'\<close>: any mixture of old and
  new bytes may be on the medium.
\<close>

definition torn_between :: "(nat \<Rightarrow> u8) \<Rightarrow> (nat \<Rightarrow> u8) \<Rightarrow> (nat \<Rightarrow> u8) \<Rightarrow> bool" where
  "torn_between f f' g \<longleftrightarrow> (\<forall>i. g i = f i \<or> g i = f' i)"

section \<open>Transfers\<close>

subsection \<open>The read and write loops\<close>

function direct_read_exact :: "nat \<Rightarrow> nat \<Rightarrow> (device, io_error, u8 list) st" where
  "direct_read_exact off n d =
     (if n = 0 then (Inr [], d)
      else case pread off n d of
        (Inl e, d') \<Rightarrow> (Inl e, d')
      | (Inr bs, d') \<Rightarrow>
          if bs = [] then (Inl UnexpectedEof, d')
          else (case direct_read_exact (off + length bs) (n - length bs) d' of
                  (Inl e, d'') \<Rightarrow> (Inl e, d'')
                | (Inr rest, d'') \<Rightarrow> (Inr (bs @ rest), d'')))"
  by pat_completeness auto
termination
  by (relation "measure (\<lambda>(off, n, d). n)") auto

function direct_write_exact :: "nat \<Rightarrow> u8 list \<Rightarrow> (device, io_error, unit) st" where
  "direct_write_exact off bs d =
     (if bs = [] then (Inr (), d)
      else case pwrite off bs d of
        (Inl e, d') \<Rightarrow> (Inl e, d')
      | (Inr r, d') \<Rightarrow>
          if r = 0 then (Inl WriteZero, d')
          else direct_write_exact (off + r) (drop r bs) d')"
  by pat_completeness auto
termination
  by (relation "measure (\<lambda>(off, bs, d). length bs)") auto

declare direct_read_exact.simps [simp del] direct_write_exact.simps [simp del]

subsection \<open>Ring transfers\<close>

text \<open>
  One request each. The request carries the buffer's length as a \<open>u32\<close>, the kernel moves at most
  \<open>0x7ffff000\<close> bytes, and the completion is compared with the length as an \<open>i32\<close>.
\<close>

definition ring_count :: "nat \<Rightarrow> nat" where
  "ring_count n = min (unat (of_nat n :: u32)) 0x7ffff000"

definition ring_expected :: "nat \<Rightarrow> int" where
  "ring_expected n = sint (of_nat n :: u32)"

definition submit_read :: "nat \<Rightarrow> nat \<Rightarrow> (device, io_error, u8 list) st" where
  "submit_read off n d =
     (case pread off (ring_count n) d of
        (Inl e, d') \<Rightarrow> (Inl e, d')
      | (Inr bs, d') \<Rightarrow>
          if int (length bs) \<noteq> ring_expected n then (Inl UnexpectedEof, d')
          else (Inr (resize bs n), d'))"

definition submit_write :: "nat \<Rightarrow> u8 list \<Rightarrow> (device, io_error, unit) st" where
  "submit_write off bs d =
     (case pwrite off (take (ring_count (length bs)) bs) d of
        (Inl e, d') \<Rightarrow> (Inl e, d')
      | (Inr r, d') \<Rightarrow>
          if int r \<noteq> ring_expected (length bs) then (Inl UnexpectedEof, d') else (Inr (), d'))"

section \<open>What a read sees\<close>

lemma length_load_bytes [simp]: "length (load_bytes f off n) = n"
  by (simp add: load_bytes_def)

lemma nth_load_bytes [simp]: "i < n \<Longrightarrow> load_bytes f off n ! i = f (off + i)"
  by (simp add: load_bytes_def)

lemma load_bytes_0 [simp]: "load_bytes f off 0 = []"
  by (simp add: load_bytes_def)

lemma load_bytes_append:
  "load_bytes f off (m + n) = load_bytes f off m @ load_bytes f (off + m) n"
  by (rule nth_equalityI) (auto simp: nth_append add.assoc)

lemma take_load_bytes [simp]: "take m (load_bytes f off n) = load_bytes f off (min m n)"
  by (rule nth_equalityI) auto

lemma drop_load_bytes [simp]: "drop m (load_bytes f off n) = load_bytes f (off + m) (n - m)"
  by (rule nth_equalityI) (auto simp: add.assoc)

lemma load_bytes_cong:
  "(\<And>i. off \<le> i \<Longrightarrow> i < off + n \<Longrightarrow> f i = g i) \<Longrightarrow> load_bytes f off n = load_bytes g off n"
  by (rule nth_equalityI) auto

text \<open>
  The contract of a byte store, as its clients use it: a read sees the last write to the place it
  looks at, and a write elsewhere does not disturb it.
\<close>

locale byte_store =
  fixes rd :: "'s \<Rightarrow> nat \<Rightarrow> nat \<Rightarrow> u8 list"
    and wr :: "'s \<Rightarrow> nat \<Rightarrow> u8 list \<Rightarrow> 's"
  assumes rd_length: "length (rd s off n) = n"
    and rd_split: "rd s off (m + n) = rd s off m @ rd s (off + m) n"
    and rd_wr_same: "rd (wr s off bs) off (length bs) = bs"
    and rd_wr_other: "off' + n \<le> off \<or> off + length bs \<le> off' \<Longrightarrow> rd (wr s off bs) off' n = rd s off' n"
begin

lemma rd_sub: "rd s off n = bs \<Longrightarrow> a + m \<le> n \<Longrightarrow> rd s (off + a) m = take m (drop a bs)"
proof -
  assume bs: "rd s off n = bs" and le: "a + m \<le> n"
  then have "bs = rd s off a @ rd s (off + a) m @ rd s (off + a + m) (n - a - m)"
    using rd_split [of s off a "n - a"] rd_split [of s "off + a" m "n - a - m"] by simp
  then show ?thesis by (simp add: rd_length)
qed

lemma rd_wr_prefix: "n \<le> length bs \<Longrightarrow> rd (wr s off bs) off n = take n bs"
  using rd_sub [OF rd_wr_same, of 0 n bs s off] by simp

lemma rd_wr_inside:
  "a + m \<le> length bs \<Longrightarrow> rd (wr s off bs) (off + a) m = take m (drop a bs)"
  by (rule rd_sub [OF rd_wr_same])

lemma rd_wr_two:
  "off + length bs \<le> off' \<Longrightarrow> rd (wr (wr s off bs) off' cs) off (length bs + n) = bs @ rd (wr s off' cs) (off + length bs) n"
  if "off + length bs + n \<le> off'"
  using that rd_wr_same [of s off bs]
  by (simp add: rd_split rd_wr_other)

end

lemma load_store_same: "load_bytes (store_bytes f off bs) off (length bs) = bs"
  by (rule nth_equalityI) (auto simp: store_bytes_def)

lemma load_store_other:
  "off' + n \<le> off \<or> off + length bs \<le> off' \<Longrightarrow>
     load_bytes (store_bytes f off bs) off' n = load_bytes f off' n"
  by (rule nth_equalityI) (auto simp: store_bytes_def)

interpretation bytes: byte_store load_bytes store_bytes
  by unfold_locales (auto simp: load_bytes_append load_store_same load_store_other)

lemma store_bytes_Nil [simp]: "store_bytes f off [] = f"
  by (rule ext) (auto simp: store_bytes_def)

lemma store_bytes_append:
  "store_bytes (store_bytes f off as) (off + length as) bs = store_bytes f off (as @ bs)"
  by (rule ext) (auto simp: store_bytes_def nth_append)

lemma put_bytes_simps [simp]:
  "dev_bytes (put_bytes off bs d) = store_bytes (dev_bytes d) off bs"
  "dev_durable (put_bytes off bs d) = dev_durable d"
  "dev_block (put_bytes off bs d) = dev_block d"
  "dev_sched (put_bytes off bs d) = dev_sched d"
  by (simp_all add: put_bytes_def)

lemma dev_len_put_bytes [simp]: "off + length bs \<le> dev_len d \<Longrightarrow> dev_len (put_bytes off bs d) = dev_len d"
  by (simp add: put_bytes_def)

lemma dev_len_put_bytes_ge: "dev_len d \<le> dev_len (put_bytes off bs d)"
  by (simp add: put_bytes_def)

lemma put_bytes_Nil [simp]: "put_bytes off [] d = d"
  by (simp add: put_bytes_def)

lemma put_bytes_sched: "(put_bytes off bs d)\<lparr>dev_sched := s\<rparr> = put_bytes off bs (d\<lparr>dev_sched := s\<rparr>)"
  by (simp add: put_bytes_def)

lemma put_bytes_append:
  "put_bytes (off + length as) bs (put_bytes off as d) = put_bytes off (as @ bs) d"
  by (auto simp: put_bytes_def store_bytes_append)

section \<open>Transfers without interference\<close>

lemma next_outcome_quiet: "quiet d \<Longrightarrow> next_outcome d = (IoFull, d)"
  by simp

lemma direct_read_exact_quiet [io_simps]:
  assumes "quiet d" and "off + n \<le> dev_len d"
  shows "direct_read_exact off n d = (Inr (load_bytes (dev_bytes d) off n), d)"
proof (cases "n = 0")
  case True
  then show ?thesis by (simp add: direct_read_exact.simps [of off 0])
next
  case False
  with assms have "pread off n d = (Inr (load_bytes (dev_bytes d) off n), d)"
    by (simp add: pread_def min_absorb1 Let_def)
  with False show ?thesis
    by (simp add: direct_read_exact.simps [of off n] direct_read_exact.simps [of _ 0] load_bytes_def)
qed

lemma direct_read_exact_short [io_simps]:
  assumes "quiet d" and "dev_len d < off + n" and "0 < n"
  shows "direct_read_exact off n d = (Inl UnexpectedEof, d)"
proof -
  let ?m = "dev_len d - off"
  have n: "n \<noteq> 0" "?m < n" using assms by linarith+
  have p: "pread off n d = (Inr (load_bytes (dev_bytes d) off ?m), d)"
    using assms n by (simp add: pread_def Let_def min_absorb2)
  show ?thesis
  proof (cases "?m = 0")
    case True
    with p n show ?thesis by (simp add: direct_read_exact.simps [of off n])
  next
    case False
    then have "off + ?m = dev_len d" by simp
    then have "pread (off + ?m) (n - ?m) d = (Inr [], d)"
      using assms by (simp add: pread_def Let_def)
    then have "direct_read_exact (off + ?m) (n - ?m) d = (Inl UnexpectedEof, d)"
      using n by (simp add: direct_read_exact.simps [of "off + ?m"])
    moreover have "load_bytes (dev_bytes d) off ?m \<noteq> []"
      using False by (auto simp: load_bytes_def)
    ultimately show ?thesis
      using p n by (simp add: direct_read_exact.simps [of off n])
  qed
qed

lemma pwrite_quiet:
  assumes "quiet d" and "dev_block d \<Longrightarrow> off + length bs \<le> dev_len d" and "bs \<noteq> []"
  shows "pwrite off bs d = (Inr (length bs), put_bytes off bs d)"
proof -
  have "(if dev_block d then min (length bs) (dev_len d - off) else length bs) = length bs"
    using assms(2) by auto
  then show ?thesis using assms(1,3) by (simp add: pwrite_def Let_def)
qed

lemma direct_write_exact_quiet [io_simps]:
  assumes "quiet d" and "dev_block d \<Longrightarrow> off + length bs \<le> dev_len d"
  shows "direct_write_exact off bs d = (Inr (), put_bytes off bs d)"
proof (cases "bs = []")
  case True
  then show ?thesis by (simp add: direct_write_exact.simps [of off])
next
  case False
  with assms have "pwrite off bs d = (Inr (length bs), put_bytes off bs d)"
    by (rule pwrite_quiet)
  with False show ?thesis
    by (simp add: direct_write_exact.simps [of off bs] direct_write_exact.simps [of _ "[]"])
qed

lemma fdatasync_quiet [io_simps]:
  "quiet d \<Longrightarrow> fdatasync d = (Inr (), d\<lparr>dev_durable := dev_bytes d\<rparr>)"
  by (simp add: fdatasync_def)

lemma syscall_quiet [io_simps]: "quiet d \<Longrightarrow> syscall d = (Inr (), d)"
  by (simp add: syscall_def)

lemma set_len_quiet [io_simps]:
  "quiet d \<Longrightarrow> set_len n d =
     (Inr (), d\<lparr>dev_bytes := (\<lambda>i. if i < min n (dev_len d) then dev_bytes d i else 0), dev_len := n\<rparr>)"
  by (simp add: set_len_def)

lemma ring_count_small: "n < 0x7ffff000 \<Longrightarrow> ring_count n = n"
  by (simp add: ring_count_def unat_of_nat)

lemma ring_expected_small: "n < 0x7ffff000 \<Longrightarrow> ring_expected n = int n"
  by (simp add: ring_expected_def sint_uint unsigned_of_nat signed_take_bit_int_eq_self take_bit_nat_eq_self)

lemma submit_read_quiet [io_simps]:
  assumes "quiet d" and "off + n \<le> dev_len d" and "n < 0x7ffff000"
  shows "submit_read off n d = (Inr (load_bytes (dev_bytes d) off n), d)"
  using assms
  by (simp add: submit_read_def ring_count_small ring_expected_small pread_def Let_def min_absorb1
      resize_def)

lemma submit_read_short [io_simps]:
  assumes "quiet d" and "dev_len d < off + n" and "0 < n" and "n < 0x7ffff000"
  shows "submit_read off n d = (Inl UnexpectedEof, d)"
proof -
  have "min n (dev_len d - off) < n" using assms by linarith
  then show ?thesis using assms
    by (simp add: submit_read_def ring_count_small ring_expected_small pread_def Let_def)
qed

lemma submit_write_quiet [io_simps]:
  assumes "quiet d" and "dev_block d \<Longrightarrow> off + length bs \<le> dev_len d" and "length bs < 0x7ffff000"
  shows "submit_write off bs d = (Inr (), put_bytes off bs d)"
proof (cases "bs = []")
  case True
  with assms(1) show ?thesis
    by (simp add: submit_write_def ring_count_small ring_expected_small pwrite_def Let_def)
next
  case False
  with assms(1,2) have "pwrite off bs d = (Inr (length bs), put_bytes off bs d)"
    by (rule pwrite_quiet)
  with assms(3) show ?thesis
    by (simp add: submit_write_def ring_count_small ring_expected_small)
qed

section \<open>Transfers under any schedule\<close>

lemma next_outcome_sched: "next_outcome d = (out, d') \<Longrightarrow> \<exists>s. d' = d\<lparr>dev_sched := s\<rparr>"
  by (cases "dev_sched d") (auto intro: exI [of _ "[]"])

text \<open>A write leaves the store with some prefix of its bytes written, all of them if it succeeds.\<close>

lemma pwrite_cases:
  assumes "pwrite off bs d = (r, d')"
  obtains (full) k s where "r = Inr k" "k \<le> length bs" "d' = put_bytes off (take k bs) (d\<lparr>dev_sched := s\<rparr>)"
      "(dev_block d \<longrightarrow> off + length bs \<le> dev_len d) \<longrightarrow> k = length bs \<or> sector dvd k"
  | (failed) e s where "r = Inl e" "d' = d\<lparr>dev_sched := s\<rparr>"
proof -
  obtain out d1 where n: "next_outcome d = (out, d1)" by fastforce
  then obtain s where d1: "d1 = d\<lparr>dev_sched := s\<rparr>"
    by (blast dest: next_outcome_sched)
  define m where "m = (if dev_block d then min (length bs) (dev_len d - off) else length bs)"
  have m: "m \<le> length bs" "(dev_block d \<longrightarrow> off + length bs \<le> dev_len d) \<longrightarrow> m = length bs"
    by (auto simp: m_def)
  show thesis
  proof (cases out)
    case IoFull
    show thesis
    proof (cases "m = 0 \<and> bs \<noteq> []")
      case True
      with IoFull assms n d1 show thesis
        by (intro failed [of OtherError s]) (simp_all add: pwrite_def m_def [symmetric] del: next_outcome.simps)
    next
      case False
      then have "\<not> (m = 0 \<and> bs \<noteq> [])" .
      with IoFull assms n d1 m show thesis
        by (intro full [of m s]) (auto simp: pwrite_def m_def [symmetric] simp del: next_outcome.simps)
    qed
  next
    case (IoSectors k)
    have "min (k * sector) m = length bs \<or> sector dvd min (k * sector) m"
      if "dev_block d \<longrightarrow> off + length bs \<le> dev_len d"
      using that m by (auto simp: min_def)
    with IoSectors assms n d1 m show thesis
      by (intro full [of "min (k * sector) m" s])
        (auto simp: pwrite_def Let_def m_def [symmetric] simp del: next_outcome.simps)
  next
    case (IoFault e)
    with assms n d1 show thesis
      by (auto simp: pwrite_def Let_def simp del: next_outcome.simps intro: failed)
  qed
qed

lemma submit_write_cases:
  assumes "submit_write off bs d = (r, d')" and "length bs < 0x7ffff000"
  obtains (full) s where "r = Inr ()" "d' = put_bytes off bs (d\<lparr>dev_sched := s\<rparr>)"
  | (failed) e k s where "r = Inl e" "k \<le> length bs" "d' = put_bytes off (take k bs) (d\<lparr>dev_sched := s\<rparr>)"
      "(dev_block d \<longrightarrow> off + length bs \<le> dev_len d) \<longrightarrow> k = length bs \<or> sector dvd k"
proof -
  from assms(2) have c: "ring_count (length bs) = length bs" "ring_expected (length bs) = int (length bs)"
    by (simp_all add: ring_count_small ring_expected_small)
  obtain q d1 where p: "pwrite off bs d = (q, d1)" by fastforce
  then show thesis
  proof (cases rule: pwrite_cases)
    case (full k s)
    with assms p c show thesis
      by (auto simp: submit_write_def split: if_splits intro: that)
  next
    case (failed e s)
    with assms p c show thesis
      by (auto simp: submit_write_def intro: that(2) [of e 0 s])
  qed
qed

lemma fdatasync_cases:
  assumes "fdatasync d = (r, d')"
  obtains (full) s where "r = Inr ()" "d' = d\<lparr>dev_sched := s, dev_durable := dev_bytes d\<rparr>"
  | (failed) e s where "r = Inl e" "d' = d\<lparr>dev_sched := s\<rparr>"
proof -
  obtain out d1 where n: "next_outcome d = (out, d1)" by fastforce
  then obtain s where d1: "d1 = d\<lparr>dev_sched := s\<rparr>"
    by (blast dest: next_outcome_sched)
  with n assms show thesis
    by (cases out) (auto simp: fdatasync_def simp del: next_outcome.simps intro: that)
qed

lemma syscall_cases:
  assumes "syscall d = (r, d')"
  obtains s where "d' = d\<lparr>dev_sched := s\<rparr>"
proof -
  obtain out d1 where n: "next_outcome d = (out, d1)" by fastforce
  then obtain s where d1: "d1 = d\<lparr>dev_sched := s\<rparr>"
    by (blast dest: next_outcome_sched)
  with n assms show thesis
    by (cases out) (auto simp: syscall_def simp del: next_outcome.simps intro: that)
qed

text \<open>
  The loop adds up to the same as one write: whatever way the kernel splits the transfer, a write
  that reports success has stored every byte, and one that fails has stored a prefix.
\<close>

lemma direct_write_exact_cases:
  assumes "direct_write_exact off bs d = (r, d')"
  shows "(\<exists>s. r = Inr () \<and> d' = put_bytes off bs (d\<lparr>dev_sched := s\<rparr>)) \<or>
         (\<exists>e k s. r = Inl e \<and> k \<le> length bs \<and> d' = put_bytes off (take k bs) (d\<lparr>dev_sched := s\<rparr>))"
  using assms
proof (induction off bs d rule: direct_write_exact.induct)
  case (1 off bs d)
  show ?case
  proof (cases "bs = []")
    case True
    with "1.prems" show ?thesis
      by (auto simp: direct_write_exact.simps [of off "[]"] intro: exI [of _ "dev_sched d"])
  next
    case False
    obtain q d1 where p: "pwrite off bs d = (q, d1)" by fastforce
    then show ?thesis
    proof (cases rule: pwrite_cases)
      case (failed e s)
      with False p "1.prems" show ?thesis
        by (auto simp: direct_write_exact.simps [of off bs] intro!: exI [of _ "0::nat"])
    next
      case (full k s)
      show ?thesis
      proof (cases "k = 0")
        case True
        with full False p "1.prems" show ?thesis
          by (auto simp: direct_write_exact.simps [of off bs] intro!: exI [of _ "0::nat"])
      next
        case k: False
        have "direct_write_exact (off + k) (drop k bs) d1 = (r, d')"
          using full False k p "1.prems" by (simp add: direct_write_exact.simps [of off bs])
        with False p full k have
          "(\<exists>s. r = Inr () \<and> d' = put_bytes (off + k) (drop k bs) (d1\<lparr>dev_sched := s\<rparr>)) \<or>
           (\<exists>e j s. r = Inl e \<and> j \<le> length (drop k bs) \<and>
              d' = put_bytes (off + k) (take j (drop k bs)) (d1\<lparr>dev_sched := s\<rparr>))"
          by (intro "1.IH" [OF _ p [symmetric]]) auto
        moreover have "put_bytes (off + k) cs (d1\<lparr>dev_sched := t\<rparr>) =
            put_bytes off (take k bs @ cs) (d\<lparr>dev_sched := t\<rparr>)" for cs t
          using put_bytes_append [of off "take k bs" cs "d\<lparr>dev_sched := t\<rparr>"] full(2)
          by (simp add: full(3) put_bytes_sched)
        moreover have "take k bs @ take j (drop k bs) = take (k + j) bs" for j
          by (simp add: take_add)
        ultimately show ?thesis using full(2)
          by (auto intro!: exI [of _ "k + _"])
      qed
    qed
  qed
qed

end
