(* ===== verification/Kix_Media.thy ===== *)
theory Kix_Media
  imports Kix_Slots Block_Device
begin

text \<open>
  Chunk media (\<open>poc/kix/crates/kix/src/chunk_media.rs\<close>): the superblock and slot-header codecs, and the
  operations of \<open>ChunkMediaHandle\<close> and of the free functions: superblock bring-up, payload write into a
  publication lane, tombstone, validated read, and the scan that rebuilds an index from the media.

  The file is the device state; \<open>crc32_ieee\<close> is the parameter \<open>crc\<close>. The timing values that the source
  returns beside a payload or a record are not modelled.
\<close>

section \<open>Configuration and headers\<close>

record ChunkMediaSpanConfig =
  span_offset_bytes :: u64
  span_len_bytes :: "u64 option"

record ChunkMediaWriteConfig =
  cfg_drive_id :: u16
  cfg_span :: ChunkMediaSpanConfig
  cfg_layout :: ChunkMediaLayoutSpec

record ChunkMediaSuperblock =
  sb_version :: u16
  sb_layout :: ChunkMediaLayoutSpec
  sb_media_span_bytes :: u64

record ChunkMediaHandle =
  h_config :: ChunkMediaWriteConfig
  h_superblock :: ChunkMediaSuperblock

record ChunkSelfDescribingIdentity =
  id_stripe :: u16
  id_object_id :: u32
  id_object_version :: u16
  id_frag :: u16

definition default_identity :: ChunkSelfDescribingIdentity where
  "default_identity = \<lparr>id_stripe = 0, id_object_id = 0, id_object_version = 0, id_frag = 0\<rparr>"

datatype ChunkMediaEntryState = Live | Deleted

fun entry_state_as_u8 :: "ChunkMediaEntryState \<Rightarrow> u8" where
  "entry_state_as_u8 Live = 1"
| "entry_state_as_u8 Deleted = 2"

definition entry_state_from_u8 :: "u8 \<Rightarrow> ChunkMediaEntryState option" where
  "entry_state_from_u8 v = (if v = 1 then Some Live else if v = 2 then Some Deleted else None)"

fun layout_kind_as_u8 :: "ChunkMediaLayoutKind \<Rightarrow> u8" where
  "layout_kind_as_u8 ExtentOnly = 1"
| "layout_kind_as_u8 PackedOnly = 2"
| "layout_kind_as_u8 Mixed = 3"

definition layout_kind_from_u8 :: "u8 \<Rightarrow> ChunkMediaLayoutKind option" where
  "layout_kind_from_u8 v =
     (if v = 1 then Some ExtentOnly else if v = 2 then Some PackedOnly else if v = 3 then Some Mixed else None)"

record ChunkMediaSlotHeader =
  sh_state :: ChunkMediaEntryState
  sh_drive_id :: u16
  sh_chunk_id :: ChunkId
  sh_record :: LocationRecord
  sh_identity :: ChunkSelfDescribingIdentity

definition CHUNK_MEDIA_SUPERBLOCK_MAGIC :: "u8 list" where
  "CHUNK_MEDIA_SUPERBLOCK_MAGIC = [0x4B, 0x49, 0x58, 0x4D, 0x53, 0x42, 0x30, 0x31]"

definition CHUNK_MEDIA_SLOT_MAGIC :: "u8 list" where
  "CHUNK_MEDIA_SLOT_MAGIC = [0x4B, 0x49, 0x58, 0x4D, 0x53, 0x4C, 0x30, 0x31]"

definition CHUNK_MEDIA_VERSION :: u16 where
  "CHUNK_MEDIA_VERSION = 2"

section \<open>Codecs\<close>

definition superblock_fields :: "nat \<Rightarrow> ChunkMediaSuperblock \<Rightarrow> u8 list" where
  "superblock_fields n sb =
     (let b = zeros n;
          b = patch b 0 CHUNK_MEDIA_SUPERBLOCK_MAGIC;
          b = patch b 8 (le_bytes 2 (sb_version sb));
          b = patch b 10 [layout_kind_as_u8 (layout_kind (sb_layout sb))];
          b = patch b 12 (le_bytes 4 (extent_bytes (sb_layout sb)));
          b = patch b 16 (le_bytes 4 (packed_bytes (sb_layout sb)));
          b = patch b 20 (le_bytes 8 (key_slots (sb_layout sb)));
          b = patch b 28 (le_bytes 8 (sb_media_span_bytes sb));
          b = patch b 36 (le_bytes 4 (ucast CHUNK_MEDIA_SUPERBLOCK_BYTES :: u32));
          b = patch b 40 (le_bytes 4 (ucast CHUNK_MEDIA_SLOT_HEADER_BYTES :: u32))
      in b)"

definition encode_superblock :: "(u8 list \<Rightarrow> u32) \<Rightarrow> u8 list \<Rightarrow> ChunkMediaSuperblock \<Rightarrow> u8 list io_result" where
  "encode_superblock crc buffer sb =
     (if length buffer < unat CHUNK_MEDIA_SUPERBLOCK_BYTES then Inl InvalidInput
      else
        let b = superblock_fields (length buffer) sb in
        Inr (patch b 44 (le_bytes 4 (crc (take 44 b)))))"

definition decode_superblock :: "(u8 list \<Rightarrow> u32) \<Rightarrow> u8 list \<Rightarrow> ChunkMediaSuperblock option" where
  "decode_superblock crc buffer =
     (if length buffer < unat CHUNK_MEDIA_SUPERBLOCK_BYTES then None
      else if subslice buffer 0 8 \<noteq> CHUNK_MEDIA_SUPERBLOCK_MAGIC then None
      else if (le_word (subslice buffer 44 48) :: u32) \<noteq> crc (take 44 buffer) then None
      else if (le_word (subslice buffer 8 10) :: u16) \<noteq> CHUNK_MEDIA_VERSION then None
      else case layout_kind_from_u8 (buffer ! 10) of
        None \<Rightarrow> None
      | Some kind \<Rightarrow> Some
          \<lparr>sb_version = le_word (subslice buffer 8 10),
           sb_layout = \<lparr>layout_kind = kind, extent_bytes = le_word (subslice buffer 12 16),
             packed_bytes = le_word (subslice buffer 16 20), key_slots = le_word (subslice buffer 20 28)\<rparr>,
           sb_media_span_bytes = le_word (subslice buffer 28 36)\<rparr>)"

definition slot_header_fields :: "nat \<Rightarrow> ChunkMediaSlotHeader \<Rightarrow> u8 list" where
  "slot_header_fields n h =
     (let r = sh_record h; i = sh_identity h;
          b = zeros n;
          b = patch b 0 CHUNK_MEDIA_SLOT_MAGIC;
          b = patch b 8 (le_bytes 2 CHUNK_MEDIA_VERSION);
          b = patch b 10 [entry_state_as_u8 (sh_state h)];
          b = patch b 11 [location_kind_byte (location_kind r)];
          b = patch b 12 (le_bytes 2 (sh_drive_id h));
          b = patch b 16 (chunk_bytes (sh_chunk_id h));
          b = patch b 48 (le_bytes 8 (physical_offset r));
          b = patch b 56 (le_bytes 4 (logical_length r));
          b = patch b 60 (le_bytes 4 (stored_length r));
          b = patch b 64 (le_bytes 4 (generation r));
          b = patch b 68 (le_bytes 4 (checksum r));
          b = patch b 14 (le_bytes 2 (id_stripe i));
          b = patch b 72 (le_bytes 4 (id_object_id i));
          b = patch b 76 (le_bytes 2 (id_object_version i));
          b = patch b 78 (le_bytes 2 (id_frag i))
      in b)"

definition encode_slot_header :: "(u8 list \<Rightarrow> u32) \<Rightarrow> u8 list \<Rightarrow> ChunkMediaSlotHeader \<Rightarrow> u8 list io_result" where
  "encode_slot_header crc buffer h =
     (if length buffer < unat CHUNK_MEDIA_SLOT_HEADER_BYTES then Inl InvalidInput
      else
        let b = slot_header_fields (length buffer) h in
        Inr (patch b 80 (le_bytes 4 (crc (take 80 b)))))"

definition decode_slot_header :: "(u8 list \<Rightarrow> u32) \<Rightarrow> u8 list \<Rightarrow> ChunkMediaSlotHeader option" where
  "decode_slot_header crc buffer =
     (if length buffer < unat CHUNK_MEDIA_SLOT_HEADER_BYTES then None
      else if subslice buffer 0 8 \<noteq> CHUNK_MEDIA_SLOT_MAGIC then None
      else if (le_word (subslice buffer 8 10) :: u16) \<noteq> CHUNK_MEDIA_VERSION then None
      else if (le_word (subslice buffer 80 84) :: u32) \<noteq> crc (take 80 buffer) then None
      else case entry_state_from_u8 (buffer ! 10) of
        None \<Rightarrow> None
      | Some state \<Rightarrow>
          (case location_kind_from_byte (buffer ! 11) of
             None \<Rightarrow> None
           | Some kind \<Rightarrow> Some
               \<lparr>sh_state = state,
                sh_drive_id = le_word (subslice buffer 12 14),
                sh_chunk_id = ChunkId (subslice buffer 16 48),
                sh_record = \<lparr>drive_id = le_word (subslice buffer 12 14), location_kind = kind,
                  physical_offset = le_word (subslice buffer 48 56), logical_length = le_word (subslice buffer 56 60),
                  stored_length = le_word (subslice buffer 60 64), generation = le_word (subslice buffer 64 68),
                  checksum = le_word (subslice buffer 68 72)\<rparr>,
                sh_identity = \<lparr>id_stripe = le_word (subslice buffer 14 16), id_object_id = le_word (subslice buffer 72 76),
                  id_object_version = le_word (subslice buffer 76 78), id_frag = le_word (subslice buffer 78 80)\<rparr>\<rparr>))"

section \<open>Synthetic payloads\<close>

definition fill_chunk_media_payload_bytes :: "nat \<Rightarrow> ChunkId \<Rightarrow> LocationRecord \<Rightarrow> u8 list" where
  "fill_chunk_media_payload_bytes n c r =
     (let gen = le_bytes 4 (generation r); len = le_bytes 4 (logical_length r) in
      map (\<lambda>i. chunk_bytes c ! (i mod length (chunk_bytes c)) XOR gen ! (i mod length gen)
             XOR len ! (i mod length len) XOR (of_nat i * 17)) [0..<n])"

definition chunk_media_checksum :: "(u8 list \<Rightarrow> u32) \<Rightarrow> ChunkId \<Rightarrow> LocationRecord \<Rightarrow> u32" where
  "chunk_media_checksum crc c r =
     (let payload = fill_chunk_media_payload_bytes (unat (stored_length r)) c r in
      crc (take (min (unat (logical_length r)) (length payload)) payload))"

definition live_header :: "ChunkId \<Rightarrow> LocationRecord \<Rightarrow> ChunkSelfDescribingIdentity \<Rightarrow> ChunkMediaSlotHeader" where
  "live_header c r i =
     \<lparr>sh_state = Live, sh_drive_id = drive_id r, sh_chunk_id = c, sh_record = r, sh_identity = i\<rparr>"

definition tombstone_header :: "ChunkId \<Rightarrow> LocationRecord \<Rightarrow> ChunkMediaSlotHeader" where
  "tombstone_header c r =
     \<lparr>sh_state = Deleted, sh_drive_id = drive_id r, sh_chunk_id = c, sh_record = r, sh_identity = default_identity\<rparr>"

definition fill_chunk_media_slot_bytes :: "(u8 list \<Rightarrow> u32) \<Rightarrow> u8 list \<Rightarrow> ChunkId \<Rightarrow> LocationRecord \<Rightarrow> u8 list io_result" where
  "fill_chunk_media_slot_bytes crc buffer c r =
     (let total_len = unat CHUNK_MEDIA_SLOT_HEADER_BYTES + unat (stored_length r) in
      if length buffer < total_len then Inl InvalidInput
      else
        bind_r (encode_slot_header crc buffer (live_header c r default_identity)) (\<lambda>b.
        Inr (patch b (unat CHUNK_MEDIA_SLOT_HEADER_BYTES) (fill_chunk_media_payload_bytes (unat (stored_length r)) c r))))"

section \<open>Files and spans\<close>

definition media_zeroed :: "nat \<Rightarrow> u8 list io_result" where
  "media_zeroed len =
     (if len = 0 then Inl InvalidInput
      else if len > 2 ^ 63 - CHUNK_MEDIA_ALIGN_BYTES then Inl InvalidInput
      else Inr (zeros len))"

definition is_zero_block :: "u8 list \<Rightarrow> bool" where
  "is_zero_block buffer = list_all (\<lambda>b. b = 0) buffer"

definition media_open_file :: "(device, io_error, unit) st" where
  "media_open_file = syscall"

text \<open>The size ioctl, or the file's length where the ioctl does not apply.\<close>

definition media_capacity_bytes :: "(device, io_error, u64) st" where
  "media_capacity_bytes d =
     (case syscall d of
        (Inr _, d') \<Rightarrow> (Inr (of_nat (dev_len d')), d')
      | (Inl _, d') \<Rightarrow> st_bind syscall (\<lambda>_. \<lambda>d''. (Inr (of_nat (dev_len d'')), d'')) d')"

definition validate_offset_alignment :: "u64 \<Rightarrow> unit io_result" where
  "validate_offset_alignment v = (if v mod of_nat CHUNK_MEDIA_ALIGN_BYTES \<noteq> 0 then Inl InvalidInput else Inr ())"

definition resolve_effective_span_bytes :: "u64 \<Rightarrow> u64 option \<Rightarrow> (device, io_error, u64) st" where
  "resolve_effective_span_bytes offset_bytes len_bytes =
     st_bind (st_lift (validate_offset_alignment offset_bytes)) (\<lambda>_.
     st_bind media_open_file (\<lambda>_.
     st_bind media_capacity_bytes (\<lambda>total_bytes.
     if offset_bytes > total_bytes then st_err InvalidInput
     else
       let effective = (case len_bytes of Some n \<Rightarrow> n | None \<Rightarrow> total_bytes - offset_bytes) in
       if effective = 0 then st_err InvalidInput
       else
         st_bind (st_lift (validate_offset_alignment effective)) (\<lambda>_.
         st_bind (st_lift (ok_or InvalidInput (checked_add offset_bytes effective))) (\<lambda>end_bytes.
         if end_bytes > total_bytes then st_err InvalidInput else st_ret effective)))))"

definition absolute_chunk_media_offset :: "ChunkMediaSpanConfig \<Rightarrow> u64 \<Rightarrow> u64 io_result" where
  "absolute_chunk_media_offset span local_offset =
     ok_or InvalidInput (checked_add (span_offset_bytes span) local_offset)"

section \<open>Superblock\<close>

definition ensure_chunk_media_superblock :: "(u8 list \<Rightarrow> u32) \<Rightarrow> ChunkMediaWriteConfig \<Rightarrow> (device, io_error, ChunkMediaSuperblock) st" where
  "ensure_chunk_media_superblock crc config =
     st_bind (st_lift (validate_layout (cfg_layout config))) (\<lambda>_.
     st_bind (resolve_effective_span_bytes (span_offset_bytes (cfg_span config)) (span_len_bytes (cfg_span config))) (\<lambda>span_bytes.
     st_bind (st_lift (planned_chunk_media_span_bytes (cfg_layout config))) (\<lambda>required_span.
     if span_bytes < required_span then st_err InvalidInput
     else
       let superblock = \<lparr>sb_version = CHUNK_MEDIA_VERSION, sb_layout = cfg_layout config, sb_media_span_bytes = span_bytes\<rparr> in
       st_bind media_open_file (\<lambda>_.
       st_bind (st_lift (media_zeroed CHUNK_MEDIA_ALIGN_BYTES)) (\<lambda>_.
       st_bind (direct_read_exact (unat (span_offset_bytes (cfg_span config))) CHUNK_MEDIA_ALIGN_BYTES) (\<lambda>block.
       case decode_superblock crc block of
         Some existing \<Rightarrow> if existing \<noteq> superblock then st_err InvalidData else st_ret existing
       | None \<Rightarrow>
           st_bind (st_lift (encode_superblock crc block superblock)) (\<lambda>block'.
           st_bind (direct_write_exact (unat (span_offset_bytes (cfg_span config))) block') (\<lambda>_.
           st_bind fdatasync (\<lambda>_.
           st_ret superblock)))))))))"

definition read_chunk_media_superblock :: "(u8 list \<Rightarrow> u32) \<Rightarrow> ChunkMediaSpanConfig \<Rightarrow> (device, io_error, ChunkMediaSuperblock) st" where
  "read_chunk_media_superblock crc span =
     st_bind (resolve_effective_span_bytes (span_offset_bytes span) (span_len_bytes span)) (\<lambda>_.
     st_bind media_open_file (\<lambda>_.
     st_bind (st_lift (media_zeroed CHUNK_MEDIA_ALIGN_BYTES)) (\<lambda>_.
     st_bind (direct_read_exact (unat (span_offset_bytes span)) CHUNK_MEDIA_ALIGN_BYTES) (\<lambda>block.
     st_lift (ok_or InvalidData (decode_superblock crc block))))))"

definition media_handle_open :: "(u8 list \<Rightarrow> u32) \<Rightarrow> ChunkMediaWriteConfig \<Rightarrow> (device, io_error, ChunkMediaHandle) st" where
  "media_handle_open crc config =
     st_bind (ensure_chunk_media_superblock crc config) (\<lambda>superblock.
     st_bind media_open_file (\<lambda>_.
     st_ret \<lparr>h_config = config, h_superblock = superblock\<rparr>))"

section \<open>Writing\<close>

datatype PublicationLaneSelector = AgainstCurrent "LocationRecord option" | Explicit u64

datatype WriteDurability = Barrier | Deferred

definition write_len_for :: "nat \<Rightarrow> nat \<Rightarrow> nat" where
  "write_len_for payload_span slot_len =
     (let align = CHUNK_MEDIA_ALIGN_BYTES in
      min (min ((payload_span + align - 1) div align * align) (2 ^ 64 - 1)) slot_len)"

definition write_chunk_media_payload_with_file :: "(u8 list \<Rightarrow> u32) \<Rightarrow> ChunkMediaWriteConfig \<Rightarrow> ChunkMediaSuperblock \<Rightarrow> u64
    \<Rightarrow> PublicationLaneSelector \<Rightarrow> ChunkId \<Rightarrow> u32 \<Rightarrow> ChunkSelfDescribingIdentity \<Rightarrow> u8 list \<Rightarrow> WriteDurability
    \<Rightarrow> (device, io_error, LocationRecord) st" where
  "write_chunk_media_payload_with_file crc config sb slot lane c gen ident payload durability =
     (if slot \<ge> key_slots (sb_layout sb) then st_err InvalidInput
      else
        st_bind (st_lift (case lane of
            AgainstCurrent current \<Rightarrow>
              chunk_media_record_for_slot_against_current (sb_layout sb) (cfg_drive_id config) slot current gen
          | Explicit l \<Rightarrow> chunk_media_record_for_slot_to_lane (sb_layout sb) (cfg_drive_id config) slot l gen)) (\<lambda>record0.
        if payload = [] \<or> length payload > unat (stored_length record0) then st_err InvalidInput
        else
          let r = record0\<lparr>logical_length := of_nat (length payload), checksum := crc payload\<rparr> in
          st_bind (st_lift (slot_geometry_for_record (sb_layout sb) r)) (\<lambda>geometry.
          st_bind (st_lift (ok_or InvalidInput (checked_add CHUNK_MEDIA_SLOT_HEADER_BYTES (ucast (stored_length r))))) (\<lambda>slot_len.
          st_bind (st_lift (ok_or InvalidInput (checked_add CHUNK_MEDIA_SLOT_HEADER_BYTES (of_nat (length payload))))) (\<lambda>payload_span.
          st_bind (st_lift (media_zeroed (write_len_for (unat payload_span) (unat slot_len)))) (\<lambda>block.
          st_bind (st_lift (encode_slot_header crc block (live_header c r ident))) (\<lambda>block'.
          let block'' = patch block' (unat CHUNK_MEDIA_SLOT_HEADER_BYTES) payload in
          st_bind (st_lift (absolute_chunk_media_offset (cfg_span config) (slot_base_offset geometry))) (\<lambda>off.
          st_bind (direct_write_exact (unat off) block'') (\<lambda>_.
          st_bind (if durability = Barrier then fdatasync else st_ret ()) (\<lambda>_.
          st_ret r))))))))))"

definition write_chunk_media_tombstone_with_file :: "(u8 list \<Rightarrow> u32) \<Rightarrow> ChunkMediaWriteConfig \<Rightarrow> ChunkMediaSuperblock \<Rightarrow> ChunkId
    \<Rightarrow> LocationRecord \<Rightarrow> u32 \<Rightarrow> (device, io_error, unit) st" where
  "write_chunk_media_tombstone_with_file crc config sb c r gen =
     (let t = r\<lparr>generation := gen\<rparr> in
      st_bind (st_lift (slot_geometry_for_record (sb_layout sb) t)) (\<lambda>geometry.
      st_bind (st_lift (media_zeroed (unat CHUNK_MEDIA_SLOT_HEADER_BYTES))) (\<lambda>block.
      st_bind (st_lift (encode_slot_header crc block (tombstone_header c t))) (\<lambda>block'.
      st_bind (st_lift (absolute_chunk_media_offset (cfg_span config) (slot_base_offset geometry))) (\<lambda>off.
      st_bind (direct_write_exact (unat off) block') (\<lambda>_.
      fdatasync))))))"

definition write_chunk_media_record :: "(u8 list \<Rightarrow> u32) \<Rightarrow> ChunkMediaWriteConfig \<Rightarrow> ChunkId \<Rightarrow> LocationRecord \<Rightarrow> (device, io_error, unit) st" where
  "write_chunk_media_record crc config c r =
     st_bind (ensure_chunk_media_superblock crc config) (\<lambda>sb.
     st_bind (st_lift (slot_geometry_for_record (sb_layout sb) r)) (\<lambda>geometry.
     st_bind (st_lift (ok_or InvalidInput (checked_add CHUNK_MEDIA_SLOT_HEADER_BYTES (ucast (stored_length r))))) (\<lambda>slot_len.
     st_bind (st_lift (media_zeroed (unat slot_len))) (\<lambda>block.
     st_bind (st_lift (encode_slot_header crc block (live_header c r default_identity))) (\<lambda>block'.
     let block'' = patch block' (unat CHUNK_MEDIA_SLOT_HEADER_BYTES) (fill_chunk_media_payload_bytes (unat (stored_length r)) c r) in
     st_bind media_open_file (\<lambda>_.
     st_bind (st_lift (absolute_chunk_media_offset (cfg_span config) (slot_base_offset geometry))) (\<lambda>off.
     st_bind (direct_write_exact (unat off) block'') (\<lambda>_.
     fdatasync))))))))"

definition write_chunk_media_payload :: "(u8 list \<Rightarrow> u32) \<Rightarrow> ChunkMediaWriteConfig \<Rightarrow> u64 \<Rightarrow> ChunkId \<Rightarrow> u32 \<Rightarrow> u8 list
    \<Rightarrow> (device, io_error, LocationRecord) st" where
  "write_chunk_media_payload crc config slot c gen payload =
     st_bind (ensure_chunk_media_superblock crc config) (\<lambda>sb.
     st_bind media_open_file (\<lambda>_.
     write_chunk_media_payload_with_file crc config sb slot (AgainstCurrent None) c gen default_identity payload Barrier))"

definition write_chunk_media_tombstone :: "(u8 list \<Rightarrow> u32) \<Rightarrow> ChunkMediaWriteConfig \<Rightarrow> ChunkId \<Rightarrow> LocationRecord \<Rightarrow> u32
    \<Rightarrow> (device, io_error, unit) st" where
  "write_chunk_media_tombstone crc config c r gen =
     st_bind (ensure_chunk_media_superblock crc config) (\<lambda>sb.
     st_bind media_open_file (\<lambda>_.
     write_chunk_media_tombstone_with_file crc config sb c r gen))"

section \<open>Reading\<close>

definition read_validated_live_header :: "(u8 list \<Rightarrow> u32) \<Rightarrow> ChunkMediaSpanConfig \<Rightarrow> ChunkId \<Rightarrow> LocationRecord
    \<Rightarrow> (device, io_error, ChunkMediaSlotHeader) st" where
  "read_validated_live_header crc span c r =
     (if physical_offset r < CHUNK_MEDIA_SLOT_HEADER_BYTES then st_err InvalidInput
      else
        st_bind (st_lift (ok_or InvalidInput (checked_sub (physical_offset r) CHUNK_MEDIA_SLOT_HEADER_BYTES))) (\<lambda>base.
        st_bind (st_lift (absolute_chunk_media_offset span base)) (\<lambda>header_offset.
        st_bind (st_lift (media_zeroed (unat CHUNK_MEDIA_SLOT_HEADER_BYTES))) (\<lambda>_.
        st_bind (direct_read_exact (unat header_offset) (unat CHUNK_MEDIA_SLOT_HEADER_BYTES)) (\<lambda>header_block.
        if is_zero_block header_block then st_err NotFound
        else
          st_bind (st_lift (ok_or InvalidData (decode_slot_header crc header_block))) (\<lambda>header.
          if sh_state header \<noteq> Live then st_err NotFound
          else if sh_chunk_id header \<noteq> c then st_err InvalidData
          else if sh_record header \<noteq> r then st_err InvalidData
          else st_ret header))))))"

definition read_len_for :: "LocationRecord \<Rightarrow> nat" where
  "read_len_for r =
     (let logical_len = min (unat (logical_length r)) (unat (stored_length r));
          align = CHUNK_MEDIA_ALIGN_BYTES
      in max align (min ((logical_len + align - 1) div align * align) (max (unat (stored_length r)) align)))"

definition read_chunk_media_payload_with_file :: "(u8 list \<Rightarrow> u32) \<Rightarrow> ChunkMediaSpanConfig \<Rightarrow> ChunkId \<Rightarrow> LocationRecord
    \<Rightarrow> (device, io_error, u8 list) st" where
  "read_chunk_media_payload_with_file crc span c r =
     st_bind (read_validated_live_header crc span c r) (\<lambda>_.
     let logical_len = min (unat (logical_length r)) (unat (stored_length r)) in
     st_bind (st_lift (media_zeroed (read_len_for r))) (\<lambda>_.
     st_bind (st_lift (absolute_chunk_media_offset span (physical_offset r))) (\<lambda>off.
     st_bind (direct_read_exact (unat off) (read_len_for r)) (\<lambda>block.
     let payload = take logical_len block in
     if crc payload \<noteq> checksum r then st_err InvalidData else st_ret payload))))"

definition validate_chunk_media_live_record :: "(u8 list \<Rightarrow> u32) \<Rightarrow> ChunkMediaSpanConfig \<Rightarrow> ChunkId \<Rightarrow> LocationRecord
    \<Rightarrow> (device, io_error, unit) st" where
  "validate_chunk_media_live_record crc span c r =
     st_bind media_open_file (\<lambda>_. st_bind (read_validated_live_header crc span c r) (\<lambda>_. st_ret ()))"

definition read_chunk_media_payload :: "(u8 list \<Rightarrow> u32) \<Rightarrow> ChunkMediaSpanConfig \<Rightarrow> ChunkId \<Rightarrow> LocationRecord
    \<Rightarrow> (device, io_error, u8 list) st" where
  "read_chunk_media_payload crc span c r =
     st_bind media_open_file (\<lambda>_. read_chunk_media_payload_with_file crc span c r)"

section \<open>Rebuilding the index from the media\<close>

record ChunkMediaRebuildSummary =
  scanned_slots :: nat
  live_entries :: nat
  tombstones :: nat
  empty_slots :: nat
  corrupt_headers :: nat
  corrupt_payloads :: nat
  layout_mismatches :: nat

definition empty_summary :: ChunkMediaRebuildSummary where
  "empty_summary = \<lparr>scanned_slots = 0, live_entries = 0, tombstones = 0, empty_slots = 0, corrupt_headers = 0,
     corrupt_payloads = 0, layout_mismatches = 0\<rparr>"

type_synonym latest_headers = "(ChunkId \<times> ChunkMediaSlotHeader) list"

definition slot_header_matches_geometry :: "ChunkMediaSlotHeader \<Rightarrow> SlotGeometry \<Rightarrow> bool" where
  "slot_header_matches_geometry h g \<longleftrightarrow>
     location_kind (sh_record h) = geo_location_kind g
     \<and> physical_offset (sh_record h) = payload_offset g
     \<and> logical_length (sh_record h) > 0
     \<and> logical_length (sh_record h) \<le> geo_logical_length g
     \<and> stored_length (sh_record h) = geo_stored_length g"

definition update_latest_header :: "ChunkMediaSlotHeader \<Rightarrow> latest_headers \<Rightarrow> latest_headers" where
  "update_latest_header candidate latest =
     (case map_of latest (sh_chunk_id candidate) of
        Some existing \<Rightarrow>
          if generation (sh_record existing) > generation (sh_record candidate)
             \<or> (generation (sh_record existing) = generation (sh_record candidate)
                 \<and> sh_state existing = Deleted \<and> sh_state candidate = Live)
          then latest
          else AList.update (sh_chunk_id candidate) candidate latest
      | None \<Rightarrow> AList.update (sh_chunk_id candidate) candidate latest)"

text \<open>One turn of the scan: lane \<open>lane\<close> of slot \<open>k\<close>.\<close>

definition rebuild_lane :: "(u8 list \<Rightarrow> u32) \<Rightarrow> ChunkMediaSpanConfig \<Rightarrow> ChunkMediaLayoutSpec \<Rightarrow> nat \<times> nat
    \<Rightarrow> latest_headers \<times> ChunkMediaRebuildSummary \<Rightarrow> (device, io_error, latest_headers \<times> ChunkMediaRebuildSummary) st" where
  "rebuild_lane crc span l = (\<lambda>(k, lane) (latest, summary0).
     let summary = summary0\<lparr>scanned_slots := Suc (scanned_slots summary0)\<rparr> in
     st_bind (st_lift (slot_geometry l (of_nat k) (of_nat lane))) (\<lambda>geometry.
     st_bind (st_lift (absolute_chunk_media_offset span (slot_base_offset geometry))) (\<lambda>header_offset.
     st_bind (direct_read_exact (unat header_offset) (unat CHUNK_MEDIA_SLOT_HEADER_BYTES)) (\<lambda>header_block.
     if is_zero_block header_block then st_ret (latest, summary\<lparr>empty_slots := Suc (empty_slots summary)\<rparr>)
     else case decode_slot_header crc header_block of
       None \<Rightarrow> st_ret (latest, summary\<lparr>corrupt_headers := Suc (corrupt_headers summary)\<rparr>)
     | Some header \<Rightarrow>
         if \<not> slot_header_matches_geometry header geometry
         then st_ret (latest, summary\<lparr>layout_mismatches := Suc (layout_mismatches summary)\<rparr>)
         else case sh_state header of
           Deleted \<Rightarrow>
             st_ret (update_latest_header header latest, summary\<lparr>tombstones := Suc (tombstones summary)\<rparr>)
         | Live \<Rightarrow>
             st_bind (st_lift (media_zeroed (unat (stored_length (sh_record header))))) (\<lambda>_.
             st_bind (st_lift (absolute_chunk_media_offset span (physical_offset (sh_record header)))) (\<lambda>off.
             st_bind (direct_read_exact (unat off) (unat (stored_length (sh_record header)))) (\<lambda>payload.
             let logical_len = min (unat (logical_length (sh_record header))) (length payload) in
             if crc (take logical_len payload) \<noteq> checksum (sh_record header)
             then st_ret (latest, summary\<lparr>corrupt_payloads := Suc (corrupt_payloads summary)\<rparr>)
             else st_ret (update_latest_header header latest,
                    summary\<lparr>live_entries := Suc (live_entries summary)\<rparr>))))))))"

fun rebuild_scan :: "(u8 list \<Rightarrow> u32) \<Rightarrow> ChunkMediaSpanConfig \<Rightarrow> ChunkMediaLayoutSpec \<Rightarrow> (nat \<times> nat) list
    \<Rightarrow> latest_headers \<times> ChunkMediaRebuildSummary \<Rightarrow> (device, io_error, latest_headers \<times> ChunkMediaRebuildSummary) st" where
  "rebuild_scan crc span l [] acc = st_ret acc"
| "rebuild_scan crc span l (p # ps) acc =
     st_bind (rebuild_lane crc span l p acc) (\<lambda>acc'. rebuild_scan crc span l ps acc')"

definition scan_order :: "nat \<Rightarrow> (nat \<times> nat) list" where
  "scan_order n = concat (map (\<lambda>k. map (\<lambda>lane. (k, lane)) [0..<unat CHUNK_MEDIA_PUBLICATION_LANES]) [0..<n])"

record ChunkMediaRebuildResult =
  rb_superblock :: ChunkMediaSuperblock
  rb_entries :: "(ChunkId \<times> LocationRecord) list"
  rb_identities :: "(ChunkId \<times> ChunkSelfDescribingIdentity) list"
  rb_summary :: ChunkMediaRebuildSummary

definition live_headers :: "latest_headers \<Rightarrow> latest_headers" where
  "live_headers latest = filter (\<lambda>(c, h). sh_state h = Live) latest"

definition rebuild_from_chunk_media :: "(u8 list \<Rightarrow> u32) \<Rightarrow> ChunkMediaSpanConfig \<Rightarrow> (device, io_error, ChunkMediaRebuildResult) st" where
  "rebuild_from_chunk_media crc span =
     st_bind (read_chunk_media_superblock crc span) (\<lambda>sb.
     st_bind media_open_file (\<lambda>_.
     st_bind (st_lift (media_zeroed (unat CHUNK_MEDIA_SLOT_HEADER_BYTES))) (\<lambda>_.
     st_bind (rebuild_scan crc span (sb_layout sb) (scan_order (unat (key_slots (sb_layout sb)))) ([], empty_summary)) (\<lambda>(latest, summary).
     st_ret
       \<lparr>rb_superblock = sb,
        rb_entries = fold (\<lambda>(c, h). AList.update c (sh_record h)) (live_headers latest) [],
        rb_identities = fold (\<lambda>(c, h). AList.update c (sh_identity h)) (live_headers latest) [],
        rb_summary = summary\<rparr>))))"

section \<open>Handle methods\<close>

definition handle_layout :: "ChunkMediaHandle \<Rightarrow> ChunkMediaLayoutSpec" where
  "handle_layout h = sb_layout (h_superblock h)"

definition handle_validate_live_record :: "(u8 list \<Rightarrow> u32) \<Rightarrow> ChunkMediaHandle \<Rightarrow> ChunkId \<Rightarrow> LocationRecord \<Rightarrow> (device, io_error, unit) st" where
  "handle_validate_live_record crc h c r =
     st_bind (read_validated_live_header crc (cfg_span (h_config h)) c r) (\<lambda>_. st_ret ())"

definition handle_read_payload :: "(u8 list \<Rightarrow> u32) \<Rightarrow> ChunkMediaHandle \<Rightarrow> ChunkId \<Rightarrow> LocationRecord \<Rightarrow> (device, io_error, u8 list) st" where
  "handle_read_payload crc h c r = read_chunk_media_payload_with_file crc (cfg_span (h_config h)) c r"

definition handle_read_identity :: "(u8 list \<Rightarrow> u32) \<Rightarrow> ChunkMediaHandle \<Rightarrow> ChunkId \<Rightarrow> LocationRecord
    \<Rightarrow> (device, io_error, ChunkSelfDescribingIdentity) st" where
  "handle_read_identity crc h c r =
     st_bind (read_validated_live_header crc (cfg_span (h_config h)) c r) (\<lambda>header. st_ret (sh_identity header))"

definition handle_write_payload :: "(u8 list \<Rightarrow> u32) \<Rightarrow> ChunkMediaHandle \<Rightarrow> u64 \<Rightarrow> ChunkId \<Rightarrow> u32 \<Rightarrow> u8 list
    \<Rightarrow> (device, io_error, LocationRecord) st" where
  "handle_write_payload crc h slot c gen payload =
     write_chunk_media_payload_with_file crc (h_config h) (h_superblock h) slot (AgainstCurrent None) c gen default_identity payload Barrier"

definition write_payload_against_current :: "(u8 list \<Rightarrow> u32) \<Rightarrow> ChunkMediaHandle \<Rightarrow> u64 \<Rightarrow> LocationRecord option \<Rightarrow> ChunkId \<Rightarrow> u32
    \<Rightarrow> u8 list \<Rightarrow> (device, io_error, LocationRecord) st" where
  "write_payload_against_current crc h slot current c gen payload =
     write_chunk_media_payload_with_file crc (h_config h) (h_superblock h) slot (AgainstCurrent current) c gen default_identity payload Barrier"

definition write_payload_to_lane_unsynced :: "(u8 list \<Rightarrow> u32) \<Rightarrow> ChunkMediaHandle \<Rightarrow> u64 \<Rightarrow> u64 \<Rightarrow> ChunkId \<Rightarrow> u32
    \<Rightarrow> ChunkSelfDescribingIdentity \<Rightarrow> u8 list \<Rightarrow> (device, io_error, LocationRecord) st" where
  "write_payload_to_lane_unsynced crc h slot lane c gen ident payload =
     write_chunk_media_payload_with_file crc (h_config h) (h_superblock h) slot (Explicit lane) c gen ident payload Deferred"

definition handle_fdatasync :: "(device, io_error, unit) st" where
  "handle_fdatasync = fdatasync"

definition next_publication_lane_for_slot :: "ChunkMediaHandle \<Rightarrow> u64 \<Rightarrow> LocationRecord option \<Rightarrow> u64 io_result" where
  "next_publication_lane_for_slot h slot current = next_publication_lane (handle_layout h) slot current"

definition handle_write_tombstone :: "(u8 list \<Rightarrow> u32) \<Rightarrow> ChunkMediaHandle \<Rightarrow> ChunkId \<Rightarrow> LocationRecord \<Rightarrow> u32 \<Rightarrow> (device, io_error, unit) st" where
  "handle_write_tombstone crc h c r gen =
     write_chunk_media_tombstone_with_file crc (h_config h) (h_superblock h) c r gen"

end
