(* ===== verification/Kix_Media_Spec.thy ===== *)
theory Kix_Media_Spec
  imports Kix_Media
begin

text \<open>
  What chunk media promises: codec round trips; the view of a lane (its valid header, if any) as a
  function of the bytes of that lane alone; what a write, an interrupted write, a tombstone, a read
  and the rebuild scan do to or read from the views.
\<close>

section \<open>Codecs\<close>

lemma patch_append: "a + length src \<le> length xs \<Longrightarrow> patch (xs @ ys) a src = patch xs a src @ ys"
  by (simp add: patch_inside)

lemma zeros_split: "m \<le> n \<Longrightarrow> zeros n = zeros m @ zeros (n - m)"
  by (simp add: zeros_def replicate_add [symmetric])

lemma entry_state_round [simp]: "entry_state_from_u8 (entry_state_as_u8 s) = Some s"
  by (cases s) (simp_all add: entry_state_from_u8_def)

lemma layout_kind_round [simp]: "layout_kind_from_u8 (layout_kind_as_u8 k) = Some k"
  by (cases k) (simp_all add: layout_kind_from_u8_def)

lemma length_magic [simp]: "length CHUNK_MEDIA_SLOT_MAGIC = 8" "length CHUNK_MEDIA_SUPERBLOCK_MAGIC = 8"
  by (simp_all add: CHUNK_MEDIA_SLOT_MAGIC_def CHUNK_MEDIA_SUPERBLOCK_MAGIC_def)

definition header_ok :: "ChunkMediaSlotHeader \<Rightarrow> bool" where
  "header_ok h \<longleftrightarrow> chunk_id_ok (sh_chunk_id h) \<and> sh_drive_id h = drive_id (sh_record h)"

definition slot_block :: "(u8 list \<Rightarrow> u32) \<Rightarrow> nat \<Rightarrow> ChunkMediaSlotHeader \<Rightarrow> u8 list" where
  "slot_block crc n h = (let b = slot_header_fields n h in patch b 80 (le_bytes 4 (crc (take 80 b))))"

lemma encode_slot_header_block:
  "4096 \<le> length buffer \<Longrightarrow> encode_slot_header crc buffer h = Inr (slot_block crc (length buffer) h)"
  by (simp add: encode_slot_header_def slot_block_def Let_def)

lemma length_slot_header_fields [simp]:
  "chunk_id_ok (sh_chunk_id h) \<Longrightarrow> 4096 \<le> n \<Longrightarrow> length (slot_header_fields n h) = n"
  by (simp add: slot_header_fields_def Let_def chunk_id_ok_def)

lemma length_slot_block [simp]: "chunk_id_ok (sh_chunk_id h) \<Longrightarrow> 4096 \<le> n \<Longrightarrow> length (slot_block crc n h) = n"
  by (simp add: slot_block_def Let_def)

lemma slot_header_fields_split:
  assumes "chunk_id_ok (sh_chunk_id h)" "4096 \<le> n"
  shows "slot_header_fields n h = slot_header_fields 4096 h @ zeros (n - 4096)"
  using assms zeros_split [OF assms(2)]
  by (simp add: slot_header_fields_def Let_def patch_append chunk_id_ok_def)

lemma slot_block_split:
  assumes "chunk_id_ok (sh_chunk_id h)" "4096 \<le> n"
  shows "slot_block crc n h = slot_block crc 4096 h @ zeros (n - 4096)"
  using assms by (simp add: slot_block_def Let_def slot_header_fields_split [OF assms] patch_append)

lemma slot_fields_get:
  assumes "chunk_id_ok (sh_chunk_id h)"
  shows "subslice (slot_header_fields 4096 h) 0 8 = CHUNK_MEDIA_SLOT_MAGIC"
    "subslice (slot_header_fields 4096 h) 8 10 = le_bytes 2 CHUNK_MEDIA_VERSION"
    "slot_header_fields 4096 h ! 10 = entry_state_as_u8 (sh_state h)"
    "slot_header_fields 4096 h ! 11 = location_kind_byte (location_kind (sh_record h))"
    "subslice (slot_header_fields 4096 h) 12 14 = le_bytes 2 (sh_drive_id h)"
    "subslice (slot_header_fields 4096 h) 16 48 = chunk_bytes (sh_chunk_id h)"
    "subslice (slot_header_fields 4096 h) 48 56 = le_bytes 8 (physical_offset (sh_record h))"
    "subslice (slot_header_fields 4096 h) 56 60 = le_bytes 4 (logical_length (sh_record h))"
    "subslice (slot_header_fields 4096 h) 60 64 = le_bytes 4 (stored_length (sh_record h))"
    "subslice (slot_header_fields 4096 h) 64 68 = le_bytes 4 (generation (sh_record h))"
    "subslice (slot_header_fields 4096 h) 68 72 = le_bytes 4 (checksum (sh_record h))"
    "subslice (slot_header_fields 4096 h) 14 16 = le_bytes 2 (id_stripe (sh_identity h))"
    "subslice (slot_header_fields 4096 h) 72 76 = le_bytes 4 (id_object_id (sh_identity h))"
    "subslice (slot_header_fields 4096 h) 76 78 = le_bytes 2 (id_object_version (sh_identity h))"
    "subslice (slot_header_fields 4096 h) 78 80 = le_bytes 2 (id_frag (sh_identity h))"
  using assms by (simp_all add: slot_header_fields_def Let_def codec_simps nth_patch chunk_id_ok_def)

lemma slot_block_get:
  assumes "chunk_id_ok (sh_chunk_id h)"
  shows "b \<le> 80 \<Longrightarrow> a \<le> b \<Longrightarrow> subslice (slot_block crc 4096 h) a b = subslice (slot_header_fields 4096 h) a b"
    "i < 80 \<Longrightarrow> slot_block crc 4096 h ! i = slot_header_fields 4096 h ! i"
    "subslice (slot_block crc 4096 h) 80 84 = le_bytes 4 (crc (take 80 (slot_header_fields 4096 h)))"
    "take 80 (slot_block crc 4096 h) = take 80 (slot_header_fields 4096 h)"
  using assms by (simp_all add: slot_block_def Let_def codec_simps nth_patch) (simp add: patch_inside)

lemma decode_slot_block:
  assumes "header_ok h"
  shows "decode_slot_header crc (slot_block crc 4096 h) = Some h"
proof -
  have c: "chunk_id_ok (sh_chunk_id h)" "sh_drive_id h = drive_id (sh_record h)" using assms by (simp_all add: header_ok_def)
  have "ChunkId (chunk_bytes (sh_chunk_id h)) = sh_chunk_id h" by simp
  then show ?thesis
    using c by (simp add: decode_slot_header_def slot_block_get [OF c(1)] slot_fields_get [OF c(1)])
qed

interpretation slot_hdr: fixed_codec "slot_block crc 4096" "decode_slot_header crc" 4096 header_ok for crc
  by unfold_locales (simp_all add: header_ok_def decode_slot_block)

text \<open>A slot header is decided by the first 84 bytes of its block.\<close>

lemma decode_slot_header_take:
  assumes "take 84 bs = take 84 cs" "4096 \<le> length bs" "4096 \<le> length cs"
  shows "decode_slot_header crc bs = decode_slot_header crc cs"
proof -
  have s: "subslice bs a b = subslice cs a b" if "b \<le> 84" for a b
    using arg_cong [OF assms(1), of "\<lambda>x. subslice x a b"] that by (simp add: subslice_take)
  have n: "bs ! i = cs ! i" if "i < 84" for i
    using arg_cong [OF assms(1), of "\<lambda>x. x ! i"] that by simp
  have t: "take 80 bs = take 80 cs" using arg_cong [OF assms(1), of "take 80"] by simp
  show ?thesis using assms(2,3) by (simp add: decode_slot_header_def s n t cong: option.case_cong)
qed

lemma slot_block_nonzero: "chunk_id_ok (sh_chunk_id h) \<Longrightarrow> \<not> is_zero_block (slot_block crc 4096 h)"
proof
  assume c: "chunk_id_ok (sh_chunk_id h)" and z: "is_zero_block (slot_block crc 4096 h)"
  have "slot_block crc 4096 h ! 0 \<in> set (slot_block crc 4096 h)" by (rule nth_mem) (simp add: c)
  then have "slot_block crc 4096 h ! 0 = 0" using z unfolding is_zero_block_def list_all_iff by blast
  moreover have "slot_block crc 4096 h ! 0 = CHUNK_MEDIA_SLOT_MAGIC ! 0"
    using c by (simp add: slot_block_def slot_header_fields_def Let_def nth_patch chunk_id_ok_def)
  ultimately show False by (simp add: CHUNK_MEDIA_SLOT_MAGIC_def)
qed

definition superblock_block :: "(u8 list \<Rightarrow> u32) \<Rightarrow> ChunkMediaSuperblock \<Rightarrow> u8 list" where
  "superblock_block crc sb = (let b = superblock_fields 4096 sb in patch b 44 (le_bytes 4 (crc (take 44 b))))"

lemma length_superblock_fields [simp]: "length (superblock_fields 4096 sb) = 4096"
  by (simp add: superblock_fields_def Let_def)

lemma superblock_get:
  "subslice (superblock_fields 4096 sb) 0 8 = CHUNK_MEDIA_SUPERBLOCK_MAGIC"
  "subslice (superblock_fields 4096 sb) 8 10 = le_bytes 2 (sb_version sb)"
  "superblock_fields 4096 sb ! 10 = layout_kind_as_u8 (layout_kind (sb_layout sb))"
  "subslice (superblock_fields 4096 sb) 12 16 = le_bytes 4 (extent_bytes (sb_layout sb))"
  "subslice (superblock_fields 4096 sb) 16 20 = le_bytes 4 (packed_bytes (sb_layout sb))"
  "subslice (superblock_fields 4096 sb) 20 28 = le_bytes 8 (key_slots (sb_layout sb))"
  "subslice (superblock_fields 4096 sb) 28 36 = le_bytes 8 (sb_media_span_bytes sb)"
  by (simp_all add: superblock_fields_def Let_def codec_simps nth_patch)

lemma decode_superblock_block:
  assumes "sb_version sb = CHUNK_MEDIA_VERSION"
  shows "decode_superblock crc (superblock_block crc sb) = Some sb"
proof -
  let ?f = "superblock_fields 4096 sb"
  have "subslice (superblock_block crc sb) a b = subslice ?f a b" if "b \<le> 44" "a \<le> b" for a b
    using that by (simp add: superblock_block_def Let_def codec_simps)
  moreover have "superblock_block crc sb ! 10 = ?f ! 10" "take 44 (superblock_block crc sb) = take 44 ?f"
    "subslice (superblock_block crc sb) 44 48 = le_bytes 4 (crc (take 44 ?f))" "length (superblock_block crc sb) = 4096"
    by (simp_all add: superblock_block_def Let_def nth_patch codec_simps) (simp add: patch_inside)
  ultimately show ?thesis using assms by (simp add: decode_superblock_def superblock_get)
qed

interpretation super_hdr: fixed_codec "superblock_block crc" "decode_superblock crc" 4096 "\<lambda>sb. sb_version sb = CHUNK_MEDIA_VERSION" for crc
  by unfold_locales (simp_all add: decode_superblock_block, simp add: superblock_block_def Let_def)

section \<open>Lanes\<close>

text \<open>Where a lane lies on the device, and the record of a payload published there.\<close>

definition lane_off :: "ChunkMediaSpanConfig \<Rightarrow> ChunkMediaLayoutSpec \<Rightarrow> nat \<times> nat \<Rightarrow> nat" where
  "lane_off span l p = unat (span_offset_bytes span) + slot_start l (fst p) (snd p)"

definition span_fits :: "ChunkMediaSpanConfig \<Rightarrow> ChunkMediaLayoutSpec \<Rightarrow> bool" where
  "span_fits span l \<longleftrightarrow> layout_fits l \<and> unat (span_offset_bytes span) + group_start l (unat (key_slots l)) < 2 ^ 64"

definition is_lane :: "ChunkMediaLayoutSpec \<Rightarrow> nat \<times> nat \<Rightarrow> bool" where
  "is_lane l p \<longleftrightarrow> fst p < unat (key_slots l) \<and> snd p < 2"

definition lane_record :: "ChunkMediaLayoutSpec \<Rightarrow> u16 \<Rightarrow> nat \<times> nat \<Rightarrow> u32 \<Rightarrow> nat \<Rightarrow> u32 \<Rightarrow> LocationRecord" where
  "lane_record l drive p gen len crcv =
     \<lparr>drive_id = drive, location_kind = slot_kind l (fst p), physical_offset = of_nat (slot_start l (fst p) (snd p) + 4096),
      logical_length = of_nat len, stored_length = slot_payload l (fst p), generation = gen, checksum = crcv\<rparr>"

lemma span_fits_layout: "span_fits span l \<Longrightarrow> layout_fits l"
  by (simp add: span_fits_def)

lemma lane_end:
  assumes "span_fits span l" "is_lane l p"
  shows "lane_off span l p + slot_size l (fst p) \<le> unat (span_offset_bytes span) + group_start l (unat (key_slots l))"
    "lane_off span l p + slot_size l (fst p) < 2 ^ 64"
  using slot_end [of l "fst p" "snd p"] assms by (auto simp: span_fits_def is_lane_def lane_off_def)

lemma lanes_apart:
  assumes "is_lane l p" "is_lane l q" "p \<noteq> q"
  shows "lane_off span l p + slot_size l (fst p) \<le> lane_off span l q \<or> lane_off span l q + slot_size l (fst q) \<le> lane_off span l p"
proof -
  have "fst p < fst q \<or> (fst p = fst q \<and> snd p < snd q) \<or> fst q < fst p \<or> (fst q = fst p \<and> snd q < snd p)"
    using assms(3) by (auto simp: prod_eq_iff)
  then show ?thesis
    using slot_start_mono [of "snd p" "snd q" "fst p" "fst q" l] slot_start_mono [of "snd q" "snd p" "fst q" "fst p" l] assms
    by (auto simp: is_lane_def lane_off_def)
qed

lemma lane_geometry:
  assumes "layout_fits l" "is_lane l p"
  shows "slot_geometry l (of_nat (fst p)) (of_nat (snd p)) =
    Inr (geometry_at (of_nat (slot_start l (fst p) (snd p))) (slot_kind l (fst p)) (slot_payload l (fst p)))"
proof -
  have b: "fst p < 2 ^ 64" "snd p < 2 ^ 64"
    using assms(2) unsigned_less [of "key_slots l", where ?'a = nat] by (auto simp: is_lane_def)
  have "(of_nat (fst p) :: u64) < key_slots l" "(of_nat (snd p) :: u64) < 2"
    using assms(2) b by (simp_all add: is_lane_def word_less_nat_alt unat_of_nat)
  from slot_geometry_ok [OF assms(1) this] b show ?thesis by (simp add: unat_of_nat)
qed

lemma lane_start_64:
  assumes "layout_fits l" "is_lane l p"
  shows "slot_start l (fst p) (snd p) + 4096 < 2 ^ 64" "unat (of_nat (slot_start l (fst p) (snd p)) :: u64) = slot_start l (fst p) (snd p)"
    "unat (of_nat (slot_start l (fst p) (snd p) + 4096) :: u64) = slot_start l (fst p) (snd p) + 4096"
proof -
  show b: "slot_start l (fst p) (snd p) + 4096 < 2 ^ 64"
    using slot_start_bounds(2) [OF assms(1), of "fst p" "snd p"] assms(2) by (simp add: is_lane_def)
  then show "unat (of_nat (slot_start l (fst p) (snd p)) :: u64) = slot_start l (fst p) (snd p)"
    "unat (of_nat (slot_start l (fst p) (snd p) + 4096) :: u64) = slot_start l (fst p) (snd p) + 4096"
    by (simp_all add: unat_of_nat del: of_nat_add)
qed

lemma lane_absolute:
  assumes "span_fits span l" "is_lane l p"
  shows "absolute_chunk_media_offset span (of_nat (slot_start l (fst p) (snd p))) = Inr (of_nat (lane_off span l p))"
    "unat (of_nat (lane_off span l p) :: u64) = lane_off span l p"
    "absolute_chunk_media_offset span (of_nat (slot_start l (fst p) (snd p) + 4096)) = Inr (of_nat (lane_off span l p + 4096))"
    "unat (of_nat (lane_off span l p + 4096) :: u64) = lane_off span l p + 4096"
proof -
  have e: "lane_off span l p + 4096 < 2 ^ 64" using lane_end(2) [OF assms] slot_size_pos [of l "fst p"] by linarith
  then show u: "unat (of_nat (lane_off span l p) :: u64) = lane_off span l p" "unat (of_nat (lane_off span l p + 4096) :: u64) = lane_off span l p + 4096"
    by (simp_all add: unat_of_nat del: of_nat_add)
  have o: "unat (span_offset_bytes span) < 2 ^ 64" using unsigned_less [of "span_offset_bytes span", where ?'a = nat] by simp
  show "absolute_chunk_media_offset span (of_nat (slot_start l (fst p) (snd p))) = Inr (of_nat (lane_off span l p))"
    "absolute_chunk_media_offset span (of_nat (slot_start l (fst p) (snd p) + 4096)) = Inr (of_nat (lane_off span l p + 4096))"
    using checked_add_of_nat [OF o, of "slot_start l (fst p) (snd p)"] checked_add_of_nat [OF o, of "slot_start l (fst p) (snd p) + 4096"] e
    by (simp_all add: absolute_chunk_media_offset_def lane_off_def add.assoc del: of_nat_add)
qed

lemma lane_record_address:
  assumes "layout_fits l" "is_lane l p" "0 < len" "len \<le> unat (slot_payload l (fst p))"
  shows "slot_address_for_record l (lane_record l drive p gen len c) =
    Inr \<lparr>slot_index = of_nat (fst p), publication_lane = of_nat (snd p)\<rparr>"
proof -
  have b: "fst p < 2 ^ 64" "snd p < 2 ^ 64" "len < 2 ^ 32"
    using assms(2,4) unsigned_less [of "key_slots l", where ?'a = nat] u32_less [of "slot_payload l (fst p)"] by (auto simp: is_lane_def)
  have "(of_nat len :: u32) \<noteq> 0" "(of_nat len :: u32) \<le> slot_payload l (fst p)"
    using b(3) assms(3,4) by (simp_all add: word_unat_eq_iff word_le_nat_alt unat_of_nat)
  then show ?thesis
    using assms(2) b lane_start_64(3) [OF assms(1,2)]
    by (simp add: slot_address_iff [OF assms(1)] record_fits_def lane_record_def is_lane_def word_less_nat_alt unat_of_nat del: of_nat_add)
qed

section \<open>What a write does\<close>

text \<open>The lane a selector names, and the block that is written there.\<close>

definition chosen_lane :: "ChunkMediaLayoutSpec \<Rightarrow> u64 \<Rightarrow> PublicationLaneSelector \<Rightarrow> u64 io_result" where
  "chosen_lane l slot sel =
     (case sel of
        AgainstCurrent current \<Rightarrow> next_publication_lane l slot current
      | Explicit lane \<Rightarrow> if lane < 2 then Inr lane else Inl InvalidInput)"

definition slot_image :: "(u8 list \<Rightarrow> u32) \<Rightarrow> ChunkMediaSlotHeader \<Rightarrow> u8 list \<Rightarrow> u8 list" where
  "slot_image crc h payload = slot_block crc 4096 h @ resize payload ((length payload + 4095) div 4096 * 4096)"

definition commit_lane :: "(u8 list \<Rightarrow> u32) \<Rightarrow> nat \<Rightarrow> ChunkMediaSlotHeader \<Rightarrow> u8 list \<Rightarrow> WriteDurability \<Rightarrow> (device, io_error, LocationRecord) st" where
  "commit_lane crc off h payload durability =
     st_bind (direct_write_exact off (slot_image crc h payload)) (\<lambda>_.
     st_bind (if durability = Barrier then fdatasync else st_ret ()) (\<lambda>_.
     st_ret (sh_record h)))"

lemma next_publication_lane_less: "next_publication_lane l slot current = Inr j \<Longrightarrow> j < 2"
  by (auto simp: next_publication_lane_def word_mod_less_divisor bind_r_def split: option.splits if_splits sum.splits)

lemma chosen_lane_less: "chosen_lane l slot sel = Inr j \<Longrightarrow> j < 2"
  by (auto simp: chosen_lane_def next_publication_lane_less split: PublicationLaneSelector.splits if_splits)

lemma slot_payload_aligned:
  assumes "layout_fits l" "is_lane l p"
  shows "4096 dvd unat (slot_payload l (fst p))"
proof -
  have k: "key_slots l \<noteq> 0" using assms(2) by (auto simp: is_lane_def)
  have d: "4096 dvd unat w" if "(ucast w :: u64) mod 4096 = 0" for w :: u32
  proof -
    have "unat ((ucast w :: u64) mod 4096) = unat w mod 4096"
      using u32_less [of w] by (simp add: unat_mod_distrib unsigned_ucast_eq take_bit_nat_eq_self)
    with that show ?thesis by (simp add: dvd_eq_mod_eq_0)
  qed
  have "(ucast (extent_bytes l) :: u64) mod 4096 = 0" "(ucast (packed_bytes l) :: u64) mod 4096 = 0"
    using assms(1) k by (auto simp: layout_fits_def validate_layout_def split: if_splits)
  then show ?thesis using d [of "extent_bytes l"] d [of "packed_bytes l"] by (auto simp: slot_payload_def split: LocationKind.split)
qed

lemma round_up_le: "(n :: nat) \<le> m \<Longrightarrow> 4096 dvd m \<Longrightarrow> (n + 4095) div 4096 * 4096 \<le> m"
  by (elim dvdE) (simp add: less_mult_imp_div_less [of "n + 4095" "Suc _" 4096, THEN Suc_leI [THEN Suc_le_mono [THEN iffD1]]])

lemma round_up_ge: "(n :: nat) \<le> (n + 4095) div 4096 * 4096"
  using div_mult_mod_eq [of "n + 4095" 4096] mod_less_divisor [of 4096 "n + 4095"] by linarith

lemma length_slot_image:
  assumes "chunk_id_ok (sh_chunk_id h)"
  shows "length (slot_image crc h payload) = 4096 + (length payload + 4095) div 4096 * 4096"
  using assms by (simp add: slot_image_def)

lemma record_for_lane:
  assumes "layout_fits l" "is_lane l p"
  shows "chunk_media_record_for_slot_to_lane l drive (of_nat (fst p)) (of_nat (snd p)) gen =
    Inr (lane_record l drive p gen (unat (slot_payload l (fst p))) 0)"
  using lane_geometry [OF assms]
  by (cases "slot_kind l (fst p)")
    (simp_all add: chunk_media_record_for_slot_to_lane_def record_of_geometry_def geometry_at_def lane_record_def
      extent_record_def packed_record_def)

lemma record_for_selector:
  assumes "layout_fits l" "slot < key_slots l"
  shows "(case sel of
      AgainstCurrent current \<Rightarrow> chunk_media_record_for_slot_against_current l drive slot current gen
    | Explicit lane \<Rightarrow> chunk_media_record_for_slot_to_lane l drive slot lane gen) =
    (case chosen_lane l slot sel of
       Inl e \<Rightarrow> Inl e
     | Inr j \<Rightarrow> Inr (lane_record l drive (unat slot, unat j) gen (unat (slot_payload l (unat slot))) 0))"
proof -
  have r: "chunk_media_record_for_slot_to_lane l drive slot j gen =
      Inr (lane_record l drive (unat slot, unat j) gen (unat (slot_payload l (unat slot))) 0)" if "j < 2" for j
    using record_for_lane [OF assms(1), of "(unat slot, unat j)" drive gen] assms(2) that
    by (simp add: is_lane_def word_less_nat_alt)
  show ?thesis
  proof (cases sel)
    case (AgainstCurrent current)
    then show ?thesis
      using r next_publication_lane_less [of l slot current]
      by (cases "next_publication_lane l slot current")
        (auto simp: chosen_lane_def chunk_media_record_for_slot_against_current_def chunk_media_record_for_slot_to_lane_def)
  next
    case (Explicit lane)
    then show ?thesis
      using r [of lane] by (auto simp: chosen_lane_def chunk_media_record_for_slot_to_lane_def slot_geometry_def not_le [symmetric])
  qed
qed

lemma write_len_for_fits:
  assumes "n \<le> m" "4096 dvd m" "m < 2 ^ 32"
  shows "write_len_for (4096 + n) (4096 + m) = 4096 + (n + 4095) div 4096 * 4096"
proof -
  have "(4096 + n + 4095) div 4096 * 4096 = 4096 + (n + 4095) div 4096 * 4096"
    using div_add1_eq [of 4096 "n + 4095" 4096] by (simp add: add.assoc)
  moreover have "(n + 4095) div 4096 * 4096 \<le> m" by (rule round_up_le [OF assms(1,2)])
  ultimately show ?thesis using assms(3) by (simp add: write_len_for_def)
qed

text \<open>The block is the header block followed by the payload, padded with zeros to whole blocks.\<close>

lemma patched_block_image:
  assumes "chunk_id_ok (sh_chunk_id h)"
  shows "patch (slot_block crc (4096 + (length payload + 4095) div 4096 * 4096) h) 4096 payload = slot_image crc h payload"
  using assms round_up_ge [of "length payload"]
  by (simp add: slot_block_split [of h "4096 + _"] patch_inside slot_image_def resize_def)

lemma geometry_for_lane_record:
  assumes "layout_fits l" "is_lane l p" "0 < len" "len \<le> unat (slot_payload l (fst p))"
  shows "slot_geometry_for_record l (lane_record l drive p gen len c) =
    Inr (geometry_at (of_nat (slot_start l (fst p) (snd p))) (slot_kind l (fst p)) (slot_payload l (fst p)))"
  using lane_geometry [OF assms(1,2)] by (simp add: slot_geometry_for_record_def lane_record_address [OF assms])

lemma payload_sizes:
  fixes w :: u32
  assumes "n \<le> unat w"
  shows "checked_add (4096 :: u64) (ucast w) = Some (of_nat (4096 + unat w))"
    "checked_add (4096 :: u64) (of_nat n) = Some (of_nat (4096 + n))"
    "unat (of_nat (4096 + unat w) :: u64) = 4096 + unat w" "unat (of_nat (4096 + n) :: u64) = 4096 + n"
proof -
  have "unat w < 2 ^ 32" by (rule u32_less)
  then show "checked_add (4096 :: u64) (ucast w) = Some (of_nat (4096 + unat w))"
    "checked_add (4096 :: u64) (of_nat n) = Some (of_nat (4096 + n))"
    using assms checked_add_of_nat [of 4096 "unat w"] checked_add_of_nat [of 4096 n] by simp_all
  show "unat (of_nat (4096 + unat w) :: u64) = 4096 + unat w" "unat (of_nat (4096 + n) :: u64) = 4096 + n"
    using assms u32_less [of w] by (simp_all add: unat_of_nat del: of_nat_add)
qed

lemma media_zeroed_small: "0 < n \<Longrightarrow> n < 2 ^ 40 \<Longrightarrow> media_zeroed n = Inr (zeros n)"
  by (simp add: media_zeroed_def)

lemma write_payload_run:
  assumes fits: "span_fits (cfg_span config) (sb_layout sb)" and c: "chunk_id_ok c"
  defines "l \<equiv> sb_layout sb"
  shows "write_chunk_media_payload_with_file crc config sb slot sel c gen ident payload durability =
    (if slot \<ge> key_slots l then st_err InvalidInput
     else case chosen_lane l slot sel of
       Inl e \<Rightarrow> st_err e
     | Inr j \<Rightarrow>
         if payload = [] \<or> length payload > unat (slot_payload l (unat slot)) then st_err InvalidInput
         else commit_lane crc (lane_off (cfg_span config) l (unat slot, unat j))
                (live_header c (lane_record l (cfg_drive_id config) (unat slot, unat j) gen (length payload) (crc payload)) ident)
                payload durability)"
proof (cases "slot \<ge> key_slots l")
  case True
  then show ?thesis by (simp add: write_chunk_media_payload_with_file_def l_def)
next
  case False
  have lf: "layout_fits l" using fits by (simp add: l_def span_fits_layout)
  have "slot < key_slots l" using False by simp
  note sel = record_for_selector [OF lf this, where sel = sel and drive = "cfg_drive_id config" and gen = gen]
  show ?thesis
  proof (cases "chosen_lane l slot sel")
    case (Inl e)
    then show ?thesis using False unfolding write_chunk_media_payload_with_file_def l_def [symmetric] sel by simp
  next
    case (Inr j)
    let ?p = "(unat slot, unat j)" and ?w = "slot_payload l (unat slot)"
    have p: "is_lane l ?p" using False chosen_lane_less [OF Inr] by (simp add: is_lane_def word_less_nat_alt not_le)
    show ?thesis
    proof (cases "payload = [] \<or> length payload > unat ?w")
      case True
      then show ?thesis using False Inr unfolding write_chunk_media_payload_with_file_def l_def [symmetric] sel
        by (auto simp: lane_record_def)
    next
      case n: False
      then have len: "0 < length payload" "length payload \<le> unat ?w" by auto
      let ?n = "4096 + (length payload + 4095) div 4096 * 4096"
      have wl: "write_len_for (4096 + length payload) (4096 + unat ?w) = ?n"
        using write_len_for_fits [OF len(2)] slot_payload_aligned [OF lf p] u32_less [of ?w] by simp
      have "?n \<le> 4096 + unat ?w" using round_up_le [OF len(2)] slot_payload_aligned [OF lf p] by simp
      then have z: "media_zeroed ?n = Inr (zeros ?n)" using u32_less [of ?w] by (intro media_zeroed_small) simp_all
      define r0 r where "r0 = lane_record l (cfg_drive_id config) ?p gen (unat ?w) 0"
        and "r = lane_record l (cfg_drive_id config) ?p gen (length payload) (crc payload)"
      have r: "r0\<lparr>logical_length := of_nat (length payload), checksum := crc payload\<rparr> = r" "stored_length r0 = ?w" "stored_length r = ?w"
        by (simp_all add: r0_def r_def lane_record_def)
      have s: "(case sel of
          AgainstCurrent current \<Rightarrow> chunk_media_record_for_slot_against_current l (cfg_drive_id config) slot current gen
        | Explicit lane \<Rightarrow> chunk_media_record_for_slot_to_lane l (cfg_drive_id config) slot lane gen) = Inr r0"
        using sel Inr by (simp add: r0_def)
      have g: "slot_geometry_for_record l r = Inr (geometry_at (of_nat (slot_start l (unat slot) (unat j))) (slot_kind l (unat slot)) ?w)"
        using geometry_for_lane_record [OF lf p len(1)] len(2) by (simp add: r_def)
      have b: "patch (slot_block crc ?n (live_header c r ident)) 4096 payload = slot_image crc (live_header c r ident) payload"
        by (rule patched_block_image) (simp add: live_header_def c)
      have h: "sh_record (live_header c r ident) = r" by (simp add: live_header_def)
      show ?thesis
        using False n Inr g z wl payload_sizes [OF len(2)] lane_absolute(1,2) [OF fits, folded l_def, OF p]
        unfolding write_chunk_media_payload_with_file_def l_def [symmetric] s
        by (simp add: r b h r_def [symmetric] encode_slot_header_block commit_lane_def geometry_at_def del: of_nat_add)
    qed
  qed
qed

end
