(* ===== verification/Kix_Lanes.thy ===== *)
theory Kix_Lanes
  imports Kix_Media_Spec
begin

text \<open>
  Chunk media seen as lanes: what a lane holds is a function of its own bytes; the rebuild scan is a
  fold over what the lanes hold; a write, a torn write or a tombstone changes one lane; a read returns
  what the lane holds. The properties of chunk media follow from these.
\<close>

section \<open>What a lane holds\<close>

datatype lane_view = LaneEmpty | LaneCorruptHeader | LaneMismatch | LaneCorruptPayload | LaneHolds ChunkMediaSlotHeader

definition geometry_of :: "ChunkMediaLayoutSpec \<Rightarrow> nat \<times> nat \<Rightarrow> SlotGeometry" where
  "geometry_of l p = geometry_at (of_nat (slot_start l (fst p) (snd p))) (slot_kind l (fst p)) (slot_payload l (fst p))"

definition view_of_bytes :: "(u8 list \<Rightarrow> u32) \<Rightarrow> ChunkMediaLayoutSpec \<Rightarrow> nat \<times> nat \<Rightarrow> u8 list \<Rightarrow> lane_view" where
  "view_of_bytes crc l p bs =
     (if is_zero_block (take 4096 bs) then LaneEmpty
      else case decode_slot_header crc (take 4096 bs) of
        None \<Rightarrow> LaneCorruptHeader
      | Some h \<Rightarrow>
          if \<not> slot_header_matches_geometry h (geometry_of l p) then LaneMismatch
          else if sh_state h = Live \<and> crc (take (unat (logical_length (sh_record h))) (drop 4096 bs)) \<noteq> checksum (sh_record h)
          then LaneCorruptPayload
          else LaneHolds h)"

definition lane_bytes :: "ChunkMediaSpanConfig \<Rightarrow> ChunkMediaLayoutSpec \<Rightarrow> (nat \<Rightarrow> u8) \<Rightarrow> nat \<times> nat \<Rightarrow> u8 list" where
  "lane_bytes span l f p = load_bytes f (lane_off span l p) (slot_size l (fst p))"

definition lane_at :: "(u8 list \<Rightarrow> u32) \<Rightarrow> ChunkMediaSpanConfig \<Rightarrow> ChunkMediaLayoutSpec \<Rightarrow> (nat \<Rightarrow> u8) \<Rightarrow> nat \<times> nat \<Rightarrow> lane_view" where
  "lane_at crc span l f p = view_of_bytes crc l p (lane_bytes span l f p)"

text \<open>The media lie inside the device.\<close>

definition media_on :: "ChunkMediaSpanConfig \<Rightarrow> ChunkMediaLayoutSpec \<Rightarrow> device \<Rightarrow> bool" where
  "media_on span l d \<longleftrightarrow> span_fits span l \<and> unat (span_offset_bytes span) + group_start l (unat (key_slots l)) \<le> dev_len d"

definition note_view :: "lane_view \<Rightarrow> latest_headers \<times> ChunkMediaRebuildSummary \<Rightarrow> latest_headers \<times> ChunkMediaRebuildSummary" where
  "note_view v = (\<lambda>(latest, s0).
     let s = s0\<lparr>scanned_slots := Suc (scanned_slots s0)\<rparr> in
     case v of
       LaneEmpty \<Rightarrow> (latest, s\<lparr>empty_slots := Suc (empty_slots s)\<rparr>)
     | LaneCorruptHeader \<Rightarrow> (latest, s\<lparr>corrupt_headers := Suc (corrupt_headers s)\<rparr>)
     | LaneMismatch \<Rightarrow> (latest, s\<lparr>layout_mismatches := Suc (layout_mismatches s)\<rparr>)
     | LaneCorruptPayload \<Rightarrow> (latest, s\<lparr>corrupt_payloads := Suc (corrupt_payloads s)\<rparr>)
     | LaneHolds h \<Rightarrow>
         (update_latest_header h latest,
          if sh_state h = Live then s\<lparr>live_entries := Suc (live_entries s)\<rparr> else s\<lparr>tombstones := Suc (tombstones s)\<rparr>))"

lemma lane_inside:
  assumes "media_on span l d" "is_lane l p"
  shows "lane_off span l p + slot_size l (fst p) \<le> dev_len d"
  using lane_end(1) [of span l p] assms by (auto simp: media_on_def)

lemma take_lane_bytes [simp]: "take 4096 (lane_bytes span l f p) = load_bytes f (lane_off span l p) 4096"
  using slot_size_pos [of l "fst p"] by (simp add: lane_bytes_def min_absorb1)

lemma drop_lane_bytes [simp]: "drop 4096 (lane_bytes span l f p) = load_bytes f (lane_off span l p + 4096) (unat (slot_payload l (fst p)))"
  by (simp add: lane_bytes_def slot_size_def)

lemma length_lane_bytes [simp]: "length (lane_bytes span l f p) = slot_size l (fst p)"
  by (simp add: lane_bytes_def)

lemma matches_geometryD:
  assumes "slot_header_matches_geometry h (geometry_of l p)"
  shows "physical_offset (sh_record h) = of_nat (slot_start l (fst p) (snd p) + 4096)"
    "stored_length (sh_record h) = slot_payload l (fst p)" "0 < unat (logical_length (sh_record h))"
    "unat (logical_length (sh_record h)) \<le> unat (slot_payload l (fst p))" "location_kind (sh_record h) = slot_kind l (fst p)"
  using assms by (auto simp: slot_header_matches_geometry_def geometry_of_def geometry_at_def word_le_nat_alt word_less_nat_alt)

lemma rebuild_lane_view:
  assumes m: "media_on span l d" and p: "is_lane l p" and q: "quiet d"
  shows "rebuild_lane crc span l p (latest, s) d = (Inr (note_view (lane_at crc span l (dev_bytes d) p) (latest, s)), d)"
proof -
  have sf: "span_fits span l" and lf: "layout_fits l" using m by (auto simp: media_on_def span_fits_def)
  note abs = lane_absolute [OF sf p] and inside = lane_inside [OF m p]
  let ?o = "lane_off span l p" and ?f = "dev_bytes d"
  have h: "direct_read_exact ?o 4096 d = (Inr (load_bytes ?f ?o 4096), d)"
    using inside slot_size_pos [of l "fst p"] by (intro direct_read_exact_quiet q) linarith
  have pay: "direct_read_exact (?o + 4096) (unat (slot_payload l (fst p))) d = (Inr (load_bytes ?f (?o + 4096) (unat (slot_payload l (fst p)))), d)"
    using inside by (intro direct_read_exact_quiet q) (simp add: slot_size_def)
  have z: "media_zeroed (unat w) = Inr (zeros (unat w))" if "0 < unat w" for w :: u32
    using that u32_less [of w] by (intro media_zeroed_small) simp_all
  have g: "slot_geometry l (of_nat (fst p)) (of_nat (snd p)) = Inr (geometry_of l p)"
    "slot_base_offset (geometry_of l p) = of_nat (slot_start l (fst p) (snd p))"
    using lane_geometry [OF lf p] by (simp_all add: geometry_of_def geometry_at_def)
  show ?thesis
  proof (cases "is_zero_block (load_bytes ?f ?o 4096)")
    case True
    then show ?thesis
      by (simp add: rebuild_lane_def split_beta g abs(1,2) st_bind_run h lane_at_def view_of_bytes_def note_view_def Let_def)
  next
    case nz: False
    show ?thesis
    proof (cases "decode_slot_header crc (load_bytes ?f ?o 4096)")
      case None
      with nz show ?thesis
        by (simp add: rebuild_lane_def split_beta g abs(1,2) st_bind_run h lane_at_def view_of_bytes_def note_view_def Let_def)
    next
      case (Some hd)
      show ?thesis
      proof (cases "slot_header_matches_geometry hd (geometry_of l p)")
        case False
        with nz Some show ?thesis
          by (simp add: rebuild_lane_def split_beta g abs(1,2) st_bind_run h lane_at_def view_of_bytes_def note_view_def Let_def)
      next
        case True
        note mg = matches_geometryD [OF True]
        show ?thesis
          using True nz Some z [of "slot_payload l (fst p)"] mg(3,4) abs(3,4) pay
          by (cases "sh_state hd")
            (simp_all add: rebuild_lane_def split_beta g abs(1,2) st_bind_run h lane_at_def view_of_bytes_def note_view_def Let_def mg(1,2) del: of_nat_add)
      qed
    qed
  qed
qed

section \<open>The rebuild scan\<close>

definition held :: "lane_view \<Rightarrow> ChunkMediaSlotHeader list" where
  "held v = (case v of LaneHolds h \<Rightarrow> [h] | _ \<Rightarrow> [])"

definition media_headers :: "(u8 list \<Rightarrow> u32) \<Rightarrow> ChunkMediaSpanConfig \<Rightarrow> ChunkMediaLayoutSpec \<Rightarrow> (nat \<Rightarrow> u8) \<Rightarrow> ChunkMediaSlotHeader set" where
  "media_headers crc span l f = {h. \<exists>p. is_lane l p \<and> lane_at crc span l f p = LaneHolds h}"

text \<open>\<open>beats h h'\<close>: of two headers of a chunk the scan keeps the higher generation, and a tombstone over a live entry of its generation.\<close>

definition beats :: "ChunkMediaSlotHeader \<Rightarrow> ChunkMediaSlotHeader \<Rightarrow> bool" where
  "beats h h' \<longleftrightarrow> generation (sh_record h') < generation (sh_record h)
     \<or> (generation (sh_record h') = generation (sh_record h) \<and> (sh_state h' = Deleted \<longrightarrow> sh_state h = Deleted))"

definition latest_inv :: "ChunkMediaSlotHeader set \<Rightarrow> latest_headers \<Rightarrow> bool" where
  "latest_inv H latest \<longleftrightarrow> distinct (map fst latest)
     \<and> (\<forall>c h. map_of latest c = Some h \<longrightarrow> h \<in> H \<and> sh_chunk_id h = c)
     \<and> (\<forall>h'\<in>H. \<exists>h. map_of latest (sh_chunk_id h') = Some h \<and> beats h h')"

lemma latest_inv_empty: "latest_inv {} []"
  by (simp add: latest_inv_def)

lemma beats_refl [simp]: "beats h h"
  by (simp add: beats_def)

lemma beats_trans: "beats a b \<Longrightarrow> beats b c \<Longrightarrow> beats a c"
  by (auto simp: beats_def)

lemma update_latest_header_beats:
  "map_of latest (sh_chunk_id h) = Some x \<Longrightarrow>
     update_latest_header h latest = (if beats h x then AList.update (sh_chunk_id h) h latest else latest)
     \<and> (\<not> beats h x \<longrightarrow> beats x h)"
  by (cases "sh_state x"; cases "sh_state h") (auto simp: update_latest_header_def beats_def)

lemma latest_inv_update:
  assumes "latest_inv H latest"
  shows "latest_inv (insert h H) (update_latest_header h latest)"
proof -
  let ?c = "sh_chunk_id h"
  have d: "distinct (map fst latest)" and k: "\<And>c x. map_of latest c = Some x \<Longrightarrow> x \<in> H \<and> sh_chunk_id x = c"
    and b: "\<And>h'. h' \<in> H \<Longrightarrow> \<exists>x. map_of latest (sh_chunk_id h') = Some x \<and> beats x h'"
    using assms by (auto simp: latest_inv_def)
  have keep: "latest_inv (insert h H) latest" if "map_of latest ?c = Some x" "beats x h" for x
    using d k b that by (auto simp: latest_inv_def)
  have put: "latest_inv (insert h H) (AList.update ?c h latest)" if "\<And>x. map_of latest ?c = Some x \<Longrightarrow> beats h x"
    unfolding latest_inv_def
  proof (intro conjI allI impI ballI)
    show "distinct (map fst (AList.update ?c h latest))" using d by (rule distinct_update)
  next
    fix c x assume "map_of (AList.update ?c h latest) c = Some x"
    then show "x \<in> insert h H" "sh_chunk_id x = c" using k [of c x] by (auto simp: update_conv' split: if_splits)
  next
    fix h' assume "h' \<in> insert h H"
    then show "\<exists>x. map_of (AList.update ?c h latest) (sh_chunk_id h') = Some x \<and> beats x h'"
      using b [of h'] that by (auto simp: update_conv') (blast intro: beats_trans)
  qed
  show ?thesis
  proof (cases "map_of latest ?c")
    case None
    then show ?thesis using put by (simp add: update_latest_header_def)
  next
    case (Some x)
    then show ?thesis using update_latest_header_beats [OF Some] keep [OF Some] put by auto
  qed
qed

lemma latest_inv_fold: "latest_inv H latest \<Longrightarrow> latest_inv (set hs \<union> H) (fold update_latest_header hs latest)"
proof (induction hs arbitrary: H latest)
  case (Cons h hs)
  then show ?case using Cons.IH [OF latest_inv_update [OF Cons.prems, of h]] by simp
qed simp

lemma fst_note_view: "fst (note_view v acc) = fold update_latest_header (held v) (fst acc)"
  by (cases v) (auto simp: note_view_def held_def Let_def split_beta)

lemma fst_fold_note_view: "fst (fold (\<lambda>p. note_view (g p)) ps acc) = fold update_latest_header (concat (map (\<lambda>p. held (g p)) ps)) (fst acc)"
  by (induction ps arbitrary: acc) (simp_all add: fst_note_view)

lemma rebuild_scan_views:
  assumes "media_on span l d" "quiet d"
  shows "\<forall>p\<in>set ps. is_lane l p \<Longrightarrow>
    rebuild_scan crc span l ps acc d = (Inr (fold (\<lambda>p. note_view (lane_at crc span l (dev_bytes d) p)) ps acc), d)"
proof (induction ps arbitrary: acc)
  case (Cons p ps)
  then show ?case
    using rebuild_lane_view [OF assms(1) _ assms(2), of p crc "fst acc" "snd acc"] by (simp add: st_bind_run)
qed simp

lemma scan_order_lanes: "set (scan_order (unat (key_slots l))) = {p. is_lane l p}"
  by (auto simp: scan_order_def is_lane_def)

lemma scan_latest:
  assumes "media_on span l d" "quiet d"
  obtains latest summary where
    "rebuild_scan crc span l (scan_order (unat (key_slots l))) ([], empty_summary) d = (Inr (latest, summary), d)"
    "latest_inv (media_headers crc span l (dev_bytes d)) latest"
proof -
  let ?ps = "scan_order (unat (key_slots l))" and ?g = "lane_at crc span l (dev_bytes d)"
  let ?acc = "fold (\<lambda>p. note_view (?g p)) ?ps ([], empty_summary)"
  have "set (concat (map (\<lambda>p. held (?g p)) ?ps)) = media_headers crc span l (dev_bytes d)"
    by (fastforce simp: scan_order_lanes media_headers_def held_def split: lane_view.splits)
  then have "latest_inv (media_headers crc span l (dev_bytes d)) (fst ?acc)"
    using latest_inv_fold [OF latest_inv_empty, of "concat (map (\<lambda>p. held (?g p)) ?ps)"] by (simp add: fst_fold_note_view)
  then show thesis
    using rebuild_scan_views [OF assms, of ?ps crc "([], empty_summary)"]
    by (intro that [of "fst ?acc" "snd ?acc"]) (simp_all add: scan_order_lanes)
qed

text \<open>A span that \<open>resolve_effective_span_bytes\<close> accepts, and the length it gives.\<close>

definition span_resolves :: "ChunkMediaSpanConfig \<Rightarrow> device \<Rightarrow> u64 \<Rightarrow> bool" where
  "span_resolves span d n \<longleftrightarrow>
     dev_len d < 2 ^ 64 \<and> span_offset_bytes span mod 4096 = 0 \<and> n mod 4096 = 0 \<and> n \<noteq> 0
     \<and> unat (span_offset_bytes span) + unat n \<le> dev_len d
     \<and> (case span_len_bytes span of Some m \<Rightarrow> m = n | None \<Rightarrow> unat (span_offset_bytes span) + unat n = dev_len d)"

lemma resolve_span_quiet:
  assumes q: "quiet d" and s: "span_resolves span d n"
  shows "resolve_effective_span_bytes (span_offset_bytes span) (span_len_bytes span) d = (Inr n, d)"
proof -
  have l: "unat (of_nat (dev_len d) :: u64) = dev_len d" using s by (simp add: span_resolves_def unat_of_nat)
  have le: "unat (span_offset_bytes span) + unat n \<le> dev_len d" using s by (simp add: span_resolves_def)
  have o: "\<not> span_offset_bytes span > of_nat (dev_len d)" using le l by (simp add: word_less_nat_alt)
  have e: "(case span_len_bytes span of Some m \<Rightarrow> m | None \<Rightarrow> of_nat (dev_len d) - span_offset_bytes span) = n"
  proof (cases "span_len_bytes span")
    case None
    then have "unat (span_offset_bytes span) + unat n = dev_len d" using s by (simp add: span_resolves_def)
    then have "(of_nat (dev_len d) :: u64) = of_nat (unat (span_offset_bytes span) + unat n)" by simp
    then show ?thesis using None by simp
  next
    case (Some m)
    then show ?thesis using s by (simp add: span_resolves_def)
  qed
  have "checked_add (span_offset_bytes span) n = Some (span_offset_bytes span + n)" "unat (span_offset_bytes span + n) = unat (span_offset_bytes span) + unat n"
    using le s by (auto simp: checked_add_Some span_resolves_def unat_add_no_wrap)
  with le l have a: "checked_add (span_offset_bytes span) n = Some (span_offset_bytes span + n)" "\<not> span_offset_bytes span + n > of_nat (dev_len d)"
    by (simp_all add: word_less_nat_alt)
  have c: "media_capacity_bytes d = (Inr (of_nat (dev_len d)), d)" by (simp add: media_capacity_bytes_def syscall_quiet q)
  show ?thesis
    using s o e a by (simp add: resolve_effective_span_bytes_def validate_offset_alignment_def span_resolves_def media_open_file_def
        st_bind_run syscall_quiet q c)
qed

definition has_superblock :: "(u8 list \<Rightarrow> u32) \<Rightarrow> ChunkMediaSpanConfig \<Rightarrow> (nat \<Rightarrow> u8) \<Rightarrow> ChunkMediaSuperblock \<Rightarrow> bool" where
  "has_superblock crc span f sb \<longleftrightarrow> decode_superblock crc (load_bytes f (unat (span_offset_bytes span)) 4096) = Some sb"

text \<open>Media that have been brought up: a superblock, and room for every slot of its layout.\<close>

definition media_ready :: "(u8 list \<Rightarrow> u32) \<Rightarrow> ChunkMediaSpanConfig \<Rightarrow> ChunkMediaSuperblock \<Rightarrow> device \<Rightarrow> bool" where
  "media_ready crc span sb d \<longleftrightarrow>
     (\<exists>n. span_resolves span d n) \<and> has_superblock crc span (dev_bytes d) sb \<and> media_on span (sb_layout sb) d"

lemma read_superblock_quiet:
  assumes "quiet d" "media_ready crc span sb d"
  shows "read_chunk_media_superblock crc span d = (Inr sb, d)"
proof -
  obtain n where n: "span_resolves span d n" and h: "has_superblock crc span (dev_bytes d) sb"
    and m: "media_on span (sb_layout sb) d"
    using assms(2) by (auto simp: media_ready_def)
  have "unat (span_offset_bytes span) + 4096 \<le> dev_len d"
    using m group_start_ge [of "sb_layout sb" "unat (key_slots (sb_layout sb))"] by (simp add: media_on_def)
  then have "direct_read_exact (unat (span_offset_bytes span)) 4096 d = (Inr (load_bytes (dev_bytes d) (unat (span_offset_bytes span)) 4096), d)"
    by (intro direct_read_exact_quiet assms(1))
  then show ?thesis
    using h by (simp add: read_chunk_media_superblock_def st_bind_run resolve_span_quiet [OF assms(1) n] media_open_file_def
        syscall_quiet [OF assms(1)] media_zeroed_small has_superblock_def)
qed

lemma map_of_fold_update_distinct:
  assumes "distinct (map fst xs)"
  shows "map_of (fold (\<lambda>(c, h). AList.update c (g h)) xs ys) c = (case map_of xs c of Some h \<Rightarrow> Some (g h) | None \<Rightarrow> map_of ys c)"
  using assms
proof (induction xs arbitrary: ys)
  case (Cons x xs)
  obtain a h where x: "x = (a, h)" by fastforce
  with Cons.prems have n: "map_of xs a = None" by (simp add: map_of_eq_None_iff)
  with Cons.IH [of "AList.update a (g h) ys"] Cons.prems x show ?case
    by (cases "c = a") (auto simp: update_conv' split: option.split)
qed simp

lemma map_of_live_headers:
  assumes "distinct (map fst latest)"
  shows "map_of (live_headers latest) c = (case map_of latest c of Some h \<Rightarrow> if sh_state h = Live then Some h else None | None \<Rightarrow> None)"
  using assms
proof (induction latest)
  case (Cons x xs)
  obtain a h where x: "x = (a, h)" by fastforce
  with Cons.prems have n: "map_of xs a = None" by (simp add: map_of_eq_None_iff)
  with Cons x show ?case by (cases "c = a") (simp_all add: live_headers_def)
qed (simp add: live_headers_def)

lemma distinct_live_headers: "distinct (map fst latest) \<Longrightarrow> distinct (map fst (live_headers latest))"
  by (auto simp: live_headers_def distinct_map intro: inj_on_subset)

section \<open>Reading a lane\<close>

definition lane_payload :: "ChunkMediaSpanConfig \<Rightarrow> ChunkMediaLayoutSpec \<Rightarrow> (nat \<Rightarrow> u8) \<Rightarrow> nat \<times> nat \<Rightarrow> LocationRecord \<Rightarrow> u8 list" where
  "lane_payload span l f p r = load_bytes f (lane_off span l p + 4096) (unat (logical_length r))"

lemma lane_holdsD:
  assumes "lane_at crc span l f p = LaneHolds h"
  shows "\<not> is_zero_block (load_bytes f (lane_off span l p) 4096)" "decode_slot_header crc (load_bytes f (lane_off span l p) 4096) = Some h"
    "slot_header_matches_geometry h (geometry_of l p)"
    "sh_state h = Live \<Longrightarrow> crc (lane_payload span l f p (sh_record h)) = checksum (sh_record h)"
proof -
  show g: "slot_header_matches_geometry h (geometry_of l p)" and "\<not> is_zero_block (load_bytes f (lane_off span l p) 4096)"
    "decode_slot_header crc (load_bytes f (lane_off span l p) 4096) = Some h"
    using assms by (auto simp: lane_at_def view_of_bytes_def split: if_splits option.splits)
  show "crc (lane_payload span l f p (sh_record h)) = checksum (sh_record h)" if "sh_state h = Live"
    using assms matches_geometryD(4) [OF g] that
    by (auto simp: lane_at_def view_of_bytes_def lane_payload_def min_absorb1 split: if_splits option.splits)
qed

lemma read_len_for_fits:
  assumes "0 < unat (logical_length r)" "unat (logical_length r) \<le> unat (stored_length r)" "4096 dvd unat (stored_length r)"
  shows "read_len_for r = (unat (logical_length r) + 4095) div 4096 * 4096"
proof -
  let ?n = "unat (logical_length r)"
  have "?n \<le> (?n + 4095) div 4096 * 4096" "(?n + 4095) div 4096 * 4096 \<le> unat (stored_length r)"
    by (rule round_up_ge, rule round_up_le [OF assms(2,3)])
  moreover have "1 \<le> (?n + 4095) div 4096" using assms(1) by (simp add: div_greater_zero_iff Suc_le_eq)
  ultimately show ?thesis using assms(1,2) by (simp add: read_len_for_def Let_def min_absorb1 add.commute [of _ 4095])
qed

lemma lane_base:
  assumes "layout_fits l" "is_lane l p"
  shows "checked_sub (of_nat (slot_start l (fst p) (snd p) + 4096) :: u64) 4096 = Some (of_nat (slot_start l (fst p) (snd p)))"
    "\<not> (of_nat (slot_start l (fst p) (snd p) + 4096) :: u64) < 4096"
  using lane_start_64(3) [OF assms] by (simp_all add: checked_sub_def word_less_nat_alt word_le_nat_alt del: of_nat_add) simp

lemma read_header_lane:
  assumes m: "media_on span l d" and p: "is_lane l p" and q: "quiet d"
    and h: "lane_at crc span l (dev_bytes d) p = LaneHolds h" and live: "sh_state h = Live"
  shows "read_validated_live_header crc span (sh_chunk_id h) (sh_record h) d = (Inr h, d)"
proof -
  have sf: "span_fits span l" and lf: "layout_fits l" using m by (auto simp: media_on_def span_fits_def)
  note v = lane_holdsD [OF h] and b = lane_base [OF lf p] and a = lane_absolute(1,2) [OF sf p]
  note po = matches_geometryD(1) [OF v(3)]
  have "direct_read_exact (lane_off span l p) 4096 d = (Inr (load_bytes (dev_bytes d) (lane_off span l p) 4096), d)"
    using lane_inside [OF m p] slot_size_pos [of l "fst p"] by (intro direct_read_exact_quiet q) linarith
  then show ?thesis
    using v(1,2) b a live by (simp add: read_validated_live_header_def po st_bind_run media_zeroed_small del: of_nat_add)
qed

lemma read_payload_lane:
  assumes m: "media_on span l d" and p: "is_lane l p" and q: "quiet d"
    and h: "lane_at crc span l (dev_bytes d) p = LaneHolds h" and live: "sh_state h = Live"
  shows "read_chunk_media_payload_with_file crc span (sh_chunk_id h) (sh_record h) d =
    (Inr (lane_payload span l (dev_bytes d) p (sh_record h)), d)"
proof -
  let ?r = "sh_record h" and ?o = "lane_off span l p"
  let ?n = "unat (logical_length ?r)"
  have sf: "span_fits span l" and lf: "layout_fits l" using m by (auto simp: media_on_def span_fits_def)
  note v = lane_holdsD [OF h] and a = lane_absolute(3,4) [OF sf p]
  note g = matches_geometryD [OF v(3)]
  have al: "4096 dvd unat (stored_length ?r)" using slot_payload_aligned [OF lf p] g(2) by simp
  note rl = read_len_for_fits [OF g(3) _ al, unfolded g(2), OF g(4)]
  have ru: "?n \<le> (?n + 4095) div 4096 * 4096" "(?n + 4095) div 4096 * 4096 \<le> unat (slot_payload l (fst p))"
    using round_up_ge [of ?n] round_up_le [OF g(4)] al g(2) by simp_all
  have z: "media_zeroed (read_len_for ?r) = Inr (zeros (read_len_for ?r))"
    using ru g(3) u32_less [of "slot_payload l (fst p)"] unfolding rl by (intro media_zeroed_small) simp_all
  have "direct_read_exact (?o + 4096) (read_len_for ?r) d = (Inr (load_bytes (dev_bytes d) (?o + 4096) (read_len_for ?r)), d)"
    using lane_inside [OF m p] ru(2) unfolding rl by (intro direct_read_exact_quiet q) (simp add: slot_size_def)
  moreover have "take (min ?n (unat (slot_payload l (fst p)))) (load_bytes (dev_bytes d) (?o + 4096) (read_len_for ?r)) = lane_payload span l (dev_bytes d) p ?r"
    using ru(1) g(4) unfolding rl by (simp add: lane_payload_def min_absorb1)
  ultimately show ?thesis
    using z a v(4) [OF live] by (simp add: read_chunk_media_payload_with_file_def st_bind_run read_header_lane [OF assms] g(1,2) Let_def del: of_nat_add)
qed

section \<open>Changing a lane\<close>

lemma lane_bytes_store_same:
  assumes "length bs \<le> slot_size l (fst p)"
  shows "lane_bytes span l (store_bytes f (lane_off span l p) bs) p = bs @ drop (length bs) (lane_bytes span l f p)"
  using assms bytes.rd_split [of "store_bytes f (lane_off span l p) bs" "lane_off span l p" "length bs" "slot_size l (fst p) - length bs"]
  by (simp add: lane_bytes_def load_store_same load_store_other)

lemma lane_bytes_store_other:
  assumes "is_lane l p" "is_lane l q" "p \<noteq> q" "length bs \<le> slot_size l (fst p)"
  shows "lane_bytes span l (store_bytes f (lane_off span l p) bs) q = lane_bytes span l f q"
  using lanes_apart [OF assms(1-3), of span] assms(4) unfolding lane_bytes_def by (intro load_store_other) linarith

lemma superblock_store_lane:
  assumes "is_lane l p"
  shows "has_superblock crc span (store_bytes f (lane_off span l p) bs) sb = has_superblock crc span f sb"
  using group_start_ge [of l "fst p"] by (simp add: has_superblock_def lane_off_def slot_start_def load_store_other)

lemma lane_holds_image:
  assumes l: "layout_fits l" and p: "is_lane l p" and h: "header_ok h" "slot_header_matches_geometry h (geometry_of l p)"
    and pay: "sh_state h = Live \<Longrightarrow> payload \<noteq> [] \<and> unat (logical_length (sh_record h)) = length payload \<and> checksum (sh_record h) = crc payload"
    and len: "length (slot_image crc h payload) \<le> slot_size l (fst p)"
  shows "lane_at crc span l (store_bytes f (lane_off span l p) (slot_image crc h payload)) p = LaneHolds h"
proof -
  have c: "chunk_id_ok (sh_chunk_id h)" using h(1) by (simp add: header_ok_def)
  let ?bs = "slot_image crc h payload @ drop (length (slot_image crc h payload)) (lane_bytes span l f p)"
  have t: "take 4096 ?bs = slot_block crc 4096 h" using c by (simp add: slot_image_def)
  have "take (length payload) (drop 4096 ?bs) = payload"
    using c round_up_ge [of "length payload"] by (simp add: slot_image_def)
  then show ?thesis
    using h pay t slot_block_nonzero [OF c] decode_slot_block [OF h(1)]
    by (auto simp: lane_at_def lane_bytes_store_same [OF len] view_of_bytes_def simp del: take_append drop_append)
qed

lemma commit_lane_cases:
  assumes run: "commit_lane crc off h payload durability d = (r, d')"
    and inside: "off + length (slot_image crc h payload) \<le> dev_len d"
  shows "dev_len d' = dev_len d" "dev_block d' = dev_block d"
    "\<exists>k. dev_bytes d' = store_bytes (dev_bytes d) off (take k (slot_image crc h payload))"
    "r = Inr x \<Longrightarrow> x = sh_record h \<and> dev_bytes d' = store_bytes (dev_bytes d) off (slot_image crc h payload)
       \<and> (durability = Barrier \<longrightarrow> dev_durable d' = dev_bytes d')"
proof -
  let ?i = "slot_image crc h payload"
  have t: "off + length (take k ?i) \<le> dev_len d" for k using inside by simp
  obtain w d1 where w: "direct_write_exact off ?i d = (w, d1)" by fastforce
  from direct_write_exact_cases [OF w]
  have "dev_len d' = dev_len d \<and> dev_block d' = dev_block d \<and> (\<exists>k. dev_bytes d' = store_bytes (dev_bytes d) off (take k ?i))
     \<and> (\<forall>x. r = Inr x \<longrightarrow> x = sh_record h \<and> dev_bytes d' = store_bytes (dev_bytes d) off ?i
          \<and> (durability = Barrier \<longrightarrow> dev_durable d' = dev_bytes d'))"
  proof (elim disjE exE conjE)
    fix e k s assume "w = Inl e" "d1 = put_bytes off (take k ?i) (d\<lparr>dev_sched := s\<rparr>)"
    then show ?thesis using run w t [of k] by (auto simp: commit_lane_def st_bind_run)
  next
    fix s assume s: "w = Inr ()" "d1 = put_bytes off ?i (d\<lparr>dev_sched := s\<rparr>)"
    then have d1: "dev_len d1 = dev_len d" "dev_block d1 = dev_block d" "dev_bytes d1 = store_bytes (dev_bytes d) off ?i"
      using inside by simp_all
    have k: "\<exists>k. dev_bytes d1 = store_bytes (dev_bytes d) off (take k ?i)"
      by (rule exI [of _ "length ?i"]) (simp add: d1)
    show ?thesis
    proof (cases durability)
      case Deferred
      then show ?thesis using run w s(1) d1 k by (auto simp: commit_lane_def st_bind_run)
    next
      case Barrier
      obtain y d2 where y: "fdatasync d1 = (y, d2)" by fastforce
      then show ?thesis
        by (cases rule: fdatasync_cases) (use run w s(1) d1 k y Barrier in \<open>auto simp: commit_lane_def st_bind_run\<close>)
    qed
  qed
  then show "dev_len d' = dev_len d" "dev_block d' = dev_block d" "\<exists>k. dev_bytes d' = store_bytes (dev_bytes d) off (take k ?i)"
    "r = Inr x \<Longrightarrow> x = sh_record h \<and> dev_bytes d' = store_bytes (dev_bytes d) off ?i \<and> (durability = Barrier \<longrightarrow> dev_durable d' = dev_bytes d')"
    by auto
qed

lemma slot_image_inside:
  assumes "chunk_id_ok (sh_chunk_id h)" "layout_fits l" "is_lane l p" "length payload \<le> unat (slot_payload l (fst p))"
  shows "length (slot_image crc h payload) \<le> slot_size l (fst p)"
  using round_up_le [OF assms(4) slot_payload_aligned [OF assms(2,3)]] by (simp add: length_slot_image [OF assms(1)] slot_size_def)

lemma live_header_fits:
  assumes "chunk_id_ok c" "0 < len" "len \<le> unat (slot_payload l (fst p))"
  shows "header_ok (live_header c (lane_record l drive p gen len v) ident)"
    "slot_header_matches_geometry (live_header c (lane_record l drive p gen len v) ident) (geometry_of l p)"
    "unat (logical_length (lane_record l drive p gen len v)) = len"
proof -
  have n: "len < 2 ^ 32" using assms(3) u32_less [of "slot_payload l (fst p)"] by linarith
  then show "unat (logical_length (lane_record l drive p gen len v)) = len" by (simp add: lane_record_def unat_of_nat)
  show "header_ok (live_header c (lane_record l drive p gen len v) ident)"
    using assms(1) by (simp add: header_ok_def live_header_def lane_record_def)
  show "slot_header_matches_geometry (live_header c (lane_record l drive p gen len v) ident) (geometry_of l p)"
    using n assms(2,3) by (simp add: slot_header_matches_geometry_def live_header_def lane_record_def geometry_of_def geometry_at_def
        word_less_nat_alt word_le_nat_alt unat_of_nat)
qed

end
