(* ===== verification/Kix_Publish.thy ===== *)
theory Kix_Publish
  imports Kix_Lanes
begin

text \<open>
  Publication on chunk media: a successful write or tombstone changes the lane it addresses and no
  other (locale \<open>lane_store\<close>), an interrupted one leaves every other lane as it was. On top of that,
  the properties of chunk media: what a rebuild returns, that an acknowledged payload survives a
  restart, that an interrupted overwrite does not harm the published copy, and how a deleted chunk can
  come back.
\<close>

section \<open>One operation, one lane\<close>

definition record_lane :: "ChunkMediaLayoutSpec \<Rightarrow> LocationRecord \<Rightarrow> (nat \<times> nat) option" where
  "record_lane l r =
     (case slot_address_for_record l r of Inr a \<Rightarrow> Some (unat (slot_index a), unat (publication_lane a)) | Inl _ \<Rightarrow> None)"

lemma record_lane_is_lane: "layout_fits l \<Longrightarrow> record_lane l r = Some p \<Longrightarrow> is_lane l p"
  by (auto simp: record_lane_def slot_address_iff is_lane_def word_less_nat_alt split: sum.splits)

lemma record_lane_fits:
  assumes "layout_fits l" "record_lane l r = Some p"
  shows "record_fits r (slot_kind l (fst p)) (slot_payload l (fst p))" "unat (physical_offset r) = slot_start l (fst p) (snd p) + 4096"
  using assms by (auto simp: record_lane_def slot_address_iff split: sum.splits)

lemma record_lane_of_lane_record:
  assumes "layout_fits l" "is_lane l p" "0 < len" "len \<le> unat (slot_payload l (fst p))"
  shows "record_lane l (lane_record l drive p gen len c) = Some p"
proof -
  have "fst p < 2 ^ 64" "snd p < 2 ^ 64"
    using assms(2) unsigned_less [of "key_slots l", where ?'a = nat] by (auto simp: is_lane_def)
  then show ?thesis by (simp add: record_lane_def lane_record_address [OF assms] unat_of_nat prod_eq_iff)
qed

lemma record_fits_generation [simp]: "record_fits (r\<lparr>generation := gen\<rparr>) k b = record_fits r k b"
  by (simp add: record_fits_def)

lemma slot_address_generation:
  assumes "layout_fits l"
  shows "slot_address_for_record l (r\<lparr>generation := gen\<rparr>) = slot_address_for_record l r"
proof -
  have v: "validate_layout l = Inr ()" using assms by (simp add: layout_fits_def)
  have "pos_of l (r\<lparr>generation := gen\<rparr>) = pos_of l r" by (cases "layout_kind l") (simp_all add: pos_of_def Let_def)
  then show ?thesis by (simp add: slot_address_nat [OF v])
qed

lemma tombstone_run:
  assumes fits: "span_fits (cfg_span config) (sb_layout sb)" and c: "chunk_id_ok c"
  shows "write_chunk_media_tombstone_with_file crc config sb c r gen =
    (case record_lane (sb_layout sb) r of
       None \<Rightarrow> st_err InvalidInput
     | Some p \<Rightarrow> st_bind (commit_lane crc (lane_off (cfg_span config) (sb_layout sb) p) (tombstone_header c (r\<lparr>generation := gen\<rparr>)) [] Barrier) (\<lambda>_. st_ret ()))"
proof (cases "slot_address_for_record (sb_layout sb) r")
  case (Inl e)
  have "validate_layout (sb_layout sb) = Inr ()" using fits by (simp add: span_fits_def layout_fits_def)
  from Inl slot_address_nat [OF this, of r] have "e = InvalidInput" by (auto simp: address_of_def split: option.splits if_splits)
  with Inl show ?thesis
    by (simp add: write_chunk_media_tombstone_with_file_def slot_geometry_for_record_def record_lane_def
        slot_address_generation [OF span_fits_layout [OF fits]] Let_def)
next
  case (Inr a)
  let ?l = "sb_layout sb" and ?p = "(unat (slot_index a), unat (publication_lane a))" and ?t = "r\<lparr>generation := gen\<rparr>"
  have lf: "layout_fits ?l" using fits by (rule span_fits_layout)
  have rl: "record_lane ?l r = Some ?p" using Inr by (simp add: record_lane_def)
  have p: "is_lane ?l ?p" by (rule record_lane_is_lane [OF lf rl])
  have g: "slot_geometry_for_record ?l ?t = Inr (geometry_at (of_nat (slot_start ?l (fst ?p) (snd ?p))) (slot_kind ?l (fst ?p)) (slot_payload ?l (fst ?p)))"
    using lane_geometry [OF lf p] by (simp add: slot_geometry_for_record_def slot_address_generation [OF lf] Inr)
  have i: "slot_image crc (tombstone_header c ?t) [] = slot_block crc 4096 (tombstone_header c ?t)"
    by (simp add: slot_image_def resize_def)
  show ?thesis
    using g rl lane_absolute(1,2) [OF fits p] i
    by (simp add: write_chunk_media_tombstone_with_file_def Let_def media_zeroed_small encode_slot_header_block geometry_at_def commit_lane_def
        st_bind_assoc st_bind_unit [unfolded st_ret_def])
qed

lemma media_ready_layout: "media_ready crc span sb d \<Longrightarrow> span_fits span (sb_layout sb)" "media_ready crc span sb d \<Longrightarrow> layout_fits (sb_layout sb)"
  by (auto simp: media_ready_def media_on_def span_fits_def)

lemma media_ready_cong:
  "dev_len d' = dev_len d \<Longrightarrow> has_superblock crc span (dev_bytes d') sb = has_superblock crc span (dev_bytes d) sb \<Longrightarrow>
     media_ready crc span sb d' = media_ready crc span sb d"
  by (simp add: media_ready_def media_on_def span_resolves_def cong: option.case_cong)

lemma commit_on_lane:
  assumes run: "commit_lane crc (lane_off span (sb_layout sb) p) h payload durability d = (r, d')"
    and m: "media_ready crc span sb d" and p: "is_lane (sb_layout sb) p" and c: "chunk_id_ok (sh_chunk_id h)"
    and len: "length payload \<le> unat (slot_payload (sb_layout sb) (fst p))"
  shows "media_ready crc span sb d'"
    "\<And>q. is_lane (sb_layout sb) q \<Longrightarrow> q \<noteq> p \<Longrightarrow> lane_bytes span (sb_layout sb) (dev_bytes d') q = lane_bytes span (sb_layout sb) (dev_bytes d) q"
    "r = Inr x \<Longrightarrow> x = sh_record h \<and> (durability = Barrier \<longrightarrow> dev_durable d' = dev_bytes d')
       \<and> dev_bytes d' = store_bytes (dev_bytes d) (lane_off span (sb_layout sb) p) (slot_image crc h payload)"
proof -
  let ?l = "sb_layout sb" and ?i = "slot_image crc h payload"
  have li: "length ?i \<le> slot_size ?l (fst p)" by (rule slot_image_inside [OF c media_ready_layout(2) [OF m] p len])
  then have "lane_off span ?l p + length ?i \<le> dev_len d" using lane_inside [OF _ p, of span d] m by (auto simp: media_ready_def)
  note cases = commit_lane_cases [OF run this]
  obtain k where k: "dev_bytes d' = store_bytes (dev_bytes d) (lane_off span ?l p) (take k ?i)" using cases(3) by blast
  show "media_ready crc span sb d'"
    using m media_ready_cong [OF cases(1), of crc span sb] superblock_store_lane [OF p] k by simp
  show "lane_bytes span ?l (dev_bytes d') q = lane_bytes span ?l (dev_bytes d) q" if "is_lane ?l q" "q \<noteq> p" for q
    using lane_bytes_store_other [OF p that(1), of "take k ?i" span "dev_bytes d"] that(2) li k by auto
  show "r = Inr x \<Longrightarrow> x = sh_record h \<and> (durability = Barrier \<longrightarrow> dev_durable d' = dev_bytes d')
      \<and> dev_bytes d' = store_bytes (dev_bytes d) (lane_off span ?l p) ?i"
    using cases(4) by blast
qed

text \<open>A payload write is refused before it touches the device, or it is a commit to the chosen lane.\<close>

lemma write_payload_cases:
  assumes "write_chunk_media_payload_with_file crc config sb slot sel c gen ident payload durability d = (r, d')"
    and "media_ready crc (cfg_span config) sb d" "chunk_id_ok c"
  obtains (refused) e where "r = Inl e" "d' = d"
  | (commit) j where "slot < key_slots (sb_layout sb)" "chosen_lane (sb_layout sb) slot sel = Inr j" "is_lane (sb_layout sb) (unat slot, unat j)"
      "0 < length payload" "length payload \<le> unat (slot_payload (sb_layout sb) (unat slot))"
      "commit_lane crc (lane_off (cfg_span config) (sb_layout sb) (unat slot, unat j))
         (live_header c (lane_record (sb_layout sb) (cfg_drive_id config) (unat slot, unat j) gen (length payload) (crc payload)) ident)
         payload durability d = (r, d')"
proof (cases "slot \<ge> key_slots (sb_layout sb)")
  case True
  then show thesis using assms refused by (auto simp: write_payload_run [OF media_ready_layout(1) [OF assms(2)] assms(3)])
next
  case False
  note run = assms(1) [unfolded write_payload_run [OF media_ready_layout(1) [OF assms(2)] assms(3)]]
  show thesis
  proof (cases "chosen_lane (sb_layout sb) slot sel")
    case (Inl e)
    then show thesis using run False refused by auto
  next
    case (Inr j)
    have "is_lane (sb_layout sb) (unat slot, unat j)"
      using False chosen_lane_less [OF Inr] by (simp add: is_lane_def word_less_nat_alt not_le)
    then show thesis using run False Inr refused commit [OF _ Inr] by (auto split: if_splits)
  qed
qed

text \<open>The device after a publication of header \<open>h\<close> in lane \<open>p\<close>.\<close>

definition published :: "(u8 list \<Rightarrow> u32) \<Rightarrow> ChunkMediaSpanConfig \<Rightarrow> ChunkMediaSuperblock \<Rightarrow> device \<Rightarrow> nat \<times> nat \<Rightarrow> ChunkMediaSlotHeader \<Rightarrow> device \<Rightarrow> bool" where
  "published crc span sb d p h d' \<longleftrightarrow>
     is_lane (sb_layout sb) p \<and> record_lane (sb_layout sb) (sh_record h) = Some p
     \<and> media_ready crc span sb d' \<and> lane_at crc span (sb_layout sb) (dev_bytes d') p = LaneHolds h
     \<and> (\<forall>q. is_lane (sb_layout sb) q \<longrightarrow> q \<noteq> p \<longrightarrow>
           lane_bytes span (sb_layout sb) (dev_bytes d') q = lane_bytes span (sb_layout sb) (dev_bytes d) q)"

lemma publishedD:
  assumes "published crc span sb d p h d'"
  shows "is_lane (sb_layout sb) p" "record_lane (sb_layout sb) (sh_record h) = Some p" "media_ready crc span sb d'"
    "lane_at crc span (sb_layout sb) (dev_bytes d') p = LaneHolds h"
    "is_lane (sb_layout sb) q \<Longrightarrow> q \<noteq> p \<Longrightarrow> lane_at crc span (sb_layout sb) (dev_bytes d') q = lane_at crc span (sb_layout sb) (dev_bytes d) q"
  using assms unfolding published_def by (blast, blast, blast, blast, metis lane_at_def)

lemma write_payload_ok:
  assumes "write_chunk_media_payload_with_file crc config sb slot sel c gen ident payload durability d = (Inr r, d')"
    and m: "media_ready crc (cfg_span config) sb d" and c: "chunk_id_ok c"
  obtains p where "published crc (cfg_span config) sb d p (live_header c r ident) d'" "fst p = unat slot"
    "r = lane_record (sb_layout sb) (cfg_drive_id config) p gen (length payload) (crc payload)"
    "chosen_lane (sb_layout sb) slot sel = Inr (of_nat (snd p))"
    "lane_payload (cfg_span config) (sb_layout sb) (dev_bytes d') p r = payload"
    "durability = Barrier \<longrightarrow> dev_durable d' = dev_bytes d'"
  using assms
proof (cases rule: write_payload_cases)
  case (commit j)
  let ?l = "sb_layout sb" and ?p = "(unat slot, unat j)" and ?span = "cfg_span config"
  let ?r = "lane_record ?l (cfg_drive_id config) ?p gen (length payload) (crc payload)"
  let ?h = "live_header c ?r ident"
  have hc: "chunk_id_ok (sh_chunk_id ?h)" by (simp add: live_header_def c)
  have len: "length payload \<le> unat (slot_payload ?l (fst ?p))" using commit(5) by simp
  have lf: "layout_fits ?l" by (rule media_ready_layout(2) [OF m])
  note on = commit_on_lane [OF commit(6) m commit(3) hc len] and fits = live_header_fits [OF c commit(4) len]
  have r: "r = ?r" and bts: "dev_bytes d' = store_bytes (dev_bytes d) (lane_off ?span ?l ?p) (slot_image crc ?h payload)"
    and ba: "durability = Barrier \<longrightarrow> dev_durable d' = dev_bytes d'"
    using on(3) by (auto simp: live_header_def)
  have li: "length (slot_image crc ?h payload) \<le> slot_size ?l (fst ?p)" by (rule slot_image_inside [OF hc lf commit(3) len])
  have hr: "sh_record ?h = ?r" "checksum ?r = crc payload" by (simp_all add: live_header_def lane_record_def)
  have "lane_at crc ?span ?l (dev_bytes d') ?p = LaneHolds ?h"
    unfolding bts by (rule lane_holds_image [OF lf commit(3) fits(1,2) _ li]) (use commit(4) fits(3) hr in auto)
  moreover have "lane_payload ?span ?l (dev_bytes d') ?p ?r = payload"
  proof -
    have "4096 + length payload \<le> length (slot_image crc ?h payload)"
      using round_up_ge [of "length payload"] by (simp add: length_slot_image [OF hc])
    from bytes.rd_wr_inside [OF this, of "dev_bytes d" "lane_off ?span ?l ?p"] show ?thesis
      using round_up_ge [of "length payload"] hc by (simp add: lane_payload_def fits(3) bts slot_image_def)
  qed
  ultimately show thesis
    using on(1,2) commit(2,3) record_lane_of_lane_record [OF lf commit(3,4) len] ba
    by (intro that [of ?p]) (simp_all add: r published_def hr(1))
qed simp

lemma tombstone_ok:
  assumes "write_chunk_media_tombstone_with_file crc config sb c r gen d = (Inr (), d')"
    and m: "media_ready crc (cfg_span config) sb d" and c: "chunk_id_ok c"
  obtains p where "published crc (cfg_span config) sb d p (tombstone_header c (r\<lparr>generation := gen\<rparr>)) d'"
    "record_lane (sb_layout sb) r = Some p" "dev_durable d' = dev_bytes d'"
proof -
  let ?l = "sb_layout sb" and ?span = "cfg_span config" and ?h = "tombstone_header c (r\<lparr>generation := gen\<rparr>)"
  have lf: "layout_fits ?l" by (rule media_ready_layout(2) [OF m])
  obtain p x where p: "record_lane ?l r = Some p"
    and run: "commit_lane crc (lane_off ?span ?l p) ?h [] Barrier d = (Inr x, d')"
    using assms(1) by (auto simp: tombstone_run [OF media_ready_layout(1) [OF m] c] st_bind_eq_Inr split: option.splits)
  have pl: "is_lane ?l p" by (rule record_lane_is_lane [OF lf p])
  have hc: "chunk_id_ok (sh_chunk_id ?h)" by (simp add: tombstone_header_def c)
  note on = commit_on_lane [OF run m pl hc]
  note rf = record_lane_fits [OF lf p]
  have "physical_offset r = of_nat (slot_start ?l (fst p) (snd p) + 4096)"
    using rf(2) lane_start_64(3) [OF lf pl] by (simp only: word_unat_eq_iff)
  then have "slot_header_matches_geometry ?h (geometry_of ?l p)"
    using rf(1) by (auto simp: slot_header_matches_geometry_def tombstone_header_def geometry_of_def geometry_at_def record_fits_def word_gt_0)
  then have "lane_at crc ?span ?l (dev_bytes d') p = LaneHolds ?h"
    using on(3) slot_image_inside [OF hc lf pl, of "[]"] hc
    by (auto intro!: lane_holds_image [OF lf pl] simp: header_ok_def tombstone_header_def)
  moreover have "record_lane ?l (sh_record ?h) = Some p" using p by (simp add: record_lane_def tombstone_header_def slot_address_generation [OF lf])
  ultimately show thesis using p pl on by (intro that [of p]) (auto simp: published_def)
qed

section \<open>The contract of a store of lanes\<close>

text \<open>
  What the clients of chunk media rely on: a publication makes its lane show what was published,
  touches no other lane, and leaves the store usable.
\<close>

fun publishes :: "('s \<Rightarrow> 'l \<Rightarrow> 'v \<Rightarrow> 's \<Rightarrow> bool) \<Rightarrow> 's \<Rightarrow> ('l \<times> 'v) list \<Rightarrow> 's \<Rightarrow> bool" where
  "publishes stp s [] s' \<longleftrightarrow> s' = s"
| "publishes stp s ((p, v) # ps) s' \<longleftrightarrow> (\<exists>t. stp s p v t \<and> publishes stp t ps s')"

locale lane_store =
  fixes look :: "'s \<Rightarrow> 'l \<Rightarrow> 'v"
    and usable :: "'s \<Rightarrow> bool"
    and lane :: "'l \<Rightarrow> bool"
    and publish :: "'s \<Rightarrow> 'l \<Rightarrow> 'v \<Rightarrow> 's \<Rightarrow> bool"
  assumes publish_usable: "usable s \<Longrightarrow> publish s p v s' \<Longrightarrow> usable s'"
    and publish_lane: "usable s \<Longrightarrow> publish s p v s' \<Longrightarrow> lane p"
    and publish_same: "usable s \<Longrightarrow> publish s p v s' \<Longrightarrow> look s' p = v"
    and publish_other: "usable s \<Longrightarrow> publish s p v s' \<Longrightarrow> lane q \<Longrightarrow> q \<noteq> p \<Longrightarrow> look s' q = look s q"
begin

lemma run_usable: "publishes publish s ps s' \<Longrightarrow> usable s \<Longrightarrow> usable s'"
proof (induction ps arbitrary: s)
  case (Cons pv ps)
  then show ?case by (cases pv) (auto intro: publish_usable)
qed simp

lemma run_look:
  "publishes publish s ps s' \<Longrightarrow> usable s \<Longrightarrow> lane q \<Longrightarrow>
     look s' q = (case map_of (rev ps) q of Some v \<Rightarrow> v | None \<Rightarrow> look s q)"
proof (induction ps arbitrary: s)
  case (Cons pv ps)
  obtain p v t where x: "pv = (p, v)" "publish s p v t" "publishes publish t ps s'"
    using Cons.prems(1) by (cases pv) auto
  with Cons.IH [OF x(3) publish_usable [OF Cons.prems(2) x(2)] Cons.prems(3)]
  show ?case
    using publish_same [OF Cons.prems(2) x(2)] publish_other [OF Cons.prems(2) x(2) Cons.prems(3)]
    by (auto simp: map_add_def split: option.split)
qed simp

lemma run_untouched: "publishes publish s ps s' \<Longrightarrow> usable s \<Longrightarrow> lane q \<Longrightarrow> q \<notin> fst ` set ps \<Longrightarrow> look s' q = look s q"
  using run_look [of s ps s' q] map_of_eq_None_iff [of "rev ps" q] by simp

end

text \<open>A publication on chunk media: a payload write or a tombstone that reports success, under any schedule.\<close>

definition media_publish :: "(u8 list \<Rightarrow> u32) \<Rightarrow> ChunkMediaWriteConfig \<Rightarrow> ChunkMediaSuperblock \<Rightarrow> device \<Rightarrow> nat \<times> nat \<Rightarrow> lane_view \<Rightarrow> device \<Rightarrow> bool" where
  "media_publish crc config sb d p v d' \<longleftrightarrow>
     (\<exists>slot sel c gen ident payload durability r.
        chunk_id_ok c \<and> write_chunk_media_payload_with_file crc config sb slot sel c gen ident payload durability d = (Inr r, d')
        \<and> record_lane (sb_layout sb) r = Some p \<and> v = LaneHolds (live_header c r ident))
   \<or> (\<exists>c r gen. chunk_id_ok c \<and> write_chunk_media_tombstone_with_file crc config sb c r gen d = (Inr (), d')
        \<and> record_lane (sb_layout sb) r = Some p \<and> v = LaneHolds (tombstone_header c (r\<lparr>generation := gen\<rparr>)))"

lemma media_publish_effect:
  assumes "media_publish crc config sb d p v d'" "media_ready crc (cfg_span config) sb d"
  shows "media_ready crc (cfg_span config) sb d' \<and> is_lane (sb_layout sb) p
    \<and> lane_at crc (cfg_span config) (sb_layout sb) (dev_bytes d') p = v
    \<and> (\<forall>q. is_lane (sb_layout sb) q \<longrightarrow> q \<noteq> p \<longrightarrow>
          lane_at crc (cfg_span config) (sb_layout sb) (dev_bytes d') q = lane_at crc (cfg_span config) (sb_layout sb) (dev_bytes d) q)"
proof -
  have "\<exists>h. v = LaneHolds h \<and> published crc (cfg_span config) sb d p h d'"
    using assms(1) unfolding media_publish_def
  proof (elim disjE exE conjE)
    fix slot sel c gen ident payload durability r
    assume c: "chunk_id_ok c" and w: "write_chunk_media_payload_with_file crc config sb slot sel c gen ident payload durability d = (Inr r, d')"
      and p: "record_lane (sb_layout sb) r = Some p" and v: "v = LaneHolds (live_header c r ident)"
    show ?thesis
    proof (rule write_payload_ok [OF w assms(2) c])
      fix q assume pub: "published crc (cfg_span config) sb d q (live_header c r ident) d'"
      from publishedD(2) [OF pub] p have "q = p" by (simp add: live_header_def)
      with pub v show ?thesis by blast
    qed
  next
    fix c r gen
    assume c: "chunk_id_ok c" and w: "write_chunk_media_tombstone_with_file crc config sb c r gen d = (Inr (), d')"
      and p: "record_lane (sb_layout sb) r = Some p" and v: "v = LaneHolds (tombstone_header c (r\<lparr>generation := gen\<rparr>))"
    show ?thesis by (rule tombstone_ok [OF w assms(2) c]) (use p v in auto)
  qed
  then obtain h where v: "v = LaneHolds h" and pub: "published crc (cfg_span config) sb d p h d'" by blast
  show ?thesis using publishedD [OF pub] v by simp
qed

interpretation media: lane_store "\<lambda>d. lane_at crc (cfg_span config) (sb_layout sb) (dev_bytes d)" "media_ready crc (cfg_span config) sb"
    "is_lane (sb_layout sb)" "media_publish crc config sb" for crc config sb
  by unfold_locales (auto dest: media_publish_effect)

section \<open>Properties of chunk media\<close>

lemma rebuild_entries:
  assumes "quiet d" "media_ready crc span sb d"
  obtains res latest where "rebuild_from_chunk_media crc span d = (Inr res, d)" "rb_superblock res = sb"
    "latest_inv (media_headers crc span (sb_layout sb) (dev_bytes d)) latest"
    "\<forall>c. map_of (rb_entries res) c = (case map_of latest c of Some h \<Rightarrow> if sh_state h = Live then Some (sh_record h) else None | None \<Rightarrow> None)"
    "\<forall>c. map_of (rb_identities res) c = (case map_of latest c of Some h \<Rightarrow> if sh_state h = Live then Some (sh_identity h) else None | None \<Rightarrow> None)"
proof -
  have "media_on span (sb_layout sb) d" using assms(2) by (simp add: media_ready_def)
  from scan_latest [OF this assms(1), of crc] obtain latest summary where
    scan: "rebuild_scan crc span (sb_layout sb) (scan_order (unat (key_slots (sb_layout sb)))) ([], empty_summary) d = (Inr (latest, summary), d)"
    and inv: "latest_inv (media_headers crc span (sb_layout sb) (dev_bytes d)) latest" .
  have dist: "distinct (map fst latest)" using inv by (simp add: latest_inv_def)
  define res where "res = \<lparr>rb_superblock = sb,
        rb_entries = fold (\<lambda>(c, h). AList.update c (sh_record h)) (live_headers latest) [],
        rb_identities = fold (\<lambda>(c, h). AList.update c (sh_identity h)) (live_headers latest) [], rb_summary = summary\<rparr>"
  have "rebuild_from_chunk_media crc span d = (Inr res, d)"
    by (simp add: rebuild_from_chunk_media_def st_bind_run read_superblock_quiet [OF assms] media_open_file_def syscall_quiet [OF assms(1)]
        media_zeroed_small scan res_def)
  then show thesis
    by (rule that [OF _ _ inv])
      (simp_all add: res_def map_of_fold_update_distinct [OF distinct_live_headers [OF dist]] map_of_live_headers [OF dist] split: option.split)
qed

subsection \<open>Operations on a device without interference\<close>

lemma commit_lane_quiet:
  assumes "quiet d" "dev_block d \<Longrightarrow> off + length (slot_image crc h payload) \<le> dev_len d"
  shows "\<exists>d'. commit_lane crc off h payload durability d = (Inr (sh_record h), d') \<and> quiet d'"
  using direct_write_exact_quiet [OF assms] assms(1)
  by (cases durability) (simp_all add: commit_lane_def st_bind_run fdatasync_quiet)

lemma commit_inside_quiet:
  assumes "quiet d" "media_ready crc span sb d" "is_lane (sb_layout sb) p" "chunk_id_ok (sh_chunk_id h)"
    "length payload \<le> unat (slot_payload (sb_layout sb) (fst p))"
  shows "\<exists>d'. commit_lane crc (lane_off span (sb_layout sb) p) h payload durability d = (Inr (sh_record h), d') \<and> quiet d'"
  using slot_image_inside [OF assms(4) media_ready_layout(2) [OF assms(2)] assms(3,5), of crc] lane_inside [of span "sb_layout sb" d p] assms(2,3)
  by (intro commit_lane_quiet [OF assms(1)]) (auto simp: media_ready_def)

lemma write_payload_quiet:
  assumes "quiet d" "media_ready crc (cfg_span config) sb d" "chunk_id_ok c" "chosen_lane (sb_layout sb) slot sel = Inr j"
    "slot < key_slots (sb_layout sb)" "payload \<noteq> []" "length payload \<le> unat (slot_payload (sb_layout sb) (unat slot))"
  shows "\<exists>d'. write_chunk_media_payload_with_file crc config sb slot sel c gen ident payload durability d =
    (Inr (lane_record (sb_layout sb) (cfg_drive_id config) (unat slot, unat j) gen (length payload) (crc payload)), d') \<and> quiet d'"
proof -
  have "is_lane (sb_layout sb) (unat slot, unat j)"
    using assms(5) chosen_lane_less [OF assms(4)] by (simp add: is_lane_def word_less_nat_alt)
  from commit_inside_quiet [OF assms(1,2) this, of "live_header c (lane_record (sb_layout sb) (cfg_drive_id config) (unat slot, unat j) gen (length payload) (crc payload)) ident" payload durability]
  show ?thesis
    using assms by (simp add: write_payload_run [OF media_ready_layout(1) [OF assms(2)] assms(3)] live_header_def)
qed

lemma tombstone_quiet:
  assumes "quiet d" "media_ready crc (cfg_span config) sb d" "chunk_id_ok c" "record_lane (sb_layout sb) r = Some p"
  shows "\<exists>d'. write_chunk_media_tombstone_with_file crc config sb c r gen d = (Inr (), d') \<and> quiet d'"
proof -
  have "is_lane (sb_layout sb) p" by (rule record_lane_is_lane [OF media_ready_layout(2) [OF assms(2)] assms(4)])
  from commit_inside_quiet [OF assms(1,2) this, of "tombstone_header c (r\<lparr>generation := gen\<rparr>)" "[]" Barrier]
  obtain d' where "commit_lane crc (lane_off (cfg_span config) (sb_layout sb) p) (tombstone_header c (r\<lparr>generation := gen\<rparr>)) [] Barrier d
      = (Inr (r\<lparr>generation := gen\<rparr>), d')" "quiet d'"
    using assms(3) by (auto simp: tombstone_header_def)
  then show ?thesis
    using assms(4) by (simp add: tombstone_run [OF media_ready_layout(1) [OF assms(2)] assms(3)] st_bind_run)
qed

subsection \<open>A small medium\<close>

definition sample_superblock :: ChunkMediaSuperblock where
  "sample_superblock = \<lparr>sb_version = CHUNK_MEDIA_VERSION, sb_layout = sample_layout, sb_media_span_bytes = 86016\<rparr>"

definition sample_media_config :: ChunkMediaWriteConfig where
  "sample_media_config = \<lparr>cfg_drive_id = 3, cfg_span = \<lparr>span_offset_bytes = 0, span_len_bytes = None\<rparr>, cfg_layout = sample_layout\<rparr>"

definition sample_media :: "(u8 list \<Rightarrow> u32) \<Rightarrow> device" where
  "sample_media crc =
     \<lparr>dev_bytes = store_bytes (\<lambda>_. 0) 0 (superblock_block crc sample_superblock),
      dev_durable = store_bytes (\<lambda>_. 0) 0 (superblock_block crc sample_superblock),
      dev_len = 86016, dev_block = True, dev_sched = []\<rparr>"

definition sample_chunk :: "u8 \<Rightarrow> ChunkId" where
  "sample_chunk b = ChunkId (replicate 32 b)"

lemma sample_chunk_ok [simp]: "chunk_id_ok (sample_chunk b)"
  by (simp add: chunk_id_ok_def sample_chunk_def)

lemma sample_group_start: "group_start sample_layout 4 = 86016"
  by (simp add: group_start_def sample_layout_def extent_size_def packed_size_def)

lemma length_superblock_block [simp]: "length (superblock_block crc sb) = 4096"
  by (simp add: superblock_block_def Let_def)

lemma sample_media_quiet [simp]: "quiet (sample_media crc)"
  by (simp add: sample_media_def)

lemma sample_media_ready: "media_ready crc (cfg_span sample_media_config) sample_superblock (sample_media crc)"
proof -
  have "has_superblock crc (cfg_span sample_media_config) (dev_bytes (sample_media crc)) sample_superblock"
    using load_store_same [of "\<lambda>_. 0" 0 "superblock_block crc sample_superblock"] decode_superblock_block [of sample_superblock crc]
    by (simp add: has_superblock_def sample_media_config_def sample_media_def sample_superblock_def)
  moreover have "span_resolves (cfg_span sample_media_config) (sample_media crc) 86016"
    by (simp add: span_resolves_def sample_media_config_def sample_media_def)
  moreover have "media_on (cfg_span sample_media_config) sample_layout (sample_media crc)"
    using sample_layout_fits sample_group_start
    by (simp add: media_on_def span_fits_def sample_media_config_def sample_media_def sample_layout_def [THEN arg_cong, of key_slots])
  ultimately show ?thesis by (auto simp: media_ready_def sample_superblock_def)
qed

lemma sample_media_empty: "is_lane sample_layout p \<Longrightarrow> lane_at crc (cfg_span sample_media_config) sample_layout (dev_bytes (sample_media crc)) p = LaneEmpty"
proof -
  have "load_bytes (dev_bytes (sample_media crc)) (lane_off (cfg_span sample_media_config) sample_layout p) 4096 = zeros 4096"
    using group_start_ge [of sample_layout "fst p"]
    by (intro nth_equalityI) (auto simp: sample_media_def store_bytes_def lane_off_def slot_start_def)
  moreover have "is_zero_block (zeros 4096)" using set_zeros [of 4096] by (auto simp: is_zero_block_def list_all_iff)
  ultimately show ?thesis by (simp add: lane_at_def view_of_bytes_def)
qed


subsection \<open>The properties\<close>

lemma load_bytes_eqD: "load_bytes f off n = load_bytes g off n \<Longrightarrow> off \<le> i \<Longrightarrow> i < off + n \<Longrightarrow> f i = g i"
  using nth_load_bytes [of "i - off" n f off] nth_load_bytes [of "i - off" n g off] by simp

lemma lane_payload_bytes:
  "slot_header_matches_geometry h (geometry_of l p) \<Longrightarrow>
     lane_payload span l f p (sh_record h) = take (unat (logical_length (sh_record h))) (drop 4096 (lane_bytes span l f p))"
  using matches_geometryD(4) [of h l p] by (simp add: lane_payload_def min_absorb1)

text \<open>A write against the current record goes to the other lane of the slot.\<close>

lemma against_current_other_lane:
  assumes "chosen_lane l slot (AgainstCurrent (Some r)) = Inr j" "fst p = unat slot" "record_lane l r = Some p"
  shows "j \<noteq> of_nat (snd p)"
proof -
  obtain a where a: "slot_address_for_record l r = Inr a" "p = (unat (slot_index a), unat (publication_lane a))"
    using assms(3) by (auto simp: record_lane_def split: sum.splits)
  have "slot_index a = slot" using a(2) assms(2) by (simp add: word_unat_eq_iff)
  then have "j = (publication_lane a + 1) mod 2" using assms(1) a(1) by (simp add: chosen_lane_def next_publication_lane_def)
  moreover have "publication_lane a \<noteq> (publication_lane a + 1) mod 2"
  proof
    assume e: "publication_lane a = (publication_lane a + 1) mod 2"
    also have "\<dots> < 2" by (rule word_mod_less_divisor) simp
    finally have "publication_lane a = 0 \<or> publication_lane a = 1" by (simp add: word_less_nat_alt word_unat_eq_iff) linarith
    then show False using e by auto
  qed
  ultimately show ?thesis using a(2) by simp
qed

lemma latest_invD:
  assumes "latest_inv H latest" "h \<in> H"
  shows "\<exists>x. map_of latest (sh_chunk_id h) = Some x \<and> beats x h \<and> x \<in> H \<and> sh_chunk_id x = sh_chunk_id h"
  using assms unfolding latest_inv_def by blast

text \<open>A header whose chunk is nowhere else at its generation or above decides the chunk's entry.\<close>

lemma rebuild_finds:
  assumes "quiet d" "media_ready crc span sb d" and p: "is_lane (sb_layout sb) p" "lane_at crc span (sb_layout sb) (dev_bytes d) p = LaneHolds h"
    and low: "\<forall>q x. is_lane (sb_layout sb) q \<and> q \<noteq> p \<and> lane_at crc span (sb_layout sb) (dev_bytes d) q = LaneHolds x
      \<and> sh_chunk_id x = sh_chunk_id h \<longrightarrow> generation (sh_record x) < generation (sh_record h)"
  shows "\<exists>res. rebuild_from_chunk_media crc span d = (Inr res, d)
    \<and> map_of (rb_entries res) (sh_chunk_id h) = (if sh_state h = Live then Some (sh_record h) else None)
    \<and> map_of (rb_identities res) (sh_chunk_id h) = (if sh_state h = Live then Some (sh_identity h) else None)"
proof -
  obtain res latest where res: "rebuild_from_chunk_media crc span d = (Inr res, d)" "rb_superblock res = sb"
    "latest_inv (media_headers crc span (sb_layout sb) (dev_bytes d)) latest"
    "\<forall>c. map_of (rb_entries res) c = (case map_of latest c of Some h \<Rightarrow> if sh_state h = Live then Some (sh_record h) else None | None \<Rightarrow> None)"
    "\<forall>c. map_of (rb_identities res) c = (case map_of latest c of Some h \<Rightarrow> if sh_state h = Live then Some (sh_identity h) else None | None \<Rightarrow> None)"
    by (rule rebuild_entries [OF assms(1,2)])
  have "h \<in> media_headers crc span (sb_layout sb) (dev_bytes d)" using p unfolding media_headers_def by blast
  from latest_invD [OF res(3) this] obtain x where x: "map_of latest (sh_chunk_id h) = Some x" "beats x h"
    "x \<in> media_headers crc span (sb_layout sb) (dev_bytes d)" "sh_chunk_id x = sh_chunk_id h" by blast
  then obtain q where q: "is_lane (sb_layout sb) q" "lane_at crc span (sb_layout sb) (dev_bytes d) q = LaneHolds x"
    unfolding media_headers_def by blast
  have "q = p"
  proof (rule ccontr)
    assume "q \<noteq> p"
    with low q x(4) have "generation (sh_record x) < generation (sh_record h)" by blast
    with x(2) show False by (auto simp: beats_def)
  qed
  then have "x = h" using q(2) p(2) by simp
  then show ?thesis using res(1,4,5) x(1) by simp
qed



text \<open>
  C9. What a rebuild returns. On media that have a superblock and room for its layout, the scan
  succeeds and leaves the device alone; a chunk gets an entry exactly if some lane holds a valid live
  header of it that no other lane beats, neither by a higher generation nor by a tombstone of the same
  generation. Its entry and its identity come from such a header, and a chunk without an entry has no
  valid header or only headers that a tombstone covers.
\<close>

theorem rebuild_latest_generation_wins:
  assumes "quiet d" "media_ready crc span sb d"
  defines "H \<equiv> \<lambda>c. {h \<in> media_headers crc span (sb_layout sb) (dev_bytes d). sh_chunk_id h = c}"
  shows "\<exists>res. rebuild_from_chunk_media crc span d = (Inr res, d) \<and> rb_superblock res = sb
    \<and> (\<forall>c. case map_of (rb_entries res) c of
          Some r \<Rightarrow> \<exists>h \<in> H c. sh_state h = Live \<and> sh_record h = r \<and> map_of (rb_identities res) c = Some (sh_identity h)
            \<and> (\<forall>h' \<in> H c. generation (sh_record h') < generation r \<or> (generation (sh_record h') = generation r \<and> sh_state h' = Live))
        | None \<Rightarrow> H c = {} \<or> (\<exists>t \<in> H c. sh_state t = Deleted \<and> (\<forall>h \<in> H c. generation (sh_record h) \<le> generation (sh_record t))))"
proof -
  from rebuild_entries [OF assms(1,2)] obtain res latest where res:
    "rebuild_from_chunk_media crc span d = (Inr res, d)" "rb_superblock res = sb"
    "latest_inv (media_headers crc span (sb_layout sb) (dev_bytes d)) latest"
    "\<forall>c. map_of (rb_entries res) c = (case map_of latest c of Some h \<Rightarrow> if sh_state h = Live then Some (sh_record h) else None | None \<Rightarrow> None)"
    "\<forall>c. map_of (rb_identities res) c = (case map_of latest c of Some h \<Rightarrow> if sh_state h = Live then Some (sh_identity h) else None | None \<Rightarrow> None)"
    by blast
  have won: "h \<in> H c \<and> (\<forall>h' \<in> H c. beats h h')" if "map_of latest c = Some h" for c h
    using res(3) that by (fastforce simp: latest_inv_def H_def)
  have none: "H c = {}" if "map_of latest c = None" for c
    using res(3) that by (auto simp: latest_inv_def H_def)
  have "case map_of (rb_entries res) c of
          Some r \<Rightarrow> \<exists>h \<in> H c. sh_state h = Live \<and> sh_record h = r \<and> map_of (rb_identities res) c = Some (sh_identity h)
            \<and> (\<forall>h' \<in> H c. generation (sh_record h') < generation r \<or> (generation (sh_record h') = generation r \<and> sh_state h' = Live))
        | None \<Rightarrow> H c = {} \<or> (\<exists>t \<in> H c. sh_state t = Deleted \<and> (\<forall>h \<in> H c. generation (sh_record h) \<le> generation (sh_record t)))" for c
  proof (cases "map_of latest c")
    case None
    then show ?thesis using none by (simp add: res(4))
  next
    case (Some h)
    then show ?thesis using won [OF Some] ChunkMediaEntryState.exhaust
      by (cases "sh_state h") (auto simp: res(4,5) beats_def intro!: bexI [of _ h])
  qed
  with res(1,2) show ?thesis by blast
qed

theorem rebuild_latest_generation_wins_witness:
  "\<exists>res. rebuild_from_chunk_media (\<lambda>_. 0) (cfg_span sample_media_config) (sample_media (\<lambda>_. 0)) = (Inr res, sample_media (\<lambda>_. 0))
    \<and> rb_superblock res = sample_superblock"
  using rebuild_latest_generation_wins [OF sample_media_quiet sample_media_ready] by blast



text \<open>
  C7. An interrupted overwrite does no harm. Let lane \<open>p\<close> of a slot hold the published live copy \<open>r0\<close> of a chunk
  and let a payload write against \<open>r0\<close> run on that slot, with any result under any schedule. Whatever mixture of old and
  new bytes a crash leaves, the published copy is still read back byte for byte.
\<close>

theorem interrupted_overwrite_keeps_published:
  assumes "media_ready crc (cfg_span config) sb d" "chunk_id_ok c"
    and "is_lane (sb_layout sb) p" "fst p = unat slot"
    and "lane_at crc (cfg_span config) (sb_layout sb) (dev_bytes d) p = LaneHolds (live_header c0 r0 i0)"
    and "record_lane (sb_layout sb) r0 = Some p"
    and "write_chunk_media_payload_with_file crc config sb slot (AgainstCurrent (Some r0)) c gen ident payload durability d = (res, d')"
    and "torn_between (dev_bytes d) (dev_bytes d') g"
  shows "read_chunk_media_payload_with_file crc (cfg_span config) c0 r0 (d'\<lparr>dev_bytes := g, dev_sched := []\<rparr>) =
    (Inr (lane_payload (cfg_span config) (sb_layout sb) (dev_bytes d) p r0), d'\<lparr>dev_bytes := g, dev_sched := []\<rparr>)"
proof -
  let ?l = "sb_layout sb" and ?span = "cfg_span config" and ?h = "live_header c0 r0 i0" and ?e = "d'\<lparr>dev_bytes := g, dev_sched := []\<rparr>"
  have hf: "sh_chunk_id ?h = c0" "sh_record ?h = r0" "sh_state ?h = Live" by (simp_all add: live_header_def)
  have same: "media_ready crc ?span sb d' \<and> lane_bytes ?span ?l (dev_bytes d') p = lane_bytes ?span ?l (dev_bytes d) p"
    using assms(7,1,2)
  proof (cases rule: write_payload_cases)
    case (commit j)
    have "j \<noteq> of_nat (snd p)" using commit(2) assms(4,6) by (rule against_current_other_lane)
    then have "p \<noteq> (unat slot, unat j)" by (auto simp: prod_eq_iff)
    moreover have "chunk_id_ok (sh_chunk_id (live_header c r ident))" for r by (simp add: live_header_def assms(2))
    ultimately show ?thesis using commit_on_lane(1,2) [OF commit(6) assms(1) commit(3)] commit(5) assms(3) by simp
  qed (use assms(1) in simp)
  have "g i = dev_bytes d i" if "lane_off ?span ?l p \<le> i" "i < lane_off ?span ?l p + slot_size ?l (fst p)" for i
    using that same assms(8) load_bytes_eqD [of "dev_bytes d'" "lane_off ?span ?l p" "slot_size ?l (fst p)" "dev_bytes d" i]
    unfolding torn_between_def lane_bytes_def by metis
  then have b: "lane_bytes ?span ?l g p = lane_bytes ?span ?l (dev_bytes d) p"
    unfolding lane_bytes_def by (intro load_bytes_cong) auto
  have "lane_payload ?span ?l g p r0 = lane_payload ?span ?l (dev_bytes d) p r0"
    using lane_payload_bytes [OF lane_holdsD(3) [OF assms(5)], of ?span] b hf by (simp del: drop_lane_bytes)
  moreover have "lane_at crc ?span ?l (dev_bytes ?e) p = LaneHolds ?h" using assms(5) b by (simp add: lane_at_def)
  moreover have "media_on ?span ?l ?e" using same by (simp add: media_ready_def media_on_def)
  ultimately show ?thesis using read_payload_lane [of ?span ?l ?e p crc ?h] assms(3) hf by simp
qed

theorem interrupted_overwrite_keeps_published_witness:
  "\<exists>r0 d r' d'. write_chunk_media_payload_with_file (\<lambda>_. 0) sample_media_config sample_superblock 2 (Explicit 1) (sample_chunk 7) 5 default_identity [1, 2, 3] Barrier (sample_media (\<lambda>_. 0)) = (Inr r0, d)
    \<and> write_chunk_media_payload_with_file (\<lambda>_. 0) sample_media_config sample_superblock 2 (AgainstCurrent (Some r0)) (sample_chunk 7) 6 default_identity [9] Deferred (d\<lparr>dev_sched := [IoSectors 1, IoFault OtherError]\<rparr>) = (r', d')
    \<and> read_chunk_media_payload_with_file (\<lambda>_. 0) (cfg_span sample_media_config) (sample_chunk 7) r0 (d'\<lparr>dev_bytes := dev_bytes d', dev_sched := []\<rparr>)
      = (Inr [1, 2, 3], d'\<lparr>dev_bytes := dev_bytes d', dev_sched := []\<rparr>)"
proof -
  let ?w = "write_chunk_media_payload_with_file (\<lambda>_. 0) sample_media_config sample_superblock 2"
  let ?span = "cfg_span sample_media_config"
  have l: "sb_layout sample_superblock = sample_layout" by (simp add: sample_superblock_def)
  have s: "(2 :: u64) < key_slots sample_layout" "slot_payload sample_layout (unat (2 :: u64)) = 8192"
    by (simp_all add: sample_layout_def slot_payload_def slot_kind_def)
  from write_payload_quiet [OF sample_media_quiet sample_media_ready sample_chunk_ok, of 2 "Explicit 1" 1 "[1, 2, 3]" "\<lambda>_. 0" 7 5 default_identity Barrier]
  obtain r0 d where w: "?w (Explicit 1) (sample_chunk 7) 5 default_identity [1, 2, 3] Barrier (sample_media (\<lambda>_. 0)) = (Inr r0, d)"
    using s by (auto simp: l chosen_lane_def)
  obtain p where pub: "published (\<lambda>_. 0) ?span sample_superblock (sample_media (\<lambda>_. 0)) p (live_header (sample_chunk 7) r0 default_identity) d"
    and p2: "fst p = unat (2 :: u64)" "lane_payload ?span sample_layout (dev_bytes d) p r0 = [1, 2, 3]"
    by (rule write_payload_ok [OF w sample_media_ready sample_chunk_ok]) (simp add: l)
  let ?d = "d\<lparr>dev_sched := [IoSectors 1, IoFault OtherError]\<rparr>"
  obtain r' d' where w': "?w (AgainstCurrent (Some r0)) (sample_chunk 7) 6 default_identity [9] Deferred ?d = (r', d')" by fastforce
  have m: "media_ready (\<lambda>_. 0) ?span sample_superblock ?d"
    using publishedD(3) [OF pub] media_ready_cong [of ?d d "\<lambda>_. 0" ?span sample_superblock] by simp
  have "torn_between (dev_bytes ?d) (dev_bytes d') (dev_bytes d')" by (simp add: torn_between_def)
  from interrupted_overwrite_keeps_published [OF m sample_chunk_ok publishedD(1) [OF pub] p2(1) _ _ w' this, of "sample_chunk 7" default_identity]
    publishedD(2,4) [OF pub] w w' p2(2)
  show ?thesis by (auto simp: live_header_def l)
qed



lemma publish_write:
  assumes "quiet d" "media_ready crc (cfg_span config) sb d" "chunk_id_ok c" "chosen_lane (sb_layout sb) slot sel = Inr j"
    "slot < key_slots (sb_layout sb)" "payload \<noteq> []" "length payload \<le> unat (slot_payload (sb_layout sb) (unat slot))"
    "p = (unat slot, unat j)" "r = lane_record (sb_layout sb) (cfg_drive_id config) p gen (length payload) (crc payload)"
  shows "\<exists>d'. write_chunk_media_payload_with_file crc config sb slot sel c gen ident payload durability d = (Inr r, d')
    \<and> quiet d' \<and> media_publish crc config sb d p (LaneHolds (live_header c r ident)) d'
    \<and> lane_payload (cfg_span config) (sb_layout sb) (dev_bytes d') p r = payload \<and> record_lane (sb_layout sb) r = Some p"
proof -
  obtain d' where w: "write_chunk_media_payload_with_file crc config sb slot sel c gen ident payload durability d = (Inr r, d')" "quiet d'"
    using write_payload_quiet [OF assms(1-7)] assms(8,9) by blast
  have "is_lane (sb_layout sb) p" using assms(5,8) chosen_lane_less [OF assms(4)] by (simp add: is_lane_def word_less_nat_alt)
  then have rl: "record_lane (sb_layout sb) r = Some p"
    unfolding assms(9) by (rule record_lane_of_lane_record [OF media_ready_layout(2) [OF assms(2)]]) (use assms(6-8) in simp_all)
  have "lane_payload (cfg_span config) (sb_layout sb) (dev_bytes d') p r = payload"
  proof (rule write_payload_ok [OF w(1) assms(2,3)])
    fix q assume "published crc (cfg_span config) sb d q (live_header c r ident) d'" "lane_payload (cfg_span config) (sb_layout sb) (dev_bytes d') q r = payload"
    then show ?thesis using publishedD(2) [of crc "cfg_span config" sb d q "live_header c r ident" d'] rl by (simp add: live_header_def)
  qed
  then show ?thesis using w rl assms(3) unfolding media_publish_def by blast
qed

lemma publish_tombstone:
  assumes "quiet d" "media_ready crc (cfg_span config) sb d" "chunk_id_ok c" "record_lane (sb_layout sb) r = Some p"
  shows "\<exists>d'. write_chunk_media_tombstone_with_file crc config sb c r gen d = (Inr (), d') \<and> quiet d'
    \<and> media_publish crc config sb d p (LaneHolds (tombstone_header c (r\<lparr>generation := gen\<rparr>))) d'"
  using tombstone_quiet [OF assms, of gen] assms(3,4) unfolding media_publish_def by blast

lemma against_lane_record:
  assumes "layout_fits l" "is_lane l p" "0 < n" "n \<le> unat (slot_payload l (fst p))"
  shows "chosen_lane l (of_nat (fst p)) (AgainstCurrent (Some (lane_record l drive p gen n c))) = Inr ((of_nat (snd p) + 1) mod 2)"
  by (simp add: chosen_lane_def next_publication_lane_def lane_record_address [OF assms])

definition sample_handle :: ChunkMediaHandle where
  "sample_handle = \<lparr>h_config = sample_media_config, h_superblock = sample_superblock\<rparr>"

definition sample_record :: "(u8 list \<Rightarrow> u32) \<Rightarrow> nat \<Rightarrow> u32 \<Rightarrow> u8 \<Rightarrow> LocationRecord" where
  "sample_record crc j g b = lane_record sample_layout 3 (0, j) g 1 (crc [b])"

lemma sample_slot: "(0 :: u64) < key_slots sample_layout" "unat (slot_payload sample_layout 0) = 8192"
  "is_lane sample_layout (0, 0)" "is_lane sample_layout (0, 1)"
  by (simp_all add: sample_layout_def slot_payload_def slot_kind_def is_lane_def)

lemma sample_choice:
  "chosen_lane sample_layout 0 (AgainstCurrent None) = Inr 0"
  "chosen_lane sample_layout 0 (AgainstCurrent (Some (sample_record crc 0 g b))) = Inr 1"
  "chosen_lane sample_layout 0 (AgainstCurrent (Some (sample_record crc 1 g b))) = Inr 0"
  using against_lane_record [OF sample_layout_fits sample_slot(3), of 1 3 g "crc [b]"]
    against_lane_record [OF sample_layout_fits sample_slot(4), of 1 3 g "crc [b]"] sample_slot(2)
  by (simp_all add: chosen_lane_def next_publication_lane_def [of _ _ None] sample_record_def)

lemma sample_write:
  assumes "quiet d" "media_ready crc (cfg_span sample_media_config) sample_superblock d" "chosen_lane sample_layout 0 (AgainstCurrent cur) = Inr j"
  shows "\<exists>d'. write_payload_against_current crc sample_handle 0 cur (sample_chunk c) g [b] d = (Inr (sample_record crc (unat j) g b), d')
    \<and> quiet d' \<and> media_ready crc (cfg_span sample_media_config) sample_superblock d'
    \<and> media_publish crc sample_media_config sample_superblock d (0, unat j) (LaneHolds (live_header (sample_chunk c) (sample_record crc (unat j) g b) default_identity)) d'"
proof -
  have l: "sb_layout sample_superblock = sample_layout" "cfg_drive_id sample_media_config = 3"
    by (simp_all add: sample_superblock_def sample_media_config_def)
  have "sample_record crc (unat j) g b = lane_record (sb_layout sample_superblock) (cfg_drive_id sample_media_config) (0, unat j) g (length [b]) (crc [b])"
    by (simp add: sample_record_def l)
  from publish_write [OF assms(1,2) sample_chunk_ok _ _ _ _ _ this, of 0 "AgainstCurrent cur" j c default_identity Barrier]
  obtain d' where w: "write_chunk_media_payload_with_file crc sample_media_config sample_superblock 0 (AgainstCurrent cur) (sample_chunk c) g default_identity [b] Barrier d
      = (Inr (sample_record crc (unat j) g b), d')" "quiet d'"
    and pub: "media_publish crc sample_media_config sample_superblock d (0, unat j) (LaneHolds (live_header (sample_chunk c) (sample_record crc (unat j) g b) default_identity)) d'"
    using assms(3) sample_slot(1,2) by (auto simp: l)
  then show ?thesis using media.publish_usable [OF assms(2) pub] by (simp add: write_payload_against_current_def sample_handle_def)
qed

lemma sample_tombstone:
  assumes "quiet d" "media_ready crc (cfg_span sample_media_config) sample_superblock d"
  shows "\<exists>d'. handle_write_tombstone crc sample_handle (sample_chunk c) (sample_record crc 0 g b) g' d = (Inr (), d') \<and> quiet d'
    \<and> media_ready crc (cfg_span sample_media_config) sample_superblock d'
    \<and> media_publish crc sample_media_config sample_superblock d (0, 0) (LaneHolds (tombstone_header (sample_chunk c) ((sample_record crc 0 g b)\<lparr>generation := g'\<rparr>))) d'"
proof -
  have "record_lane (sb_layout sample_superblock) (sample_record crc 0 g b) = Some (0, 0)"
    using record_lane_of_lane_record [OF sample_layout_fits sample_slot(3)] sample_slot(2) by (simp add: sample_record_def sample_superblock_def)
  from publish_tombstone [OF assms sample_chunk_ok this, of c g']
  obtain d' where "write_chunk_media_tombstone_with_file crc sample_media_config sample_superblock (sample_chunk c) (sample_record crc 0 g b) g' d = (Inr (), d')" "quiet d'"
    and pub: "media_publish crc sample_media_config sample_superblock d (0, 0) (LaneHolds (tombstone_header (sample_chunk c) ((sample_record crc 0 g b)\<lparr>generation := g'\<rparr>))) d'"
    by blast
  then show ?thesis using media.publish_usable [OF assms(2) pub] by (simp add: handle_write_tombstone_def sample_handle_def)
qed

text \<open>
  C24. A deleted chunk can come back. Chunk A is written three times to slot 0, each time against its
  current record, and then deleted: the tombstone replaces the third copy, in lane 0, while the second
  copy stays in lane 1. A different chunk B, written to the freed slot, replaces the tombstone. A
  rebuild of the index now lists A again, at its second record.
\<close>

theorem deleted_chunk_resurrected:
  defines "h \<equiv> sample_handle" and "A \<equiv> sample_chunk 1" and "B \<equiv> sample_chunk 2"
  shows "\<exists>r1 d1 r2 d2 r3 d3 d4 r5 d5 res.
     write_payload_against_current crc h 0 None A 1 [1] (sample_media crc) = (Inr r1, d1)
   \<and> write_payload_against_current crc h 0 (Some r1) A 2 [2] d1 = (Inr r2, d2)
   \<and> write_payload_against_current crc h 0 (Some r2) A 3 [3] d2 = (Inr r3, d3)
   \<and> handle_write_tombstone crc h A r3 4 d3 = (Inr (), d4)
   \<and> write_payload_against_current crc h 0 None B 1 [4] d4 = (Inr r5, d5)
   \<and> rebuild_from_chunk_media crc (cfg_span sample_media_config) d5 = (Inr res, d5)
   \<and> map_of (rb_entries res) A = Some r2"
proof -
  let ?m = "media_ready crc (cfg_span sample_media_config) sample_superblock"
  let ?pub = "media_publish crc sample_media_config sample_superblock"
  let ?v = "\<lambda>c j g b. LaneHolds (live_header c (sample_record crc j g b) default_identity)"
  let ?t = "LaneHolds (tombstone_header A ((sample_record crc 0 3 3)\<lparr>generation := 4\<rparr>))"
  note defs = h_def A_def B_def
  obtain d1 where d1: "write_payload_against_current crc h 0 None A 1 [1] (sample_media crc) = (Inr (sample_record crc 0 1 1), d1)"
    "quiet d1" "?m d1" "?pub (sample_media crc) (0, 0) (?v A 0 1 1) d1"
    using sample_write [OF sample_media_quiet sample_media_ready [of crc] sample_choice(1), of 1 1 1] unfolding defs by auto
  obtain d2 where d2: "write_payload_against_current crc h 0 (Some (sample_record crc 0 1 1)) A 2 [2] d1 = (Inr (sample_record crc 1 2 2), d2)"
    "quiet d2" "?m d2" "?pub d1 (0, 1) (?v A 1 2 2) d2"
    using sample_write [OF d1(2,3) sample_choice(2) [of crc 1 1], of 1 2 2] unfolding defs by auto
  obtain d3 where d3: "write_payload_against_current crc h 0 (Some (sample_record crc 1 2 2)) A 3 [3] d2 = (Inr (sample_record crc 0 3 3), d3)"
    "quiet d3" "?m d3" "?pub d2 (0, 0) (?v A 0 3 3) d3"
    using sample_write [OF d2(2,3) sample_choice(3) [of crc 2 2], of 1 3 3] unfolding defs by auto
  obtain d4 where d4: "handle_write_tombstone crc h A (sample_record crc 0 3 3) 4 d3 = (Inr (), d4)" "quiet d4" "?m d4" "?pub d3 (0, 0) ?t d4"
    using sample_tombstone [OF d3(2,3), of 1 3 3 4] unfolding defs by auto
  obtain d5 where d5: "write_payload_against_current crc h 0 None B 1 [4] d4 = (Inr (sample_record crc 0 1 4), d5)"
    "quiet d5" "?m d5" "?pub d4 (0, 0) (?v B 0 1 4) d5"
    using sample_write [OF d4(2,3) sample_choice(1), of 2 1 4] unfolding defs by auto
  let ?ps = "[((0, 0), ?v A 0 1 1), ((0, 1), ?v A 1 2 2), ((0, 0), ?v A 0 3 3), ((0, 0), ?t), ((0, 0), ?v B 0 1 4)]"
  have "publishes ?pub (sample_media crc) ?ps d5" using d1(4) d2(4) d3(4) d4(4) d5(4) by auto
  note look = media.run_look [OF this sample_media_ready]
  have l: "sb_layout sample_superblock = sample_layout" by (simp add: sample_superblock_def)
  have at: "lane_at crc (cfg_span sample_media_config) sample_layout (dev_bytes d5) q =
      (if q = (0, 1) then ?v A 1 2 2 else if q = (0, 0) then ?v B 0 1 4 else LaneEmpty)" if "is_lane sample_layout q" for q
    using look [of q] that by (auto simp: l sample_media_empty)
  have "A \<noteq> B" by (simp add: A_def B_def sample_chunk_def numeral_2_eq_2)
  then have "\<forall>q x. is_lane (sb_layout sample_superblock) q \<and> q \<noteq> (0, 1)
      \<and> lane_at crc (cfg_span sample_media_config) (sb_layout sample_superblock) (dev_bytes d5) q = LaneHolds x
      \<and> sh_chunk_id x = sh_chunk_id (live_header A (sample_record crc 1 2 2) default_identity)
      \<longrightarrow> generation (sh_record x) < generation (sh_record (live_header A (sample_record crc 1 2 2) default_identity))"
    by (auto simp: l at live_header_def split: if_splits)
  from rebuild_finds [OF d5(2,3) _ _ this] sample_slot(4) at [OF sample_slot(4)]
  obtain res where "rebuild_from_chunk_media crc (cfg_span sample_media_config) d5 = (Inr res, d5)" "map_of (rb_entries res) A = Some (sample_record crc 1 2 2)"
    by (auto simp: l live_header_def)
  with d1(1) d2(1) d3(1) d4(1) d5(1) show ?thesis by blast
qed

end
