(* ===== verification/Kix_Frames.thy ===== *)
theory Kix_Frames
  imports Kix_Types "HOL-Library.AList"
begin

text \<open>
  The on-disk forms of the KIX arena (\<open>poc/kix/crates/kix/src/arena.rs\<close>): the arena header, the frame
  header, checkpoint and delta payloads, and \<open>apply_delta\<close>, the replay of one delta. A \<open>HashMap\<close> is an
  association list with distinct keys, updated by \<open>AList.update\<close> and \<open>AList.delete\<close>.
  The checksum \<open>crc32_ieee\<close> is computed by the external crate crc32fast and is the parameter \<open>crc\<close>.
\<close>

type_synonym entries = "(ChunkId \<times> LocationRecord) list"
type_synonym index_map = "ChunkId \<rightharpoonup> LocationRecord"

section \<open>Constants\<close>

definition FILE_MAGIC :: u32 where "FILE_MAGIC = 0x4158494B"
definition FRAME_MAGIC :: u32 where "FRAME_MAGIC = 0x4658494B"
definition VERSION :: u32 where "VERSION = 2"
definition KIX_IO_ALIGN :: nat where "KIX_IO_ALIGN = 4096"
definition FILE_HEADER_LEN :: nat where "FILE_HEADER_LEN = KIX_IO_ALIGN"
definition FRAME_HEADER_LEN :: nat where "FRAME_HEADER_LEN = KIX_IO_ALIGN"
definition CHECKPOINT_ENTRY_LEN :: nat where "CHECKPOINT_ENTRY_LEN = 32 + ENCODED_LEN"
definition DELTA_ENTRY_LEN :: nat where "DELTA_ENTRY_LEN = 64"
definition FLAG_FIXED_SPAN :: u16 where "FLAG_FIXED_SPAN = 1"

lemmas arena_consts [simp] =
  KIX_IO_ALIGN_def FILE_HEADER_LEN_def FRAME_HEADER_LEN_def CHECKPOINT_ENTRY_LEN_def DELTA_ENTRY_LEN_def
  ENCODED_LEN_def

section \<open>Arena header\<close>

record ArenaHeader =
  ah_drive_id :: u16
  ah_flags :: u16
  ah_arena_bytes :: u64
  ah_write_head :: u64

definition ArenaHeader_new :: "u16 \<Rightarrow> u64 option \<Rightarrow> u64 \<Rightarrow> ArenaHeader" where
  "ArenaHeader_new drive arena_bytes write_head =
     \<lparr>ah_drive_id = drive,
      ah_flags = (if arena_bytes \<noteq> None then FLAG_FIXED_SPAN else 0),
      ah_arena_bytes = (case arena_bytes of None \<Rightarrow> 0 | Some n \<Rightarrow> n),
      ah_write_head = write_head\<rparr>"

definition fixed_span_bytes :: "ArenaHeader \<Rightarrow> u64 option" where
  "fixed_span_bytes h = (if ah_flags h AND FLAG_FIXED_SPAN \<noteq> 0 then Some (ah_arena_bytes h) else None)"

definition encode_arena_header :: "ArenaHeader \<Rightarrow> u8 list" where
  "encode_arena_header h =
     (let bytes = zeros FILE_HEADER_LEN;
          bytes = patch bytes 0 (le_bytes 4 FILE_MAGIC);
          bytes = patch bytes 4 (le_bytes 4 VERSION);
          bytes = patch bytes 8 (le_bytes 2 (ah_drive_id h));
          bytes = patch bytes 10 (le_bytes 2 (ah_flags h));
          bytes = patch bytes 12 (le_bytes 8 (ah_arena_bytes h));
          bytes = patch bytes 20 (le_bytes 8 (ah_write_head h))
      in bytes)"

definition decode_arena_header :: "u8 list \<Rightarrow> ArenaHeader io_result" where
  "decode_arena_header bytes =
     (let magic = le_word (subslice bytes 0 4) :: u32;
          version = le_word (subslice bytes 4 8) :: u32
      in if magic \<noteq> FILE_MAGIC \<or> version \<noteq> VERSION then Inl InvalidData
         else Inr \<lparr>ah_drive_id = le_word (subslice bytes 8 10),
                   ah_flags = le_word (subslice bytes 10 12),
                   ah_arena_bytes = le_word (subslice bytes 12 20),
                   ah_write_head = le_word (subslice bytes 20 28)\<rparr>)"

definition is_aligned_u64 :: "u64 \<Rightarrow> u64 \<Rightarrow> bool" where
  "is_aligned_u64 v align \<longleftrightarrow> align \<noteq> 0 \<and> v mod align = 0"

definition validate_arena_header :: "ArenaHeader \<Rightarrow> u16 \<Rightarrow> u64 option \<Rightarrow> unit io_result" where
  "validate_arena_header h expected_drive_id expected_arena_len_bytes =
     (if ah_drive_id h \<noteq> expected_drive_id then Inl InvalidData
      else if ah_write_head h < of_nat FILE_HEADER_LEN then Inl InvalidData
      else case (expected_arena_len_bytes, fixed_span_bytes h) of
        (Some expected, Some actual) \<Rightarrow>
          if expected = actual then
            (if ah_write_head h > actual then Inl InvalidData
             else if \<not> is_aligned_u64 (ah_write_head h) (of_nat KIX_IO_ALIGN) then Inl InvalidData
             else Inr ())
          else Inl InvalidData
      | (None, None) \<Rightarrow>
          if \<not> is_aligned_u64 (ah_write_head h) (of_nat KIX_IO_ALIGN) then Inl InvalidData else Inr ()
      | _ \<Rightarrow> Inl InvalidData)"

section \<open>Frames\<close>

datatype FrameKind = Checkpoint | DeltaBatch

fun frame_kind_byte :: "FrameKind \<Rightarrow> u8" where
  "frame_kind_byte Checkpoint = 1"
| "frame_kind_byte DeltaBatch = 2"

definition frame_kind_from_byte :: "u8 \<Rightarrow> FrameKind option" where
  "frame_kind_from_byte v = (if v = 1 then Some Checkpoint else if v = 2 then Some DeltaBatch else None)"

definition encode_frame_header :: "(u8 list \<Rightarrow> u32) \<Rightarrow> FrameKind \<Rightarrow> u8 list \<Rightarrow> u8 list" where
  "encode_frame_header crc kind payload =
     (let header = zeros FRAME_HEADER_LEN;
          header = patch header 0 (le_bytes 4 FRAME_MAGIC);
          header = patch header 4 [frame_kind_byte kind];
          header = patch header 8 (le_bytes 4 (of_nat (length payload) :: u32));
          header = patch header 12 (le_bytes 4 (crc payload))
      in header)"

section \<open>Delta entries\<close>

datatype DeltaOp = Upsert | Delete

fun delta_op_byte :: "DeltaOp \<Rightarrow> u8" where
  "delta_op_byte Upsert = 1"
| "delta_op_byte Delete = 2"

definition delta_op_from_byte :: "u8 \<Rightarrow> DeltaOp option" where
  "delta_op_from_byte v = (if v = 1 then Some Upsert else if v = 2 then Some Delete else None)"

record DeltaEntry =
  de_op :: DeltaOp
  de_chunk_id :: ChunkId
  de_record :: "LocationRecord option"

definition delta_upsert :: "ChunkId \<Rightarrow> LocationRecord \<Rightarrow> DeltaEntry" where
  "delta_upsert c r = \<lparr>de_op = Upsert, de_chunk_id = c, de_record = Some r\<rparr>"

definition delta_delete :: "ChunkId \<Rightarrow> DeltaEntry" where
  "delta_delete c = \<lparr>de_op = Delete, de_chunk_id = c, de_record = None\<rparr>"

definition encode_delta :: "DeltaEntry \<Rightarrow> u8 list" where
  "encode_delta e =
     (let out = zeros DELTA_ENTRY_LEN;
          out = patch out 0 [delta_op_byte (de_op e)];
          out = patch out 4 (chunk_bytes (de_chunk_id e))
      in case de_record e of None \<Rightarrow> out | Some r \<Rightarrow> patch out 36 (encode_location r))"

definition decode_delta :: "u8 list \<Rightarrow> DeltaEntry option" where
  "decode_delta bytes =
     (if length bytes < DELTA_ENTRY_LEN then None
      else case delta_op_from_byte (bytes ! 0) of
        None \<Rightarrow> None
      | Some op \<Rightarrow>
          let chunk_id = ChunkId (subslice bytes 4 36) in
          (case op of
             Upsert \<Rightarrow> (case decode_location (subslice bytes 36 64) of
                          None \<Rightarrow> None
                        | Some r \<Rightarrow> Some \<lparr>de_op = op, de_chunk_id = chunk_id, de_record = Some r\<rparr>)
           | Delete \<Rightarrow> Some \<lparr>de_op = op, de_chunk_id = chunk_id, de_record = None\<rparr>))"

definition delta_ok :: "DeltaEntry \<Rightarrow> bool" where
  "delta_ok e \<longleftrightarrow> chunk_id_ok (de_chunk_id e) \<and> (de_op e = Upsert \<longleftrightarrow> de_record e \<noteq> None)"

section \<open>Payloads\<close>

definition encode_checkpoint_entry :: "ChunkId \<times> LocationRecord \<Rightarrow> u8 list" where
  "encode_checkpoint_entry = (\<lambda>(c, r). chunk_bytes c @ encode_location r)"

definition decode_checkpoint_entry :: "u8 list \<Rightarrow> (ChunkId \<times> LocationRecord) option" where
  "decode_checkpoint_entry bs =
     (case decode_location (subslice bs 32 (32 + ENCODED_LEN)) of
        None \<Rightarrow> None | Some r \<Rightarrow> Some (ChunkId (subslice bs 0 32), r))"

definition checkpoint_payload :: "entries \<Rightarrow> u8 list" where
  "checkpoint_payload es = le_bytes 4 (of_nat (length es) :: u32) @ concat (map encode_checkpoint_entry es)"

definition delta_payload :: "DeltaEntry list \<Rightarrow> u8 list" where
  "delta_payload ds = le_bytes 4 (of_nat (length ds) :: u32) @ concat (map encode_delta ds)"

definition insert_all :: "entries \<Rightarrow> entries \<Rightarrow> entries" where
  "insert_all es m = fold (\<lambda>(c, r). AList.update c r) es m"

definition decode_checkpoint :: "u8 list \<Rightarrow> entries option" where
  "decode_checkpoint payload =
     (if length payload < 4 then None
      else
        let count = unat (le_word (subslice payload 0 4) :: u32) in
        if length payload \<noteq> 4 + count * CHECKPOINT_ENTRY_LEN then None
        else map_option (\<lambda>es. insert_all es [])
               (decode_run decode_checkpoint_entry CHECKPOINT_ENTRY_LEN count 4 payload))"

definition decode_delta_batch :: "u8 list \<Rightarrow> DeltaEntry list option" where
  "decode_delta_batch payload =
     (if length payload < 4 then None
      else
        let count = unat (le_word (subslice payload 0 4) :: u32) in
        if length payload \<noteq> 4 + count * DELTA_ENTRY_LEN then None
        else decode_run decode_delta DELTA_ENTRY_LEN count 4 payload)"

definition apply_delta :: "DeltaEntry \<Rightarrow> entries \<Rightarrow> entries" where
  "apply_delta delta m =
     (case de_op delta of
        Upsert \<Rightarrow>
          (case de_record delta of
             None \<Rightarrow> m
           | Some r \<Rightarrow>
               (case map_of m (de_chunk_id delta) of
                  Some existing \<Rightarrow>
                    if generation existing > generation r then m
                    else AList.update (de_chunk_id delta) r m
                | None \<Rightarrow> AList.update (de_chunk_id delta) r m))
      | Delete \<Rightarrow> AList.delete (de_chunk_id delta) m)"

section \<open>Round trips\<close>

lemma frame_kind_from_byte_byte [simp]: "frame_kind_from_byte (frame_kind_byte k) = Some k"
  by (cases k) (auto simp: frame_kind_from_byte_def)

lemma delta_op_from_byte_byte [simp]: "delta_op_from_byte (delta_op_byte k) = Some k"
  by (cases k) (auto simp: delta_op_from_byte_def)

lemma length_encode_arena_header [simp]: "length (encode_arena_header h) = 4096"
  by (simp add: encode_arena_header_def Let_def)

lemma decode_encode_arena_header: "decode_arena_header (encode_arena_header h) = Inr h"
  by (simp add: decode_arena_header_def encode_arena_header_def Let_def codec_simps)

text \<open>Only the first sector of an arena header carries data.\<close>

lemma decode_arena_header_take: "28 \<le> n \<Longrightarrow> decode_arena_header (take n bs) = decode_arena_header bs"
  by (simp add: decode_arena_header_def subslice_take)

lemma decode_arena_header_sector:
  "take sect bs = take sect cs \<Longrightarrow> 28 \<le> sect \<Longrightarrow> decode_arena_header bs = decode_arena_header cs"
  by (metis decode_arena_header_take)

lemma fixed_span_bytes_new [simp]: "fixed_span_bytes (ArenaHeader_new i len head) = len"
  by (cases len) (auto simp: fixed_span_bytes_def ArenaHeader_new_def FLAG_FIXED_SPAN_def)

lemma length_encode_frame_header [simp]: "length (encode_frame_header crc k p) = 4096"
  by (simp add: encode_frame_header_def Let_def)

lemma encode_frame_header_fields:
  "subslice (encode_frame_header crc k p) 0 4 = le_bytes 4 FRAME_MAGIC"
  "encode_frame_header crc k p ! 4 = frame_kind_byte k"
  "subslice (encode_frame_header crc k p) 8 12 = le_bytes 4 (of_nat (length p) :: u32)"
  "subslice (encode_frame_header crc k p) 12 16 = le_bytes 4 (crc p)"
  by (simp_all add: encode_frame_header_def Let_def codec_simps nth_patch)

lemma length_encode_delta [simp]: "delta_ok e \<Longrightarrow> length (encode_delta e) = 64"
  by (auto simp: encode_delta_def delta_ok_def chunk_id_ok_def Let_def split: option.splits)

lemma decode_encode_delta: "delta_ok e \<Longrightarrow> decode_delta (encode_delta e) = Some e"
proof -
  assume ok: "delta_ok e"
  then have l: "length (chunk_bytes (de_chunk_id e)) = 32"
    by (simp add: delta_ok_def chunk_id_ok_def)
  then have f: "encode_delta e ! 0 = delta_op_byte (de_op e)"
      "subslice (encode_delta e) 4 36 = chunk_bytes (de_chunk_id e)"
    by (simp_all add: encode_delta_def Let_def nth_patch codec_simps split: option.split)
  show ?thesis
  proof (cases "de_record e")
    case None
    then show ?thesis
      using ok f by (cases e; cases "de_op e")
        (auto simp: decode_delta_def Let_def delta_ok_def simp del: delta_op_byte.simps)
  next
    case (Some r)
    then have "subslice (encode_delta e) 36 64 = encode_location r"
      using l by (simp add: encode_delta_def Let_def codec_simps)
    then show ?thesis
      using ok f Some by (cases e; cases "de_op e")
        (auto simp: decode_delta_def Let_def delta_ok_def decode_encode_location simp del: delta_op_byte.simps)
  qed
qed

interpretation delta: fixed_codec encode_delta decode_delta DELTA_ENTRY_LEN delta_ok
  by unfold_locales (simp_all add: decode_encode_delta)

abbreviation entry_ok :: "ChunkId \<times> LocationRecord \<Rightarrow> bool" where
  "entry_ok e \<equiv> chunk_id_ok (fst e)"

lemma decode_encode_checkpoint_entry:
  "entry_ok e \<Longrightarrow> decode_checkpoint_entry (encode_checkpoint_entry e) = Some e"
  by (cases e) (simp add: decode_checkpoint_entry_def encode_checkpoint_entry_def chunk_id_ok_def
      subslice_def decode_encode_location)

interpretation ckpt: fixed_codec encode_checkpoint_entry decode_checkpoint_entry CHECKPOINT_ENTRY_LEN entry_ok
  by (unfold_locales, simp add: encode_checkpoint_entry_def chunk_id_ok_def case_prod_beta)
    (rule decode_encode_checkpoint_entry)

lemma length_delta_payload: "list_all delta_ok ds \<Longrightarrow> length (delta_payload ds) = 4 + 64 * length ds"
  using delta.table_length [of ds] by (simp add: delta_payload_def)

lemma length_checkpoint_payload: "list_all entry_ok es \<Longrightarrow> length (checkpoint_payload es) = 4 + 60 * length es"
  using ckpt.table_length [of es] by (simp add: checkpoint_payload_def)

lemma subslice_prefix: "length p = n \<Longrightarrow> subslice (p @ q) 0 n = p"
  by (simp add: subslice_def)

lemma decode_delta_payload:
  assumes "list_all delta_ok ds" "length ds < 2 ^ 32"
  shows "decode_delta_batch (delta_payload ds) = Some ds"
proof -
  have "decode_run decode_delta 64 (length ds) 4 (delta_payload ds) = Some ds"
    using delta.decode_run_table [OF assms(1), of "le_bytes 4 (of_nat (length ds) :: u32)" "[]"]
    by (simp add: delta_payload_def)
  moreover have "subslice (delta_payload ds) 0 4 = le_bytes 4 (of_nat (length ds) :: u32)"
    by (simp add: delta_payload_def subslice_prefix)
  ultimately show ?thesis
    using assms by (simp add: decode_delta_batch_def length_delta_payload unat_of_nat)
qed

lemma decode_checkpoint_payload:
  assumes "list_all entry_ok es" "length es < 2 ^ 32"
  shows "decode_checkpoint (checkpoint_payload es) = Some (insert_all es [])"
proof -
  have "decode_run decode_checkpoint_entry 60 (length es) 4 (checkpoint_payload es) = Some es"
    using ckpt.decode_run_table [OF assms(1), of "le_bytes 4 (of_nat (length es) :: u32)" "[]"]
    by (simp add: checkpoint_payload_def)
  moreover have "subslice (checkpoint_payload es) 0 4 = le_bytes 4 (of_nat (length es) :: u32)"
    by (simp add: checkpoint_payload_def subslice_prefix)
  ultimately show ?thesis
    using assms by (simp add: decode_checkpoint_def length_checkpoint_payload unat_of_nat)
qed

section \<open>The generation-fenced index\<close>

text \<open>
  What every holder of chunk locations promises: an upsert takes effect unless the entry present has
  a strictly larger generation, a delete always does, and other chunks are not touched. The map
  rebuilt by recovery and the in-memory shards of the engine both satisfy it.
\<close>

fun spec_upsert :: "ChunkId \<Rightarrow> LocationRecord \<Rightarrow> index_map \<Rightarrow> index_map" where
  "spec_upsert c r m =
     (case m c of
        Some e \<Rightarrow> if generation r < generation e then m else m(c \<mapsto> r)
      | None \<Rightarrow> m(c \<mapsto> r))"

fun spec_delta :: "DeltaEntry \<Rightarrow> index_map \<Rightarrow> index_map" where
  "spec_delta d m =
     (case de_op d of
        Upsert \<Rightarrow> (case de_record d of None \<Rightarrow> m | Some r \<Rightarrow> spec_upsert (de_chunk_id d) r m)
      | Delete \<Rightarrow> m(de_chunk_id d := None))"

declare spec_upsert.simps [simp del] spec_delta.simps [simp del]

lemma spec_delta_fence:
  "m c = Some e \<Longrightarrow> de_op d = Upsert \<Longrightarrow>
     \<exists>e'. spec_delta d m c = Some e' \<and> generation e \<le> generation e'"
  by (cases "de_record d") (auto simp: spec_delta.simps spec_upsert.simps not_less split: option.split)

locale fenced_index =
  fixes lookup :: "'s \<Rightarrow> index_map"
    and step :: "DeltaEntry \<Rightarrow> 's \<Rightarrow> 's"
    and inv :: "'s \<Rightarrow> bool"
  assumes lookup_step: "inv s \<Longrightarrow> lookup (step d s) = spec_delta d (lookup s)"
    and inv_step: "inv s \<Longrightarrow> inv (step d s)"
begin

lemma inv_run: "inv s \<Longrightarrow> inv (fold step ds s)"
  by (induction ds arbitrary: s) (auto simp: inv_step)

lemma lookup_run: "inv s \<Longrightarrow> lookup (fold step ds s) = fold spec_delta ds (lookup s)"
  by (induction ds arbitrary: s) (auto simp: inv_step lookup_step)

lemma other_chunk: "inv s \<Longrightarrow> c \<noteq> de_chunk_id d \<Longrightarrow> lookup (step d s) c = lookup s c"
  by (auto simp: lookup_step spec_delta.simps spec_upsert.simps split: DeltaOp.split option.split)

lemma generation_fence:
  assumes "inv s" "lookup s c = Some e" "\<forall>d \<in> set ds. de_op d = Upsert"
  shows "\<exists>e'. lookup (fold step ds s) c = Some e' \<and> generation e \<le> generation e'"
  using assms
proof (induction ds arbitrary: s e)
  case Nil
  then show ?case by auto
next
  case (Cons d ds)
  obtain e1 where "lookup (step d s) c = Some e1" "generation e \<le> generation e1"
    using Cons.prems spec_delta_fence [of "lookup s" c e d] by (auto simp: lookup_step)
  with Cons.IH [of "step d s" e1] Cons.prems show ?case
    by (auto simp: inv_step intro: order_trans)
qed

end

lemma map_of_apply_delta: "map_of (apply_delta d m) = spec_delta d (map_of m)"
  by (auto simp: apply_delta_def spec_delta.simps spec_upsert.simps AList.update_conv' AList.delete_conv'
      split: DeltaOp.split option.split)

lemma distinct_apply_delta: "distinct (map fst m) \<Longrightarrow> distinct (map fst (apply_delta d m))"
  by (auto simp: apply_delta_def AList.distinct_update AList.distinct_delete split: DeltaOp.split option.split)

interpretation replay: fenced_index map_of apply_delta "\<lambda>m. distinct (map fst m)"
  by unfold_locales (simp_all add: map_of_apply_delta distinct_apply_delta)

lemma map_of_insert_all: "map_of (insert_all es m) = map_of m ++ map_of (rev es)"
proof (induction es arbitrary: m)
  case (Cons e es)
  then show ?case
    by (cases e) (auto simp: insert_all_def AList.update_conv' map_add_def fun_eq_iff split: option.split)
qed (simp add: insert_all_def)

lemma map_of_rev_distinct: "distinct (map fst es) \<Longrightarrow> map_of (rev es) = map_of es"
  by (rule ext) (metis distinct_rev map_of_SomeD map_of_eq_None_iff map_of_is_SomeI not_None_eq rev_map set_map set_rev)

lemma distinct_insert_all: "distinct (map fst m) \<Longrightarrow> distinct (map fst (insert_all es m))"
  by (induction es arbitrary: m) (auto simp: insert_all_def AList.distinct_update)

end
