(* ===== verification/Kix_Arena.thy ===== *)
theory Kix_Arena
  imports Kix_Frames Block_Device
begin

text \<open>
  The KIX arena (\<open>poc/kix/crates/kix/src/arena.rs\<close>): an append-only log of checkpoint and delta
  frames behind one header block. \<open>open_config\<close>, \<open>reset_config\<close>, \<open>recover\<close>, \<open>append_frame\<close>,
  \<open>truncate_to\<close> and what they call are state passing over the device below.

  Offsets are 64-bit words wherever the source adds without a check. The replay offset of \<open>recover\<close>
  is a natural number: it never exceeds the header's write head.
  The file name is not modelled; \<open>existed\<close> is the result of \<open>path.exists()\<close>.
\<close>

section \<open>Configuration and state\<close>

record DriveConfig =
  dc_id :: u16
  dc_arena_offset_bytes :: u64
  dc_arena_len_bytes :: "u64 option"

record DriveArena =
  da_drive_id :: u16
  da_file :: device
  da_arena_offset_bytes :: u64
  da_arena_len_bytes :: "u64 option"
  da_write_head :: u64
  da_is_block_device :: bool

record DriveRecovery =
  dr_drive_id :: u16
  dr_entries :: entries
  dr_replay_len :: u64
  dr_tail_corruption :: bool
  dr_rebuild_required :: bool
  dr_applied_frames :: nat

definition on_file :: "(device, 'e, 'a) st \<Rightarrow> (DriveArena, 'e, 'a) st" where
  "on_file m a = (case m (da_file a) of (r, f) \<Rightarrow> (r, a\<lparr>da_file := f\<rparr>))"

section \<open>Helpers\<close>

definition align_up_u64 :: "u64 \<Rightarrow> u64 \<Rightarrow> u64 io_result" where
  "align_up_u64 v align =
     (if align = 0 then Inl InvalidInput
      else
        let remainder = v mod align in
        if remainder = 0 then Inr v else ok_or InvalidInput (checked_add v (align - remainder)))"

text \<open>\<open>usize\<close> is 64 bits wide, so the conversion back never fails.\<close>

definition align_up_usize :: "nat \<Rightarrow> nat \<Rightarrow> nat io_result" where
  "align_up_usize v align = bind_r (align_up_u64 (of_nat v) (of_nat align)) (\<lambda>w. Inr (unat w))"

definition aligned_zeroed :: "nat \<Rightarrow> u8 list io_result" where
  "aligned_zeroed len =
     (if len = 0 then Inl InvalidInput
      else if len > 2 ^ 63 - KIX_IO_ALIGN then Inl InvalidInput
      else Inr (zeros len))"

definition from_padded_bytes :: "u8 list \<Rightarrow> u8 list io_result" where
  "from_padded_bytes bytes =
     bind_r (align_up_usize (length bytes) KIX_IO_ALIGN) (\<lambda>aligned_len.
     bind_r (aligned_zeroed aligned_len) (\<lambda>buf.
     Inr (patch buf 0 bytes)))"

definition storage_capacity_bytes :: "(device, io_error, u64) st" where
  "storage_capacity_bytes = st_bind syscall (\<lambda>_. \<lambda>d. (Inr (of_nat (dev_len d)), d))"

definition open_direct_file :: "bool \<Rightarrow> bool \<Rightarrow> (device, io_error, unit) st" where
  "open_direct_file existed create_if_missing =
     st_bind syscall (\<lambda>_. \<lambda>d.
       if existed then (Inr (), d)
       else if create_if_missing then
         (Inr (), d\<lparr>dev_bytes := (\<lambda>_. 0), dev_durable := (\<lambda>_. 0), dev_len := 0, dev_block := False\<rparr>)
       else (Inl NotFound, d))"

definition resolve_arena_len_bytes :: "bool \<Rightarrow> u64 \<Rightarrow> u64 option \<Rightarrow> (device, io_error, u64 option) st" where
  "resolve_arena_len_bytes is_block_device arena_offset configured_len =
     st_bind storage_capacity_bytes (\<lambda>available.
       if arena_offset > available then st_err InvalidInput
       else
         let arena_len =
           (case configured_len of
              Some len \<Rightarrow> Some len
            | None \<Rightarrow> if is_block_device then Some (available - arena_offset) else None)
         in case arena_len of
              Some len \<Rightarrow>
                if len < of_nat FILE_HEADER_LEN then st_err InvalidInput
                else if arena_offset + len > available then st_err InvalidInput
                else st_ret arena_len
            | None \<Rightarrow> st_ret arena_len)"

definition available_span_len :: "u64 \<Rightarrow> u64 option \<Rightarrow> (device, io_error, u64) st" where
  "available_span_len arena_offset arena_len =
     st_bind storage_capacity_bytes (\<lambda>available.
       let tail = saturating_sub available arena_offset in
       st_ret (case arena_len of Some len \<Rightarrow> min len tail | None \<Rightarrow> tail))"

definition validate_io_layout :: "DriveConfig \<Rightarrow> unit io_result" where
  "validate_io_layout cfg =
     (if \<not> is_aligned_u64 (dc_arena_offset_bytes cfg) (of_nat KIX_IO_ALIGN) then Inl InvalidInput
      else case dc_arena_len_bytes cfg of
        Some len \<Rightarrow> if \<not> is_aligned_u64 len (of_nat KIX_IO_ALIGN) then Inl InvalidInput else Inr ()
      | None \<Rightarrow> Inr ())"

definition make_uring :: "(device, io_error, unit) st" where
  "make_uring = syscall"

definition read_exact_at :: "u64 \<Rightarrow> nat \<Rightarrow> (device, io_error, u8 list) st" where
  "read_exact_at off len =
     st_bind (st_lift (align_up_usize len KIX_IO_ALIGN)) (\<lambda>aligned_len.
     st_bind (st_lift (aligned_zeroed aligned_len)) (\<lambda>_.
     st_bind (submit_read (unat off) aligned_len) (\<lambda>buf.
     st_ret (take len buf))))"

definition read_arena_header :: "u64 \<Rightarrow> (device, io_error, ArenaHeader) st" where
  "read_arena_header arena_offset =
     st_bind make_uring (\<lambda>_.
     st_bind (read_exact_at arena_offset FILE_HEADER_LEN) (\<lambda>bytes.
     st_lift (decode_arena_header bytes)))"

definition write_arena_header_at :: "u64 \<Rightarrow> ArenaHeader \<Rightarrow> (device, io_error, unit) st" where
  "write_arena_header_at arena_offset h =
     st_bind (st_lift (from_padded_bytes (encode_arena_header h))) (\<lambda>aligned.
     st_bind make_uring (\<lambda>_.
     submit_write (unat arena_offset) aligned))"

definition sync_data_at :: "(device, io_error, unit) st" where
  "sync_data_at = st_bind make_uring (\<lambda>_. fdatasync)"

section \<open>Methods of an open arena\<close>

definition write_all_at :: "u64 \<Rightarrow> u8 list \<Rightarrow> (DriveArena, io_error, unit) st" where
  "write_all_at off bytes =
     st_bind (st_lift (from_padded_bytes bytes)) (\<lambda>aligned. on_file (submit_write (unat off) aligned))"

definition sync_data :: "(DriveArena, io_error, unit) st" where
  "sync_data = on_file fdatasync"

definition write_arena_header :: "ArenaHeader \<Rightarrow> (DriveArena, io_error, unit) st" where
  "write_arena_header h = (\<lambda>a. write_all_at (da_arena_offset_bytes a) (encode_arena_header h) a)"

definition append_frame :: "(u8 list \<Rightarrow> u32) \<Rightarrow> FrameKind \<Rightarrow> u8 list \<Rightarrow> (DriveArena, io_error, unit) st" where
  "append_frame crc kind payload = (\<lambda>a.
     st_bind (st_lift (align_up_u64 (of_nat (length payload)) (of_nat KIX_IO_ALIGN))) (\<lambda>payload_disk_len.
     let frame_len = of_nat FRAME_HEADER_LEN + payload_disk_len in
     st_bind (st_lift (ok_or InvalidInput (checked_add (da_write_head a) frame_len))) (\<lambda>next_write_head.
     st_bind (case da_arena_len_bytes a of
                Some len \<Rightarrow> if next_write_head > len then st_err WriteZero else st_ret ()
              | None \<Rightarrow> st_ret ()) (\<lambda>_.
     let frame_bytes = resize (encode_frame_header crc kind payload @ payload)
                         (FRAME_HEADER_LEN + unat payload_disk_len) in
     st_bind (write_all_at (da_arena_offset_bytes a + da_write_head a) frame_bytes) (\<lambda>_.
     st_bind (write_arena_header (ArenaHeader_new (da_drive_id a) (da_arena_len_bytes a) next_write_head)) (\<lambda>_.
     st_bind sync_data (\<lambda>_.
     (\<lambda>a'. (Inr (), a'\<lparr>da_write_head := next_write_head\<rparr>)))))))) a)"

definition append_delta_batch :: "(u8 list \<Rightarrow> u32) \<Rightarrow> DeltaEntry list \<Rightarrow> (DriveArena, io_error, unit) st" where
  "append_delta_batch crc deltas = append_frame crc DeltaBatch (delta_payload deltas)"

definition append_delta :: "(u8 list \<Rightarrow> u32) \<Rightarrow> DeltaEntry \<Rightarrow> (DriveArena, io_error, unit) st" where
  "append_delta crc delta = append_delta_batch crc [delta]"

definition write_checkpoint :: "(u8 list \<Rightarrow> u32) \<Rightarrow> entries \<Rightarrow> (DriveArena, io_error, unit) st" where
  "write_checkpoint crc es = append_frame crc Checkpoint (checkpoint_payload es)"

definition truncate_to :: "u64 \<Rightarrow> (DriveArena, io_error, unit) st" where
  "truncate_to len0 =
     st_bind (st_lift (align_up_u64 (max len0 (of_nat FILE_HEADER_LEN)) (of_nat KIX_IO_ALIGN))) (\<lambda>len. \<lambda>a.
     st_bind (case da_arena_len_bytes a of
                Some arena_len \<Rightarrow> if len > arena_len then st_err InvalidInput else st_ret ()
              | None \<Rightarrow> st_ret ()) (\<lambda>_.
     st_bind (\<lambda>a'. (Inr (), a'\<lparr>da_write_head := len\<rparr>)) (\<lambda>_.
     st_bind (write_arena_header (ArenaHeader_new (da_drive_id a) (da_arena_len_bytes a) len)) (\<lambda>_.
     st_bind (if \<not> da_is_block_device a \<and> da_arena_len_bytes a = None
              then on_file (set_len (unat (da_arena_offset_bytes a + len))) else st_ret ()) (\<lambda>_.
     sync_data)))) a)"

section \<open>Opening and resetting\<close>

definition arena_on :: "DriveConfig \<Rightarrow> u64 option \<Rightarrow> u64 \<Rightarrow> bool \<Rightarrow> device \<Rightarrow> DriveArena" where
  "arena_on cfg len head is_block d =
     \<lparr>da_drive_id = dc_id cfg, da_file = d, da_arena_offset_bytes = dc_arena_offset_bytes cfg,
      da_arena_len_bytes = len, da_write_head = head, da_is_block_device = is_block\<rparr>"

definition open_config :: "bool \<Rightarrow> DriveConfig \<Rightarrow> (device, io_error, DriveArena) st" where
  "open_config existed cfg =
     st_bind (st_lift (validate_io_layout cfg)) (\<lambda>_.
     st_bind (open_direct_file existed (\<not> existed)) (\<lambda>_.
     st_bind syscall (\<lambda>_. \<lambda>d.
     let is_block_device = dev_block d; metadata_len = dev_len d in
     st_bind (resolve_arena_len_bytes is_block_device (dc_arena_offset_bytes cfg) (dc_arena_len_bytes cfg)) (\<lambda>arena_len.
     if \<not> existed \<or> (\<not> is_block_device \<and> metadata_len = 0) then
       let write_head = of_nat FILE_HEADER_LEN in
       st_bind (write_arena_header_at (dc_arena_offset_bytes cfg) (ArenaHeader_new (dc_id cfg) arena_len write_head)) (\<lambda>_.
       st_bind (if \<not> is_block_device \<and> arena_len = None
                then set_len (unat (dc_arena_offset_bytes cfg + write_head)) else st_ret ()) (\<lambda>_.
       st_bind sync_data_at (\<lambda>_.
       st_bind make_uring (\<lambda>_.
       (\<lambda>d'. (Inr (arena_on cfg arena_len write_head is_block_device d'), d'))))))
     else
       st_bind (read_arena_header (dc_arena_offset_bytes cfg)) (\<lambda>header.
       st_bind (st_lift (validate_arena_header header (dc_id cfg) arena_len)) (\<lambda>_.
       st_bind make_uring (\<lambda>_.
       (\<lambda>d'. (Inr (arena_on cfg arena_len (ah_write_head header) is_block_device d'), d')))))) d)))"

definition reset_config :: "bool \<Rightarrow> DriveConfig \<Rightarrow> (device, io_error, DriveArena) st" where
  "reset_config existed cfg =
     st_bind (st_lift (validate_io_layout cfg)) (\<lambda>_.
     st_bind (open_direct_file existed (\<not> existed)) (\<lambda>_.
     st_bind syscall (\<lambda>_. \<lambda>d.
     let is_block_device = dev_block d in
     st_bind (resolve_arena_len_bytes is_block_device (dc_arena_offset_bytes cfg) (dc_arena_len_bytes cfg)) (\<lambda>arena_len.
     let write_head = of_nat FILE_HEADER_LEN in
     st_bind (if \<not> is_block_device \<and> arena_len = None then set_len 0 else st_ret ()) (\<lambda>_.
     st_bind (write_arena_header_at (dc_arena_offset_bytes cfg) (ArenaHeader_new (dc_id cfg) arena_len write_head)) (\<lambda>_.
     st_bind (if \<not> is_block_device \<and> arena_len = None
              then set_len (unat (dc_arena_offset_bytes cfg + write_head)) else st_ret ()) (\<lambda>_.
     st_bind sync_data_at (\<lambda>_.
     st_bind make_uring (\<lambda>_.
     \<lambda>d'. (Inr (arena_on cfg arena_len write_head is_block_device d'), d'))))))) d)))"

section \<open>Recovery\<close>

text \<open>
  One turn of the replay loop up to the checksum: \<open>Inr None\<close> is a \<open>break\<close> with \<open>tail_corruption\<close>, an
  error of the first read leaves \<open>recover\<close>, an error of the second is tail corruption.
\<close>

definition read_frame :: "(u8 list \<Rightarrow> u32) \<Rightarrow> u64 \<Rightarrow> nat \<Rightarrow> nat \<Rightarrow> nat
    \<Rightarrow> (device, io_error, (FrameKind \<times> u8 list \<times> nat) option) st" where
  "read_frame crc arena_offset total_len span offset =
     (if total_len - offset < FRAME_HEADER_LEN \<or> span - offset < FRAME_HEADER_LEN then st_ret None
      else
        st_bind (read_exact_at (arena_offset + of_nat offset) FRAME_HEADER_LEN) (\<lambda>frame_header.
        let magic = le_word (subslice frame_header 0 4) :: u32 in
        if magic \<noteq> FRAME_MAGIC then st_ret None
        else case frame_kind_from_byte (frame_header ! 4) of
          None \<Rightarrow> st_ret None
        | Some kind \<Rightarrow>
            let payload_len = unat (le_word (subslice frame_header 8 12) :: u32);
                payload_crc = le_word (subslice frame_header 12 16) :: u32
            in case align_up_u64 (of_nat payload_len) (of_nat KIX_IO_ALIGN) of
                 Inl _ \<Rightarrow> st_ret None
               | Inr w \<Rightarrow>
                   let payload_disk_len = unat w in
                   if total_len - offset - FRAME_HEADER_LEN < payload_disk_len
                      \<or> span - (offset + FRAME_HEADER_LEN) < payload_disk_len then st_ret None
                   else (\<lambda>d.
                     (case read_exact_at (arena_offset + of_nat offset + of_nat FRAME_HEADER_LEN) payload_disk_len d of
                        (Inl _, d') \<Rightarrow> (Inr None, d')
                      | (Inr payload_block, d') \<Rightarrow>
                          let payload = take payload_len payload_block in
                          if crc payload \<noteq> payload_crc then (Inr None, d')
                          else (Inr (Some (kind, payload, payload_disk_len)), d')))))"

definition apply_payload :: "FrameKind \<Rightarrow> u8 list \<Rightarrow> entries \<Rightarrow> entries option" where
  "apply_payload kind payload entries =
     (case kind of
        Checkpoint \<Rightarrow> decode_checkpoint payload
      | DeltaBatch \<Rightarrow> map_option (\<lambda>deltas. fold apply_delta deltas entries) (decode_delta_batch payload))"

text \<open>The loop returns the entries, the replay offset, \<open>tail_corruption\<close> and \<open>applied_frames\<close>.\<close>

function recover_loop :: "(u8 list \<Rightarrow> u32) \<Rightarrow> u64 \<Rightarrow> nat \<Rightarrow> nat \<Rightarrow> entries \<Rightarrow> nat \<Rightarrow> nat
    \<Rightarrow> (device, io_error, entries \<times> nat \<times> bool \<times> nat) st" where
  "recover_loop crc arena_offset total_len span entries applied offset d =
     (if offset < total_len then
        (case read_frame crc arena_offset total_len span offset d of
           (Inl e, d') \<Rightarrow> (Inl e, d')
         | (Inr None, d') \<Rightarrow> (Inr (entries, offset, True, applied), d')
         | (Inr (Some (kind, payload, payload_disk_len)), d') \<Rightarrow>
             (case apply_payload kind payload entries of
                None \<Rightarrow> (Inr (if applied = 0 then [] else entries, offset, True, applied), d')
              | Some entries' \<Rightarrow>
                  recover_loop crc arena_offset total_len span entries' (Suc applied)
                    (offset + FRAME_HEADER_LEN + payload_disk_len) d'))
      else (Inr (entries, offset, False, applied), d))"
  by pat_completeness auto
termination
  by (relation "measure (\<lambda>(crc, arena_offset, total_len, span, entries, applied, offset, d). total_len - offset)") auto

declare recover_loop.simps [simp del]

definition no_recovery :: "u16 \<Rightarrow> bool \<Rightarrow> DriveRecovery" where
  "no_recovery drive rebuild =
     \<lparr>dr_drive_id = drive, dr_entries = [], dr_replay_len = 0, dr_tail_corruption = False,
      dr_rebuild_required = rebuild, dr_applied_frames = 0\<rparr>"

definition recover_body :: "(u8 list \<Rightarrow> u32) \<Rightarrow> DriveConfig \<Rightarrow> u64 option \<Rightarrow> ArenaHeader \<Rightarrow> (device, io_error, DriveRecovery) st" where
  "recover_body crc cfg arena_len header =
     (if \<not> is_ok (validate_arena_header header (dc_id cfg) arena_len) then st_ret (no_recovery (dc_id cfg) True)
      else
        st_bind (available_span_len (dc_arena_offset_bytes cfg) arena_len) (\<lambda>span.
        st_bind make_uring (\<lambda>_.
        st_bind (recover_loop crc (dc_arena_offset_bytes cfg) (unat (ah_write_head header)) (unat span) [] 0 FILE_HEADER_LEN)
          (\<lambda>(entries, offset, tail_corruption, applied).
        st_ret \<lparr>dr_drive_id = dc_id cfg, dr_entries = entries, dr_replay_len = of_nat offset,
                dr_tail_corruption = tail_corruption, dr_rebuild_required = False,
                dr_applied_frames = applied\<rparr>))))"

definition recover :: "(u8 list \<Rightarrow> u32) \<Rightarrow> bool \<Rightarrow> DriveConfig \<Rightarrow> (device, io_error, DriveRecovery) st" where
  "recover crc existed cfg =
     (if \<not> existed then st_ret (no_recovery (dc_id cfg) False)
      else
        st_bind (st_lift (validate_io_layout cfg)) (\<lambda>_.
        st_bind (open_direct_file existed False) (\<lambda>_.
        st_bind syscall (\<lambda>_. \<lambda>d.
        let is_block_device = dev_block d; metadata_len = dev_len d in
        st_bind (resolve_arena_len_bytes is_block_device (dc_arena_offset_bytes cfg) (dc_arena_len_bytes cfg)) (\<lambda>arena_len.
        if \<not> is_block_device \<and> metadata_len = 0 then st_ret (no_recovery (dc_id cfg) False)
        else (\<lambda>d1.
          (case read_arena_header (dc_arena_offset_bytes cfg) d1 of
             (Inl _, d2) \<Rightarrow> (Inr (no_recovery (dc_id cfg) True), d2)
           | (Inr header, d2) \<Rightarrow> recover_body crc cfg arena_len header d2))) d))))"

definition rebuild_from_entries :: "(u8 list \<Rightarrow> u32) \<Rightarrow> bool \<Rightarrow> DriveConfig \<Rightarrow> entries \<Rightarrow> (device, io_error, DriveRecovery) st" where
  "rebuild_from_entries crc existed cfg es =
     st_bind (reset_config existed cfg) (\<lambda>arena.
     st_bind (if es \<noteq> [] then (\<lambda>_. case write_checkpoint crc es arena of (r, a) \<Rightarrow> (r, da_file a)) else st_ret ()) (\<lambda>_.
     recover crc True cfg))"

end
