(* ===== verification/Kix_Log.thy ===== *)
theory Kix_Log
  imports Kix_Arena
begin

text \<open>
  What the arena promises: it holds a list of frames, \<open>recover\<close> replays them, an append adds one, and
  a crash anywhere inside an append leaves the old list or the new one. \<open>holds_log\<close> is the abstraction
  relation between a device and a list of frames.
\<close>

section \<open>The abstract log\<close>

datatype log_frame = CheckpointFrame entries | DeltaFrame "DeltaEntry list"

fun log_kind :: "log_frame \<Rightarrow> FrameKind" where
  "log_kind (CheckpointFrame es) = Checkpoint"
| "log_kind (DeltaFrame ds) = DeltaBatch"

fun log_payload :: "log_frame \<Rightarrow> u8 list" where
  "log_payload (CheckpointFrame es) = checkpoint_payload es"
| "log_payload (DeltaFrame ds) = delta_payload ds"

fun apply_frame :: "log_frame \<Rightarrow> entries \<Rightarrow> entries" where
  "apply_frame (CheckpointFrame es) m = insert_all es []"
| "apply_frame (DeltaFrame ds) m = fold apply_delta ds m"

definition replay_log :: "log_frame list \<Rightarrow> entries" where
  "replay_log fs = fold apply_frame fs []"

definition pad :: "nat \<Rightarrow> nat" where
  "pad n = (n + 4095) div 4096 * 4096"

text \<open>The bytes of a frame, and its length on disk.\<close>

definition frame_image :: "(u8 list \<Rightarrow> u32) \<Rightarrow> FrameKind \<Rightarrow> u8 list \<Rightarrow> u8 list" where
  "frame_image crc k p = resize (encode_frame_header crc k p @ p) (4096 + pad (length p))"

definition image_of :: "(u8 list \<Rightarrow> u32) \<Rightarrow> log_frame \<Rightarrow> u8 list" where
  "image_of crc f = frame_image crc (log_kind f) (log_payload f)"

definition log_size :: "log_frame \<Rightarrow> nat" where
  "log_size f = 4096 + pad (length (log_payload f))"

definition log_len :: "log_frame list \<Rightarrow> nat" where
  "log_len fs = sum_list (map log_size fs)"

text \<open>
  A frame that fits the ring's length fields, with chunk identifiers of 32 bytes and a record exactly
  in the upserts.
\<close>

fun log_frame_ok :: "log_frame \<Rightarrow> bool" where
  "log_frame_ok (CheckpointFrame es) \<longleftrightarrow> list_all entry_ok es \<and> 4096 + pad (4 + 60 * length es) < 0x7ffff000"
| "log_frame_ok (DeltaFrame ds) \<longleftrightarrow> list_all delta_ok ds \<and> 4096 + pad (4 + 64 * length ds) < 0x7ffff000"

section \<open>Arithmetic\<close>

lemma pad_ge: "n \<le> pad n"
  using div_mult_mod_eq [of "n + 4095" 4096] mod_less_divisor [of 4096 "n + 4095"]
  unfolding pad_def by linarith

lemma pad_dvd: "4096 dvd pad n"
  by (simp add: pad_def)

lemma pad_less: "pad n < n + 4096"
  using div_mult_mod_eq [of "n + 4095" 4096] unfolding pad_def by linarith

lemma pad_id: "4096 dvd n \<Longrightarrow> pad n = n"
  by (auto simp: pad_def elim!: dvdE)

lemma pad_step: "\<not> 4096 dvd n \<Longrightarrow> pad n = n + (4096 - n mod 4096)"
proof -
  assume nd: "\<not> 4096 dvd n"
  define q r where "q = n div 4096" and "r = n mod 4096"
  have f: "n = 4096 * q + r" "0 < r" "r < 4096"
    using nd by (simp_all add: q_def r_def dvd_eq_mod_eq_0)
  have "(n + 4095) div 4096 = Suc q"
    by (rule div_nat_eqI) (use f in simp_all)
  then show ?thesis
    using f unfolding pad_def r_def [symmetric] by simp
qed

lemma pad_4096 [simp]: "pad 4096 = 4096"
  by (simp add: pad_def)

lemma align_up_u64_pad:
  assumes "pad n < 2 ^ 64"
  shows "align_up_u64 (of_nat n) 4096 = Inr (of_nat (pad n))"
proof -
  have n: "n < 2 ^ 64" using pad_ge [of n] assms by simp
  have m: "unat ((of_nat n :: u64) mod 4096) = n mod 4096"
    using n by (simp add: unat_mod_distrib unat_of_nat)
  show ?thesis
  proof (cases "4096 dvd n")
    case True
    then have "(of_nat n :: u64) mod 4096 = 0" using m by (simp add: word_unat_eq_iff dvd_eq_mod_eq_0)
    then show ?thesis using True by (simp add: align_up_u64_def pad_id)
  next
    case False
    have "(of_nat n :: u64) mod 4096 \<noteq> 0" using m False by (metis dvd_eq_mod_eq_0 unat_0)
    moreover have "(4096 :: u64) - of_nat n mod 4096 = of_nat (4096 - n mod 4096)"
      by (simp add: word_unat_eq_iff unat_sub word_le_nat_alt m unat_of_nat del: of_nat_diff)
    moreover have "checked_add (of_nat n :: u64) (of_nat (4096 - n mod 4096)) = Some (of_nat (pad n))"
      using n assms pad_step [OF False]
      by (simp add: checked_add_def unat_of_nat del: of_nat_diff flip: of_nat_add)
    ultimately show ?thesis by (simp add: align_up_u64_def Let_def)
  qed
qed

lemma align_up_usize_pad: "pad n < 2 ^ 64 \<Longrightarrow> align_up_usize n 4096 = Inr (pad n)"
  by (simp add: align_up_usize_def align_up_u64_pad unat_of_nat)

lemma from_padded_bytes_pad:
  "0 < length bs \<Longrightarrow> pad (length bs) < 2 ^ 62 \<Longrightarrow> from_padded_bytes bs = Inr (resize bs (pad (length bs)))"
  using pad_ge [of "length bs"]
  by (cases "pad (length bs)") (simp_all add: from_padded_bytes_def align_up_usize_pad aligned_zeroed_def patch_inside resize_def)

lemma from_padded_bytes_id:
  "0 < length bs \<Longrightarrow> 4096 dvd length bs \<Longrightarrow> length bs < 2 ^ 62 \<Longrightarrow> from_padded_bytes bs = Inr bs"
  by (simp add: from_padded_bytes_pad pad_id resize_def)

section \<open>Images\<close>

lemma length_frame_image [simp]: "length (frame_image crc k p) = 4096 + pad (length p)"
  by (simp add: frame_image_def)

lemma length_image_of [simp]: "length (image_of crc f) = log_size f"
  by (simp add: image_of_def log_size_def)

lemma length_log_payload:
  "log_frame_ok f \<Longrightarrow> 4 \<le> length (log_payload f)"
  "log_frame_ok f \<Longrightarrow> log_size f < 0x7ffff000"
  by (cases f; simp add: length_delta_payload length_checkpoint_payload log_size_def)+

lemma length_concat_images [simp]: "length (concat (map (image_of crc) fs)) = log_len fs"
  by (induction fs) (auto simp: log_len_def)

lemma log_len_append [simp]: "log_len (fs @ gs) = log_len fs + log_len gs"
  by (simp add: log_len_def)

lemma log_len_simps [simp]: "log_len [] = 0" "log_len (f # fs) = log_size f + log_len fs"
  by (simp_all add: log_len_def)

lemma log_len_dvd: "4096 dvd log_len fs"
  by (induction fs) (auto simp: log_size_def pad_dvd)

lemma log_size_dvd: "4096 dvd log_size f"
  by (simp add: log_size_def pad_dvd)

lemma apply_payload_log:
  assumes "log_frame_ok f"
  shows "apply_payload (log_kind f) (log_payload f) m = Some (apply_frame f m)"
proof (cases f)
  case (CheckpointFrame es)
  have "length es < 2 ^ 32"
    using assms CheckpointFrame pad_ge [of "4 + 60 * length es"] by simp
  with assms CheckpointFrame show ?thesis
    by (simp add: apply_payload_def decode_checkpoint_payload)
next
  case (DeltaFrame ds)
  have "length ds < 2 ^ 32"
    using assms DeltaFrame pad_ge [of "4 + 64 * length ds"] by simp
  with assms DeltaFrame show ?thesis
    by (simp add: apply_payload_def decode_delta_payload)
qed

section \<open>Reading back\<close>

lemma unat_add_of_nat: "unat w + n < 2 ^ 64 \<Longrightarrow> unat (w + of_nat n) = unat w + n" for w :: u64
  by (subst unat_add_no_wrap) (simp_all add: unat_of_nat)

lemma read_exact_at_quiet [io_simps]:
  assumes "quiet d" "0 < n" "pad n < 0x7ffff000" "unat off + pad n \<le> dev_len d"
  shows "read_exact_at off n d = (Inr (load_bytes (dev_bytes d) (unat off) n), d)"
  using assms pad_ge [of n]
  by (simp add: read_exact_at_def align_up_usize_pad aligned_zeroed_def submit_read_quiet st_bind_def min_def)

lemma image_parts:
  assumes "load_bytes g off (4096 + pad (length p)) = frame_image crc k p"
  shows "load_bytes g off 4096 = encode_frame_header crc k p"
    and "load_bytes g (off + 4096) (length p) = p"
proof -
  have i: "frame_image crc k p = encode_frame_header crc k p @ p @ zeros (pad (length p) - length p)"
    using pad_ge [of "length p"] by (simp add: frame_image_def resize_def)
  show "load_bytes g off 4096 = encode_frame_header crc k p"
    using bytes.rd_sub [OF assms, of 0 4096] by (simp add: i)
  show "load_bytes g (off + 4096) (length p) = p"
    using bytes.rd_sub [OF assms, of 4096 "length p"] pad_ge [of "length p"] by (simp add: i)
qed

lemma read_frame_image:
  assumes q: "quiet d" and p: "0 < length p" "4096 + pad (length p) < 0x7ffff000"
    and b: "unat ao + offset + 4096 + pad (length p) \<le> dev_len d" "dev_len d < 2 ^ 64"
    and t: "offset + 4096 + pad (length p) \<le> tot" "offset + 4096 + pad (length p) \<le> span"
    and i: "load_bytes (dev_bytes d) (unat ao + offset) (4096 + pad (length p)) = frame_image crc k p"
  shows "read_frame crc ao tot span offset d = (Inr (Some (k, p, pad (length p))), d)"
proof -
  note parts = image_parts [OF i]
  have lp: "length p < 2 ^ 32" "0 < pad (length p)"
    using p pad_ge [of "length p"] by (simp, linarith)
  have o1: "unat (ao + of_nat offset) = unat ao + offset"
    and o2: "unat (ao + of_nat offset + 4096) = unat ao + offset + 4096"
    using b unat_add_of_nat [of ao offset] unat_add_of_nat [of ao "offset + 4096"]
    by (simp_all add: add.assoc)
  have r1: "read_exact_at (ao + of_nat offset) 4096 d = (Inr (encode_frame_header crc k p), d)"
    using q b by (simp add: read_exact_at_quiet o1 parts)
  have r2: "read_exact_at (ao + of_nat offset + 4096) (pad (length p)) d
      = (Inr (load_bytes (dev_bytes d) (unat ao + offset + 4096) (pad (length p))), d)"
    using q b p lp by (simp add: read_exact_at_quiet o2 pad_id pad_dvd)
  have "take (length p) (load_bytes (dev_bytes d) (unat ao + offset + 4096) (pad (length p))) = p"
    using parts(2) pad_ge [of "length p"] by (simp add: min_absorb1)
  moreover have "align_up_u64 (of_nat (length p)) 4096 = Inr (of_nat (pad (length p)))"
    using p by (intro align_up_u64_pad) simp
  moreover have "unat (of_nat (pad (length p)) :: u64) = pad (length p)"
    "unat (of_nat (length p) :: u32) = length p"
    using p lp by (simp_all add: unat_of_nat)
  moreover have "\<not> tot - (offset + 4096) < pad (length p)" "\<not> span - (offset + 4096) < pad (length p)"
    "\<not> tot - offset < 4096" "\<not> span - offset < 4096"
    using t by linarith+
  ultimately show ?thesis
    using r1 r2
    by (simp add: read_frame_def st_bind_def encode_frame_header_fields Let_def)
qed

lemma recover_loop_frames:
  assumes "quiet d" "list_all log_frame_ok fs"
    and "unat ao + offset + log_len fs \<le> dev_len d" "dev_len d < 2 ^ 64"
    and "offset + log_len fs \<le> tot" "offset + log_len fs \<le> span"
    and "load_bytes (dev_bytes d) (unat ao + offset) (log_len fs) = concat (map (image_of crc) fs)"
  shows "recover_loop crc ao tot span m n offset d =
         recover_loop crc ao tot span (fold apply_frame fs m) (n + length fs) (offset + log_len fs) d"
  using assms
proof (induction fs arbitrary: m n offset)
  case Nil
  then show ?case by simp
next
  case (Cons f fs)
  let ?p = "log_payload f"
  have f: "log_frame_ok f" using Cons.prems by simp
  note size = log_size_def [of f]
  have sp: "load_bytes (dev_bytes d) (unat ao + offset) (log_size f) = image_of crc f"
    "load_bytes (dev_bytes d) (unat ao + (offset + log_size f)) (log_len fs) = concat (map (image_of crc) fs)"
    using Cons.prems(7) load_bytes_append [of "dev_bytes d" "unat ao + offset" "log_size f" "log_len fs"]
    by (simp_all add: append_eq_append_conv add.assoc)
  have "read_frame crc ao tot span offset d = (Inr (Some (log_kind f, ?p, pad (length ?p))), d)"
    using Cons.prems sp(1) length_log_payload [OF f] size
    by (intro read_frame_image) (auto simp: image_of_def)
  then have "recover_loop crc ao tot span m n offset d =
      recover_loop crc ao tot span (apply_frame f m) (Suc n) (offset + log_size f) d"
    using Cons.prems(5) size by (simp add: recover_loop.simps [of _ _ _ _ m] apply_payload_log [OF f] add.assoc)
  also have "\<dots> = recover_loop crc ao tot span (fold apply_frame fs (apply_frame f m)) (Suc n + length fs)
      (offset + log_size f + log_len fs) d"
    using Cons.prems sp(2) by (intro Cons.IH) auto
  finally show ?case by (simp add: add.assoc)
qed

section \<open>The abstraction relation\<close>

definition span_of :: "DriveConfig \<Rightarrow> device \<Rightarrow> u64 option" where
  "span_of cfg d =
     (case dc_arena_len_bytes cfg of
        Some len \<Rightarrow> Some len
      | None \<Rightarrow> if dev_block d then Some (of_nat (dev_len d) - dc_arena_offset_bytes cfg) else None)"

text \<open>
  The place of the arena on its backing store: aligned, and its span inside the store. A
  regular file without a configured span grows with the log.
\<close>

definition arena_place :: "DriveConfig \<Rightarrow> device \<Rightarrow> bool" where
  "arena_place cfg d \<longleftrightarrow>
     validate_io_layout cfg = Inr () \<and> dev_len d < 2 ^ 64
     \<and> unat (dc_arena_offset_bytes cfg) + 4096 \<le> dev_len d
     \<and> (case span_of cfg d of
          Some len \<Rightarrow> 4096 \<le> unat len \<and> unat (dc_arena_offset_bytes cfg) + unat len \<le> dev_len d
        | None \<Rightarrow> True)"

definition head_of :: "log_frame list \<Rightarrow> nat" where
  "head_of fs = 4096 + log_len fs"

definition log_fits :: "DriveConfig \<Rightarrow> log_frame list \<Rightarrow> device \<Rightarrow> bool" where
  "log_fits cfg fs d \<longleftrightarrow>
     (case span_of cfg d of
        Some len \<Rightarrow> head_of fs \<le> unat len
      | None \<Rightarrow> unat (dc_arena_offset_bytes cfg) + head_of fs < 2 ^ 64)"

definition log_body :: "(u8 list \<Rightarrow> u32) \<Rightarrow> DriveConfig \<Rightarrow> log_frame list \<Rightarrow> device \<Rightarrow> bool" where
  "log_body crc cfg fs d \<longleftrightarrow>
     arena_place cfg d \<and> log_fits cfg fs d \<and> list_all log_frame_ok fs
     \<and> unat (dc_arena_offset_bytes cfg) + head_of fs \<le> dev_len d
     \<and> load_bytes (dev_bytes d) (unat (dc_arena_offset_bytes cfg) + 4096) (log_len fs)
         = concat (map (image_of crc) fs)"

definition header_is :: "DriveConfig \<Rightarrow> nat \<Rightarrow> device \<Rightarrow> bool" where
  "header_is cfg n d \<longleftrightarrow>
     decode_arena_header (load_bytes (dev_bytes d) (unat (dc_arena_offset_bytes cfg)) 4096)
       = Inr (ArenaHeader_new (dc_id cfg) (span_of cfg d) (of_nat n))"

definition holds_log :: "(u8 list \<Rightarrow> u32) \<Rightarrow> DriveConfig \<Rightarrow> log_frame list \<Rightarrow> device \<Rightarrow> bool" where
  "holds_log crc cfg fs d \<longleftrightarrow> log_body crc cfg fs d \<and> header_is cfg (head_of fs) d"

section \<open>Recovery of a log\<close>

lemma arena_place_span:
  assumes "arena_place cfg d" "span_of cfg d = Some len"
  shows "4096 \<le> unat len" "unat (dc_arena_offset_bytes cfg) + unat len \<le> dev_len d"
    "unat (dc_arena_offset_bytes cfg + len) = unat (dc_arena_offset_bytes cfg) + unat len"
  using assms by (auto simp: arena_place_def unat_add_no_wrap)

lemma capacity_quiet [io_simps]:
  "quiet d \<Longrightarrow> storage_capacity_bytes d = (Inr (of_nat (dev_len d)), d)"
  by (simp add: storage_capacity_bytes_def st_bind_def syscall_quiet)

lemma resolve_quiet [io_simps]:
  assumes "quiet d" "arena_place cfg d"
  shows "resolve_arena_len_bytes (dev_block d) (dc_arena_offset_bytes cfg) (dc_arena_len_bytes cfg) d
         = (Inr (span_of cfg d), d)"
proof -
  let ?ao = "dc_arena_offset_bytes cfg"
  have l: "unat (of_nat (dev_len d) :: u64) = dev_len d"
    using assms(2) by (simp add: arena_place_def unat_of_nat)
  have "\<not> of_nat (dev_len d) < ?ao"
    using assms(2) by (simp add: word_less_nat_alt l arena_place_def)
  moreover have "\<not> len < 4096" "\<not> of_nat (dev_len d) < ?ao + len" if "span_of cfg d = Some len" for len
    using arena_place_span [OF assms(2) that] by (simp_all add: word_less_nat_alt l)
  ultimately show ?thesis
    using assms(1)
    by (auto simp: resolve_arena_len_bytes_def st_bind_def capacity_quiet span_of_def Let_def split: option.splits if_splits)
qed

lemma available_span_quiet [io_simps]:
  assumes "quiet d" "dev_len d < 2 ^ 64"
  shows "\<exists>w. available_span_len ao len d = (Inr w, d)
     \<and> unat w = (case len of Some l \<Rightarrow> min (unat l) (dev_len d - unat ao) | None \<Rightarrow> dev_len d - unat ao)"
proof -
  have l: "unat (of_nat (dev_len d) :: u64) = dev_len d"
    using assms(2) by (simp add: unat_of_nat)
  have "unat (min a b) = min (unat a) (unat b)" for a b :: u64
    by (simp add: min_def word_le_nat_alt)
  with l show ?thesis
    using assms(1) by (auto simp: available_span_len_def st_bind_def capacity_quiet Let_def split: option.split)
qed

lemma validate_arena_header_new:
  assumes "4096 \<le> h" "4096 dvd h" "h < 2 ^ 64" "\<And>l. len = Some l \<Longrightarrow> h \<le> unat l"
  shows "validate_arena_header (ArenaHeader_new i len (of_nat h)) i len = Inr ()"
proof -
  have u: "unat (of_nat h :: u64) = h" using assms(3) by (simp add: unat_of_nat)
  have "is_aligned_u64 (of_nat h) 4096"
    using assms(2) by (simp add: is_aligned_u64_def word_unat_eq_iff unat_mod_distrib u dvd_eq_mod_eq_0)
  moreover have "\<not> (of_nat h :: u64) < 4096" using assms(1) by (simp add: word_less_nat_alt u)
  moreover have "\<not> l < of_nat h" if "len = Some l" for l
    using assms(4) [OF that] by (simp add: word_less_nat_alt u)
  ultimately show ?thesis
    by (cases len) (simp_all add: validate_arena_header_def, simp_all add: ArenaHeader_new_def)
qed

lemma holds_log_valid:
  assumes "holds_log crc cfg fs d"
  shows "validate_arena_header (ArenaHeader_new (dc_id cfg) (span_of cfg d) (of_nat (head_of fs))) (dc_id cfg) (span_of cfg d) = Inr ()"
    "head_of fs < 2 ^ 64"
proof -
  show lt: "head_of fs < 2 ^ 64"
    using assms by (auto simp: holds_log_def log_body_def arena_place_def)
  show "validate_arena_header (ArenaHeader_new (dc_id cfg) (span_of cfg d) (of_nat (head_of fs))) (dc_id cfg) (span_of cfg d) = Inr ()"
    using assms lt log_len_dvd [of fs]
    by (intro validate_arena_header_new)
      (auto simp: head_of_def holds_log_def log_body_def log_fits_def)
qed

lemma read_header_is [io_simps]:
  assumes "quiet d" "arena_place cfg d" "header_is cfg n d"
  shows "read_arena_header (dc_arena_offset_bytes cfg) d
    = (Inr (ArenaHeader_new (dc_id cfg) (span_of cfg d) (of_nat n)), d)"
  using assms
  by (simp add: read_arena_header_def make_uring_def st_bind_def syscall_quiet read_exact_at_quiet
      arena_place_def header_is_def)

lemma read_header_holds [io_simps]:
  assumes "quiet d" "holds_log crc cfg fs d"
  shows "read_arena_header (dc_arena_offset_bytes cfg) d
    = (Inr (ArenaHeader_new (dc_id cfg) (span_of cfg d) (of_nat (head_of fs))), d)"
  using assms by (simp add: read_header_is holds_log_def log_body_def)

definition recovered :: "DriveConfig \<Rightarrow> log_frame list \<Rightarrow> DriveRecovery" where
  "recovered cfg fs =
     \<lparr>dr_drive_id = dc_id cfg, dr_entries = replay_log fs, dr_replay_len = of_nat (head_of fs),
      dr_tail_corruption = False, dr_rebuild_required = False, dr_applied_frames = length fs\<rparr>"

lemma recover_loop_holds:
  assumes "quiet d" "holds_log crc cfg fs d"
    "case span_of cfg d of Some l \<Rightarrow> span = min (unat l) (dev_len d - unat (dc_arena_offset_bytes cfg))
       | None \<Rightarrow> span = dev_len d - unat (dc_arena_offset_bytes cfg)"
  shows "recover_loop crc (dc_arena_offset_bytes cfg) (head_of fs) span [] 0 4096 d
    = (Inr (replay_log fs, head_of fs, False, length fs), d)"
proof -
  have "4096 + log_len fs \<le> span"
    using assms(2,3) arena_place_span [of cfg d]
    by (auto simp: holds_log_def log_body_def log_fits_def head_of_def split: option.splits)
  then have "recover_loop crc (dc_arena_offset_bytes cfg) (head_of fs) span [] 0 4096 d =
      recover_loop crc (dc_arena_offset_bytes cfg) (head_of fs) span (fold apply_frame fs []) (0 + length fs) (4096 + log_len fs) d"
    using assms(1,2)
    by (intro recover_loop_frames) (auto simp: holds_log_def log_body_def head_of_def arena_place_def)
  then show ?thesis
    by (simp add: recover_loop.simps [of _ _ _ _ "fold apply_frame fs []"] head_of_def replay_log_def)
qed

lemma recover_via_loop:
  assumes q: "quiet d" and pl: "arena_place cfg d" and hd: "header_is cfg n d"
    and n: "4096 \<le> n" "4096 dvd n" "n < 2 ^ 64" "\<And>l. span_of cfg d = Some l \<Longrightarrow> n \<le> unat l"
    and loop: "\<And>span. (case span_of cfg d of
        Some l \<Rightarrow> span = min (unat l) (dev_len d - unat (dc_arena_offset_bytes cfg))
      | None \<Rightarrow> span = dev_len d - unat (dc_arena_offset_bytes cfg)) \<Longrightarrow>
      recover_loop crc (dc_arena_offset_bytes cfg) n span [] 0 4096 d = (Inr (m, off, t, k), d)"
  shows "recover crc True cfg d = (Inr \<lparr>dr_drive_id = dc_id cfg, dr_entries = m, dr_replay_len = of_nat off,
      dr_tail_corruption = t, dr_rebuild_required = False, dr_applied_frames = k\<rparr>, d)"
proof -
  let ?h = "ArenaHeader_new (dc_id cfg) (span_of cfg d) (of_nat n)"
  have d: "0 < dev_len d" "dev_len d < 2 ^ 64" "validate_io_layout cfg = Inr ()"
    using pl by (auto simp: arena_place_def)
  obtain w where w: "available_span_len (dc_arena_offset_bytes cfg) (span_of cfg d) d = (Inr w, d)"
      "unat w = (case span_of cfg d of Some l \<Rightarrow> min (unat l) (dev_len d - unat (dc_arena_offset_bytes cfg))
                 | None \<Rightarrow> dev_len d - unat (dc_arena_offset_bytes cfg))"
    using available_span_quiet [OF q d(2)] by blast
  have l: "recover_loop crc (dc_arena_offset_bytes cfg) n (unat w) [] 0 4096 d = (Inr (m, off, t, k), d)"
    using w(2) by (intro loop) (auto split: option.split)
  have v: "validate_arena_header ?h (dc_id cfg) (span_of cfg d) = Inr ()"
    using n by (intro validate_arena_header_new)
  have hu: "unat (ah_write_head ?h) = n" using n by (simp add: ArenaHeader_new_def unat_of_nat)
  have "recover_body crc cfg (span_of cfg d) ?h d = (Inr \<lparr>dr_drive_id = dc_id cfg, dr_entries = m, dr_replay_len = of_nat off,
      dr_tail_corruption = t, dr_rebuild_required = False, dr_applied_frames = k\<rparr>, d)"
    using q w(1) l v hu by (simp add: recover_body_def make_uring_def st_bind_def syscall_quiet)
  then show ?thesis
    using pl q d hd
    by (simp add: recover_def open_direct_file_def st_bind_def syscall_quiet resolve_quiet read_header_is Let_def)
qed

lemma recover_holds:
  assumes "quiet d" "holds_log crc cfg fs d"
  shows "recover crc True cfg d = (Inr (recovered cfg fs), d)"
  unfolding recovered_def
proof (rule recover_via_loop [OF assms(1)])
  show "arena_place cfg d" "header_is cfg (head_of fs) d" using assms(2) by (auto simp: holds_log_def log_body_def)
  show "4096 \<le> head_of fs" "4096 dvd head_of fs" using log_len_dvd [of fs] by (auto simp: head_of_def)
  show "head_of fs < 2 ^ 64" by (rule holds_log_valid(2) [OF assms(2)])
  show "head_of fs \<le> unat l" if "span_of cfg d = Some l" for l
    using assms(2) that by (simp add: holds_log_def log_body_def log_fits_def)
qed (rule recover_loop_holds [OF assms])

lemma open_holds:
  assumes "quiet d" "holds_log crc cfg fs d"
  shows "open_config True cfg d = (Inr (arena_on cfg (span_of cfg d) (of_nat (head_of fs)) (dev_block d) d), d)"
proof -
  have pl: "arena_place cfg d" "0 < dev_len d" "validate_io_layout cfg = Inr ()"
    using assms(2) by (auto simp: holds_log_def log_body_def arena_place_def)
  then show ?thesis
    using assms holds_log_valid(1) [OF assms(2)]
    by (simp add: open_config_def open_direct_file_def st_bind_def syscall_quiet resolve_quiet read_header_holds
        make_uring_def Let_def) (simp add: ArenaHeader_new_def)
qed

section \<open>Writes and the log\<close>

text \<open>A write that stays in the span, or that extends a growing file, keeps the geometry.\<close>

definition write_fits :: "DriveConfig \<Rightarrow> nat \<Rightarrow> device \<Rightarrow> bool" where
  "write_fits cfg n d \<longleftrightarrow>
     (case span_of cfg d of
        Some len \<Rightarrow> n \<le> unat len
      | None \<Rightarrow> unat (dc_arena_offset_bytes cfg) + n < 2 ^ 64)"

lemma log_fits_write_fits: "log_fits cfg fs d = write_fits cfg (head_of fs) d"
  by (simp add: log_fits_def write_fits_def)

lemma write_fits_len:
  assumes "arena_place cfg d" "write_fits cfg n d" "dev_block d \<or> span_of cfg d \<noteq> None"
  shows "unat (dc_arena_offset_bytes cfg) + n \<le> dev_len d"
proof -
  obtain len where "span_of cfg d = Some len"
    using assms(3) by (auto simp: span_of_def split: option.splits)
  with assms(2) arena_place_span(2) [OF assms(1)] show ?thesis by (auto simp: write_fits_def)
qed

lemma span_of_put:
  assumes "arena_place cfg d" "write_fits cfg (n + length bs) d"
  shows "span_of cfg (put_bytes (unat (dc_arena_offset_bytes cfg) + n) bs d) = span_of cfg d"
proof (cases "dev_block d")
  case True
  with write_fits_len [OF assms(1,2)] show ?thesis by (simp add: span_of_def add.assoc split: option.split)
qed (simp add: span_of_def)

lemma arena_place_put:
  assumes "arena_place cfg d" "write_fits cfg (n + length bs) d"
  shows "arena_place cfg (put_bytes (unat (dc_arena_offset_bytes cfg) + n) bs d)"
proof (cases "span_of cfg d")
  case None
  then have "unat (dc_arena_offset_bytes cfg) + (n + length bs) < 2 ^ 64"
    using assms(2) by (simp add: write_fits_def)
  with assms None show ?thesis
    by (auto simp: arena_place_def span_of_put put_bytes_def [of _ bs] span_of_def split: option.splits)
next
  case (Some len)
  have "unat (dc_arena_offset_bytes cfg) + n + length bs \<le> dev_len d"
    using write_fits_len [OF assms] Some by (simp add: add.assoc)
  with assms Some show ?thesis by (simp add: arena_place_def span_of_put)
qed

lemma log_body_put_above:
  assumes "log_body crc cfg fs d" "write_fits cfg (head_of fs + length bs) d"
  shows "log_body crc cfg fs (put_bytes (unat (dc_arena_offset_bytes cfg) + head_of fs) bs d)"
  using assms arena_place_put [OF _ assms(2)] span_of_put [OF _ assms(2)]
    dev_len_put_bytes_ge [of d "unat (dc_arena_offset_bytes cfg) + head_of fs" bs]
  by (auto simp: log_body_def log_fits_def head_of_def load_store_other)

lemma header_is_put_above:
  assumes "log_body crc cfg fs d" "write_fits cfg (head_of fs + length bs) d" "header_is cfg n d"
  shows "header_is cfg n (put_bytes (unat (dc_arena_offset_bytes cfg) + head_of fs) bs d)"
  using assms span_of_put [OF _ assms(2)]
  by (auto simp: log_body_def header_is_def head_of_def load_store_other)

lemma head_of_snoc: "head_of (fs @ [f]) = head_of fs + log_size f"
  by (simp add: head_of_def)

lemma log_body_snoc:
  assumes "log_body crc cfg fs d" "log_frame_ok f" "log_fits cfg (fs @ [f]) d"
  shows "log_body crc cfg (fs @ [f]) (put_bytes (unat (dc_arena_offset_bytes cfg) + head_of fs) (image_of crc f) d)"
proof -
  let ?d = "put_bytes (unat (dc_arena_offset_bytes cfg) + head_of fs) (image_of crc f) d"
  have w: "write_fits cfg (head_of fs + length (image_of crc f)) d"
    using assms(3) by (simp add: log_fits_write_fits head_of_snoc)
  have b: "log_body crc cfg fs ?d" using assms(1) w by (rule log_body_put_above)
  have "load_bytes (dev_bytes ?d) (unat (dc_arena_offset_bytes cfg) + 4096 + log_len fs) (log_size f) = image_of crc f"
    using load_store_same [of "dev_bytes d" "unat (dc_arena_offset_bytes cfg) + head_of fs" "image_of crc f"]
    by (simp add: head_of_def add.assoc)
  then have "load_bytes (dev_bytes ?d) (unat (dc_arena_offset_bytes cfg) + 4096) (log_len (fs @ [f]))
      = concat (map (image_of crc) (fs @ [f]))"
    using b by (simp add: load_bytes_append log_body_def)
  moreover have "unat (dc_arena_offset_bytes cfg) + head_of (fs @ [f]) \<le> dev_len ?d"
    by (auto simp: put_bytes_def head_of_snoc add.assoc)
      (metis length_image_of list.size(3) add_is_0 log_size_def zero_neq_numeral)
  ultimately show ?thesis
    using b assms span_of_put [OF _ w] by (simp add: log_body_def log_fits_def)
qed

lemma header_write_fits: "arena_place cfg d \<Longrightarrow> n \<le> 4096 \<Longrightarrow> write_fits cfg (0 + n) d"
  using arena_place_span(1) [of cfg d] by (auto simp: write_fits_def arena_place_def split: option.splits)

lemma log_body_put_header:
  assumes "log_body crc cfg fs d" "length bs \<le> 4096"
  shows "log_body crc cfg fs (put_bytes (unat (dc_arena_offset_bytes cfg)) bs d)"
proof -
  have p: "arena_place cfg d" using assms(1) by (simp add: log_body_def)
  note w = header_write_fits [OF p assms(2)]
  show ?thesis
    using assms arena_place_put [OF p w] span_of_put [OF p w]
      dev_len_put_bytes_ge [of d "unat (dc_arena_offset_bytes cfg)" bs]
    by (auto simp: log_body_def log_fits_def load_store_other)
qed

text \<open>The first sector decides which header a reader sees.\<close>

lemma header_is_put_header:
  assumes "arena_place cfg d" "28 \<le> k" "k \<le> 4096"
  shows "header_is cfg n (put_bytes (unat (dc_arena_offset_bytes cfg))
     (take k (encode_arena_header (ArenaHeader_new (dc_id cfg) (span_of cfg d) (of_nat n)))) d)"
proof -
  let ?ao = "unat (dc_arena_offset_bytes cfg)"
  let ?h = "ArenaHeader_new (dc_id cfg) (span_of cfg d) (of_nat n)"
  let ?bs = "take k (encode_arena_header ?h)"
  have sp: "span_of cfg (put_bytes ?ao ?bs d) = span_of cfg d"
    using span_of_put [OF assms(1) header_write_fits [OF assms(1)], of ?bs] by simp
  have "take 28 (load_bytes (store_bytes (dev_bytes d) ?ao ?bs) ?ao 4096) = take 28 (encode_arena_header ?h)"
    using bytes.rd_wr_prefix [of 28 ?bs "dev_bytes d" ?ao] assms(2,3) by (simp add: min_def)
  then have "decode_arena_header (load_bytes (store_bytes (dev_bytes d) ?ao ?bs) ?ao 4096) = Inr ?h"
    by (metis decode_arena_header_sector decode_encode_arena_header order_refl)
  then show ?thesis by (simp add: header_is_def sp)
qed

lemma span_of_env [simp]:
  "span_of cfg (d\<lparr>dev_sched := s\<rparr>) = span_of cfg d" "span_of cfg (d\<lparr>dev_durable := u\<rparr>) = span_of cfg d"
  by (simp_all add: span_of_def cong: option.case_cong)

lemma log_sched [simp]:
  "log_body crc cfg fs (d\<lparr>dev_sched := s\<rparr>) = log_body crc cfg fs d"
  "header_is cfg n (d\<lparr>dev_sched := s\<rparr>) = header_is cfg n d"
  "log_body crc cfg fs (d\<lparr>dev_durable := u\<rparr>) = log_body crc cfg fs d"
  "header_is cfg n (d\<lparr>dev_durable := u\<rparr>) = header_is cfg n d"
  "write_fits cfg n (d\<lparr>dev_sched := s\<rparr>) = write_fits cfg n d"
  "arena_place cfg (d\<lparr>dev_sched := s\<rparr>) = arena_place cfg d"
  "log_fits cfg fs (d\<lparr>dev_sched := s\<rparr>) = log_fits cfg fs d"
  by (simp_all add: log_body_def header_is_def arena_place_def log_fits_def write_fits_def cong: option.case_cong)

lemma holds_log_sched [simp]:
  "holds_log crc cfg fs (d\<lparr>dev_sched := s\<rparr>) = holds_log crc cfg fs d"
  "holds_log crc cfg fs (d\<lparr>dev_durable := u\<rparr>) = holds_log crc cfg fs d"
  by (simp_all add: holds_log_def)

section \<open>Append under any schedule\<close>

lemma write_all_at_cases:
  assumes "write_all_at off bs a = (r, a')" "0 < length bs" "4096 dvd length bs" "length bs < 0x7ffff000"
  obtains (full) s where "r = Inr ()" "a' = a\<lparr>da_file := put_bytes (unat off) bs ((da_file a)\<lparr>dev_sched := s\<rparr>)\<rparr>"
  | (failed) e k s where "r = Inl e" "k \<le> length bs"
      "a' = a\<lparr>da_file := put_bytes (unat off) (take k bs) ((da_file a)\<lparr>dev_sched := s\<rparr>)\<rparr>"
      "(dev_block (da_file a) \<longrightarrow> unat off + length bs \<le> dev_len (da_file a)) \<longrightarrow> k = length bs \<or> sector dvd k"
proof -
  obtain q d' where w: "submit_write (unat off) bs (da_file a) = (q, d')" by fastforce
  have "from_padded_bytes bs = Inr bs"
    using assms(2-4) by (intro from_padded_bytes_id) auto
  then have "r = q" "a' = a\<lparr>da_file := d'\<rparr>"
    using assms(1) w by (simp_all add: write_all_at_def st_bind_def on_file_def)
  with submit_write_cases [OF w assms(4)] that show thesis by metis
qed

definition arena_shape :: "DriveConfig \<Rightarrow> DriveArena \<Rightarrow> bool" where
  "arena_shape cfg a \<longleftrightarrow>
     da_drive_id a = dc_id cfg \<and> da_arena_offset_bytes a = dc_arena_offset_bytes cfg
     \<and> da_arena_len_bytes a = span_of cfg (da_file a) \<and> da_is_block_device a = dev_block (da_file a)"

definition arena_holds :: "(u8 list \<Rightarrow> u32) \<Rightarrow> DriveConfig \<Rightarrow> log_frame list \<Rightarrow> DriveArena \<Rightarrow> bool" where
  "arena_holds crc cfg fs a \<longleftrightarrow>
     holds_log crc cfg fs (da_file a) \<and> arena_shape cfg a \<and> da_write_head a = of_nat (head_of fs)"

lemma arena_shape_file:
  assumes "arena_shape cfg a" "b = a\<lparr>da_file := da_file b\<rparr>"
    "span_of cfg (da_file b) = span_of cfg (da_file a)" "dev_block (da_file b) = dev_block (da_file a)"
  shows "arena_shape cfg b"
  by (subst assms(2)) (use assms(1,3,4) in \<open>simp add: arena_shape_def\<close>)

text \<open>The header write: old header or new header, and nothing else of the log changes.\<close>

lemma write_header_cases:
  assumes w: "write_arena_header (ArenaHeader_new (dc_id cfg) (span_of cfg (da_file a)) (of_nat n)) a = (r, a')"
    and b: "log_body crc cfg fs (da_file a)" and ao: "da_arena_offset_bytes a = dc_arena_offset_bytes cfg"
  shows "a' = a\<lparr>da_file := da_file a'\<rparr>" "log_body crc cfg fs (da_file a')"
    "span_of cfg (da_file a') = span_of cfg (da_file a)" "dev_block (da_file a') = dev_block (da_file a)"
    "header_is cfg n (da_file a') \<or> (r \<noteq> Inr () \<and> (\<forall>m. header_is cfg m (da_file a) \<longrightarrow> header_is cfg m (da_file a')))"
proof -
  let ?h = "ArenaHeader_new (dc_id cfg) (span_of cfg (da_file a)) (of_nat n)"
  let ?o = "unat (dc_arena_offset_bytes cfg)"
  have pl: "arena_place cfg (da_file a)" using b by (simp add: log_body_def)
  have w': "write_all_at (dc_arena_offset_bytes cfg) (encode_arena_header ?h) a = (r, a')"
    using w ao by (simp add: write_arena_header_def)
  have len: "0 < length (encode_arena_header ?h)" "4096 dvd length (encode_arena_header ?h)"
    "length (encode_arena_header ?h) < 0x7ffff000" by simp_all
  have "\<exists>k s. a' = a\<lparr>da_file := put_bytes ?o (take k (encode_arena_header ?h)) ((da_file a)\<lparr>dev_sched := s\<rparr>)\<rparr>
          \<and> k \<le> 4096 \<and> (28 \<le> k \<or> (k = 0 \<and> r \<noteq> Inr ()))"
    using w' len
  proof (cases rule: write_all_at_cases)
    case (full s)
    then show ?thesis by (intro exI [of _ 4096] exI [of _ s]) simp
  next
    case (failed e k s)
    have "?o + 4096 \<le> dev_len (da_file a)" using pl by (simp add: arena_place_def)
    then have "k = 4096 \<or> sector dvd k" using failed(4) by simp
    then have "28 \<le> k \<or> k = 0" by (auto simp: sector_def elim!: dvdE)
    with failed show ?thesis by (intro exI [of _ k] exI [of _ s]) auto
  qed
  then obtain k s where k: "a' = a\<lparr>da_file := put_bytes ?o (take k (encode_arena_header ?h)) ((da_file a)\<lparr>dev_sched := s\<rparr>)\<rparr>"
      "k \<le> 4096" "28 \<le> k \<or> (k = 0 \<and> r \<noteq> Inr ())" by blast
  show "a' = a\<lparr>da_file := da_file a'\<rparr>" "log_body crc cfg fs (da_file a')" "dev_block (da_file a') = dev_block (da_file a)"
    using k b log_body_put_header [of crc cfg fs "(da_file a)\<lparr>dev_sched := s\<rparr>" "take k (encode_arena_header ?h)"]
    by simp_all
  show "span_of cfg (da_file a') = span_of cfg (da_file a)"
    using k pl span_of_put [of cfg "(da_file a)\<lparr>dev_sched := s\<rparr>" 0 "take k (encode_arena_header ?h)"]
      header_write_fits [OF pl, of k] by simp
  show "header_is cfg n (da_file a') \<or> (r \<noteq> Inr () \<and> (\<forall>m. header_is cfg m (da_file a) \<longrightarrow> header_is cfg m (da_file a')))"
    using k pl header_is_put_header [of cfg "(da_file a)\<lparr>dev_sched := s\<rparr>" k n] by auto
qed

lemma sync_data_cases:
  assumes "sync_data a = (r, a')"
  shows "a' = a\<lparr>da_file := da_file a'\<rparr>"
    "(\<exists>s. da_file a' = (da_file a)\<lparr>dev_sched := s\<rparr>)
      \<or> (\<exists>s u. da_file a' = (da_file a)\<lparr>dev_sched := s, dev_durable := u\<rparr>)"
    "r = Inr () \<Longrightarrow> dev_durable (da_file a') = dev_bytes (da_file a')"
proof -
  obtain q d' where f: "fdatasync (da_file a) = (q, d')" by fastforce
  then have "r = q" "a' = a\<lparr>da_file := d'\<rparr>" using assms by (auto simp: sync_data_def on_file_def)
  with f show "a' = a\<lparr>da_file := da_file a'\<rparr>"
    "(\<exists>s. da_file a' = (da_file a)\<lparr>dev_sched := s\<rparr>)
      \<or> (\<exists>s u. da_file a' = (da_file a)\<lparr>dev_sched := s, dev_durable := u\<rparr>)"
    "r = Inr () \<Longrightarrow> dev_durable (da_file a') = dev_bytes (da_file a')"
    by (auto elim!: fdatasync_cases)
qed

text \<open>
  What an append leaves behind: on success the longer log, durable; on an error, or a crash at that
  point, the old log or the longer one.
\<close>

definition append_outcome :: "(u8 list \<Rightarrow> u32) \<Rightarrow> DriveConfig \<Rightarrow> log_frame list \<Rightarrow> log_frame
    \<Rightarrow> unit io_result \<Rightarrow> DriveArena \<Rightarrow> bool" where
  "append_outcome crc cfg fs f r a \<longleftrightarrow>
     (if r = Inr () then arena_holds crc cfg (fs @ [f]) a \<and> dev_durable (da_file a) = dev_bytes (da_file a)
      else holds_log crc cfg fs (da_file a) \<or> holds_log crc cfg (fs @ [f]) (da_file a))"

text \<open>After the frame: publish the head and fence.\<close>

lemma append_publish:
  assumes run: "st_bind (write_arena_header (ArenaHeader_new (dc_id cfg) (span_of cfg (da_file a)) (of_nat (head_of (fs @ [f]))))) (\<lambda>_.
        st_bind sync_data (\<lambda>_ a'. (Inr (), a'\<lparr>da_write_head := of_nat (head_of (fs @ [f]))\<rparr>))) a = (r, a')"
    and b: "log_body crc cfg fs (da_file a)" "header_is cfg (head_of fs) (da_file a)" "log_body crc cfg (fs @ [f]) (da_file a)"
    and a: "arena_shape cfg a"
  shows "append_outcome crc cfg fs f r a'"
proof -
  let ?n = "head_of (fs @ [f])"
  have ao: "da_arena_offset_bytes a = dc_arena_offset_bytes cfg"
    using a by (simp add: arena_shape_def)
  obtain q2 a2 where w2: "write_arena_header (ArenaHeader_new (dc_id cfg) (span_of cfg (da_file a)) (of_nat ?n)) a = (q2, a2)"
    by fastforce
  note h1 = write_header_cases [OF w2 b(3) ao] and h0 = write_header_cases [OF w2 b(1) ao]
  obtain q3 a3 where s3: "sync_data a2 = (q3, a3)" by fastforce
  note y = sync_data_cases [OF s3]
  consider (header) "q2 \<noteq> Inr ()" | (fence) "q2 = Inr ()" "q3 \<noteq> Inr ()" | (ok) "q2 = Inr ()" "q3 = Inr ()" by blast
  then show ?thesis
  proof cases
    case header
    then have "r = q2" "a' = a2" using run w2 by (cases q2; simp add: st_bind_def)+
    with header h1(2,5) h0(2,5) b show ?thesis by (auto simp: append_outcome_def holds_log_def)
  next
    case fence
    then have "r = q3" "a' = a3" using run w2 s3 by (cases q3; simp add: st_bind_def)+
    with fence y(2) h1(2,5) show ?thesis by (auto simp: append_outcome_def holds_log_def)
  next
    case ok
    then have r: "r = Inr ()" "a' = a3\<lparr>da_write_head := of_nat ?n\<rparr>"
      using run w2 s3 by (auto simp: st_bind_def)
    have "span_of cfg (da_file a3) = span_of cfg (da_file a)" "dev_block (da_file a3) = dev_block (da_file a)"
      using y(2) h1(3,4) by auto
    moreover have "a3 = a\<lparr>da_file := da_file a3\<rparr>"
      by (subst y(1), subst h1(1)) simp
    ultimately have "arena_shape cfg a3" using arena_shape_file [OF a] by blast
    moreover have "holds_log crc cfg (fs @ [f]) (da_file a3)"
      using y(2) h1(2,5) ok by (auto simp: holds_log_def)
    ultimately show ?thesis using r y(3) ok by (simp add: append_outcome_def arena_holds_def arena_shape_def)
  qed
qed

lemma append_io:
  assumes h: "arena_holds crc cfg fs a" and ok: "log_frame_ok f" and fits: "log_fits cfg (fs @ [f]) (da_file a)"
    and run: "st_bind (write_all_at (dc_arena_offset_bytes cfg + of_nat (head_of fs)) (image_of crc f)) (\<lambda>_.
        st_bind (write_arena_header (ArenaHeader_new (dc_id cfg) (span_of cfg (da_file a)) (of_nat (head_of (fs @ [f]))))) (\<lambda>_.
        st_bind sync_data (\<lambda>_ a'. (Inr (), a'\<lparr>da_write_head := of_nat (head_of (fs @ [f]))\<rparr>)))) a = (r, a')"
  shows "append_outcome crc cfg fs f r a'"
proof -
  let ?o = "unat (dc_arena_offset_bytes cfg) + head_of fs" and ?n = "head_of (fs @ [f])" and ?i = "image_of crc f"
  have b: "log_body crc cfg fs (da_file a)" "header_is cfg (head_of fs) (da_file a)"
    and a: "arena_shape cfg a"
    using h by (auto simp: arena_holds_def holds_log_def)
  have wf: "write_fits cfg (head_of fs + length (take k ?i)) (d\<lparr>dev_sched := s\<rparr>)" if "d = da_file a" for k s d
    using fits that by (auto simp: log_fits_def write_fits_def head_of_snoc split: option.splits)
  have off: "unat (dc_arena_offset_bytes cfg + of_nat (head_of fs)) = ?o"
    using b(1) by (intro unat_add_of_nat) (auto simp: log_body_def arena_place_def)
  have len: "0 < length ?i" "4096 dvd length ?i" "length ?i < 0x7ffff000"
    using length_log_payload(2) [OF ok] log_size_dvd by (simp_all add: log_size_def)
  have put: "log_body crc cfg fs (put_bytes ?o (take k ?i) ((da_file a)\<lparr>dev_sched := s\<rparr>))"
    "header_is cfg (head_of fs) (put_bytes ?o (take k ?i) ((da_file a)\<lparr>dev_sched := s\<rparr>))" for k s
    using b by (intro log_body_put_above wf header_is_put_above; simp)+
  obtain q a1 where w1: "write_all_at (dc_arena_offset_bytes cfg + of_nat (head_of fs)) ?i a = (q, a1)" by fastforce
  from w1 len show ?thesis
  proof (cases rule: write_all_at_cases)
    case (failed e k s)
    have "r = q" "a' = a1" using run w1 failed(1) by (auto simp: st_bind_def)
    with failed off put show ?thesis by (simp add: append_outcome_def holds_log_def)
  next
    case (full s)
    have "log_body crc cfg (fs @ [f]) (da_file a1)"
      using log_body_snoc [of crc cfg fs "(da_file a)\<lparr>dev_sched := s\<rparr>" f] b ok fits full off by simp
    moreover have "log_body crc cfg fs (da_file a1)" "header_is cfg (head_of fs) (da_file a1)"
      using put [of "length ?i" s] full off by simp_all
    moreover have sp: "span_of cfg (da_file a1) = span_of cfg (da_file a)" "dev_block (da_file a1) = dev_block (da_file a)"
      using span_of_put [of cfg "(da_file a)\<lparr>dev_sched := s\<rparr>" "head_of fs" ?i] b wf [OF refl, of "length ?i" s] full off
      by (simp_all add: log_body_def)
    moreover have "arena_shape cfg a1"
      using full(2) a sp by (simp add: arena_shape_def)
    ultimately show ?thesis
      using run w1 full(1) by (intro append_publish) (auto simp: st_bind_def)
  qed
qed

lemma append_arith:
  assumes h: "arena_holds crc cfg fs a" and ok: "log_frame_ok f"
  shows "align_up_u64 (of_nat (length (log_payload f))) 4096 = Inr (of_nat (pad (length (log_payload f))))"
    and "unat (of_nat (pad (length (log_payload f))) :: u64) = pad (length (log_payload f))"
    and "(4096 :: u64) + of_nat (pad (length (log_payload f))) = of_nat (log_size f)"
    and "checked_add (of_nat (head_of fs)) (of_nat (log_size f) :: u64)
           = (if head_of (fs @ [f]) < 2 ^ 64 then Some (of_nat (head_of (fs @ [f]))) else None)"
proof -
  have pd: "pad (length (log_payload f)) < 0x7ffff000" "log_size f < 0x7ffff000"
    using length_log_payload(2) [OF ok] by (simp_all add: log_size_def)
  then show "align_up_u64 (of_nat (length (log_payload f))) 4096 = Inr (of_nat (pad (length (log_payload f))))"
    by (intro align_up_u64_pad) simp
  show "unat (of_nat (pad (length (log_payload f))) :: u64) = pad (length (log_payload f))"
    using pd by (simp add: unat_of_nat)
  show "(4096 :: u64) + of_nat (pad (length (log_payload f))) = of_nat (log_size f)"
    by (simp add: log_size_def)
  have "head_of fs < 2 ^ 64" using h holds_log_valid(2) by (auto simp: arena_holds_def)
  then show "checked_add (of_nat (head_of fs)) (of_nat (log_size f) :: u64)
      = (if head_of (fs @ [f]) < 2 ^ 64 then Some (of_nat (head_of (fs @ [f]))) else None)"
    using pd by (simp add: checked_add_def head_of_snoc unat_of_nat)
qed

text \<open>A frame that fits reaches the device; one that does not is refused before anything is written.\<close>

lemma append_frame_fits:
  assumes h: "arena_holds crc cfg fs a" and ok: "log_frame_ok f" and fits: "log_fits cfg (fs @ [f]) (da_file a)"
  shows "append_frame crc (log_kind f) (log_payload f) a =
      st_bind (write_all_at (dc_arena_offset_bytes cfg + of_nat (head_of fs)) (image_of crc f)) (\<lambda>_.
      st_bind (write_arena_header (ArenaHeader_new (dc_id cfg) (span_of cfg (da_file a)) (of_nat (head_of (fs @ [f]))))) (\<lambda>_.
      st_bind sync_data (\<lambda>_ a'. (Inr (), a'\<lparr>da_write_head := of_nat (head_of (fs @ [f]))\<rparr>)))) a"
proof -
  have sh: "arena_shape cfg a" "da_write_head a = of_nat (head_of fs)"
    using h by (auto simp: arena_holds_def)
  have lt: "head_of (fs @ [f]) < 2 ^ 64"
    using fits by (auto simp: log_fits_def split: option.splits intro: le_less_trans [OF _ unsigned_less [where ?'a = nat and ?'b = 64, simplified]])
  then have nu: "unat (of_nat (head_of (fs @ [f])) :: u64) = head_of (fs @ [f])" by (simp add: unat_of_nat)
  have "(case span_of cfg (da_file a) of
      Some len \<Rightarrow> if of_nat (head_of (fs @ [f])) > len then st_err WriteZero else st_ret ()
    | None \<Rightarrow> st_ret ()) = (st_ret () :: (DriveArena, io_error, unit) st)"
    using nu fits by (auto simp: log_fits_def word_less_nat_alt split: option.splits)
  with sh lt append_arith [OF h ok] show ?thesis
    by (simp add: append_frame_def Let_def arena_shape_def image_of_def frame_image_def)
qed

lemma append_frame_refused:
  assumes h: "arena_holds crc cfg fs a" and ok: "log_frame_ok f"
    and nf: "\<not> log_fits cfg (fs @ [f]) (da_file a)" "span_of cfg (da_file a) \<noteq> None"
  shows "\<exists>e. append_frame crc (log_kind f) (log_payload f) a = (Inl e, a)"
proof (cases "head_of (fs @ [f]) < 2 ^ 64")
  case False
  with append_arith [OF h ok] h show ?thesis
    by (auto simp: append_frame_def Let_def arena_holds_def)
next
  case True
  then have "unat (of_nat (head_of (fs @ [f])) :: u64) = head_of (fs @ [f])" by (simp add: unat_of_nat)
  with nf obtain len where "span_of cfg (da_file a) = Some len" "len < of_nat (head_of (fs @ [f]))"
    by (auto simp: log_fits_def word_less_nat_alt split: option.splits)
  with True append_arith [OF h ok] h show ?thesis
    by (auto simp: append_frame_def Let_def arena_holds_def arena_shape_def st_bind_def)
qed

lemma append_frame_outcome:
  assumes h: "arena_holds crc cfg fs a" and ok: "log_frame_ok f"
    and gr: "span_of cfg (da_file a) = None \<Longrightarrow> log_fits cfg (fs @ [f]) (da_file a)"
    and run: "append_frame crc (log_kind f) (log_payload f) a = (r, a')"
  shows "append_outcome crc cfg fs f r a'"
proof (cases "log_fits cfg (fs @ [f]) (da_file a)")
  case True
  with run show ?thesis by (intro append_io [OF h ok]) (simp_all add: append_frame_fits [OF h ok])
next
  case False
  with gr append_frame_refused [OF h ok] run h show ?thesis
    by (force simp: append_outcome_def arena_holds_def)
qed

text \<open>On a device that does what it is asked, a frame that fits is appended.\<close>

lemma write_all_at_quiet:
  assumes "quiet (da_file a)" "0 < length bs" "4096 dvd length bs" "length bs < 0x7ffff000"
    "dev_block (da_file a) \<Longrightarrow> unat off + length bs \<le> dev_len (da_file a)"
  shows "write_all_at off bs a = (Inr (), a\<lparr>da_file := put_bytes (unat off) bs (da_file a)\<rparr>)"
proof -
  have "from_padded_bytes bs = Inr bs" using assms(2-4) by (intro from_padded_bytes_id) auto
  with assms show ?thesis by (simp add: write_all_at_def st_bind_def on_file_def submit_write_quiet)
qed

lemma append_frame_quiet:
  assumes h: "arena_holds crc cfg fs a" and ok: "log_frame_ok f" and fits: "log_fits cfg (fs @ [f]) (da_file a)"
    and q: "quiet (da_file a)"
  shows "\<exists>a'. append_frame crc (log_kind f) (log_payload f) a = (Inr (), a') \<and> quiet (da_file a')"
proof -
  have b: "arena_place cfg (da_file a)" "da_arena_offset_bytes a = dc_arena_offset_bytes cfg"
    and lo: "unat (dc_arena_offset_bytes cfg) + head_of fs \<le> dev_len (da_file a)"
    using h by (auto simp: arena_holds_def holds_log_def log_body_def arena_shape_def)
  have off: "unat (dc_arena_offset_bytes cfg + of_nat (head_of fs)) = unat (dc_arena_offset_bytes cfg) + head_of fs"
    using lo b(1) by (intro unat_add_of_nat) (auto simp: arena_place_def)
  have len: "0 < log_size f" "4096 dvd log_size f" "log_size f < 0x7ffff000"
    using length_log_payload(2) [OF ok] log_size_dvd by (simp_all add: log_size_def)
  have bl: "unat (dc_arena_offset_bytes cfg) + head_of fs + log_size f \<le> dev_len (da_file a)" if "dev_block (da_file a)"
    using write_fits_len [OF b(1), of "head_of (fs @ [f])"] fits that
    by (simp add: log_fits_write_fits head_of_snoc add.assoc)
  have hd: "unat (dc_arena_offset_bytes cfg) + 4096 \<le> dev_len (da_file a)" using b(1) by (simp add: arena_place_def)
  show ?thesis
    using q len bl hd b(2) dev_len_put_bytes_ge [of "da_file a" "unat (dc_arena_offset_bytes cfg) + head_of fs" "image_of crc f"]
    by (simp add: append_frame_fits [OF h ok fits] st_bind_def write_all_at_quiet off write_arena_header_def
        sync_data_def on_file_def fdatasync_quiet)
qed

end
