(* ===== verification/Kix_Durable.thy ===== *)
theory Kix_Durable
  imports Kix_Log
begin

text \<open>
  The arena as a durable log: the contract its clients use (locale \<open>durable_log\<close>), its
  interpretation on \<open>append_frame\<close> and \<open>recover\<close>, the operations that start and cut a log, and the
  properties of \<open>poc/kix/crates/kix/src/arena.rs\<close> as a whole.
\<close>

section \<open>The contract\<close>

fun append_all :: "('f \<Rightarrow> 'a \<Rightarrow> unit io_result \<times> 'a) \<Rightarrow> 'f list \<Rightarrow> 'a \<Rightarrow> nat \<times> 'a" where
  "append_all app [] a = (0, a)"
| "append_all app (f # fs) a =
     (case app f a of
        (Inr _, a') \<Rightarrow> (case append_all app fs a' of (n, a'') \<Rightarrow> (Suc n, a''))
      | (Inl _, a') \<Rightarrow> (0, a'))"

text \<open>
  \<open>holds fs a\<close>: the store \<open>a\<close> holds the frames \<open>fs\<close>. An append that is acknowledged extends them; an
  append that is not leaves a store from which the old or the extended list is recovered.
\<close>

locale durable_log =
  fixes holds :: "log_frame list \<Rightarrow> 'a \<Rightarrow> bool"
    and app :: "log_frame \<Rightarrow> 'a \<Rightarrow> unit io_result \<times> 'a"
    and rec :: "'a \<Rightarrow> entries io_result"
    and ok :: "log_frame \<Rightarrow> bool"
  assumes rec_holds: "holds fs a \<Longrightarrow> rec a = Inr (replay_log fs)"
    and app_ok: "holds fs a \<Longrightarrow> ok f \<Longrightarrow> app f a = (Inr u, a') \<Longrightarrow> holds (fs @ [f]) a'"
    and app_err: "holds fs a \<Longrightarrow> ok f \<Longrightarrow> app f a = (Inl e, a') \<Longrightarrow>
      rec a' = Inr (replay_log fs) \<or> rec a' = Inr (replay_log (fs @ [f]))"
begin

lemma acknowledged_survive:
  assumes "holds fs a" "list_all ok gs" "append_all app gs a = (n, a')"
  shows "\<exists>m. n \<le> m \<and> m \<le> Suc n \<and> m \<le> length gs \<and> rec a' = Inr (replay_log (fs @ take m gs))"
  using assms
proof (induction gs arbitrary: fs a n)
  case Nil
  then show ?case by (auto simp: rec_holds)
next
  case (Cons g gs)
  obtain r a1 where g: "app g a = (r, a1)" by fastforce
  show ?case
  proof (cases r)
    case (Inl e)
    with g Cons.prems have "n = 0" "a' = a1" by auto
    moreover have "rec a1 = Inr (replay_log fs) \<or> rec a1 = Inr (replay_log (fs @ [g]))"
      using app_err Cons.prems g Inl by auto
    ultimately show ?thesis by (auto intro: exI [of _ 0] exI [of _ 1])
  next
    case (Inr u)
    obtain k where k: "append_all app gs a1 = (k, a')" "n = Suc k"
      using g Inr Cons.prems(3) by (auto split: prod.splits)
    have "holds (fs @ [g]) a1" using app_ok Cons.prems g Inr by auto
    then obtain m where "k \<le> m \<and> m \<le> Suc k \<and> m \<le> length gs \<and> rec a' = Inr (replay_log ((fs @ [g]) @ take m gs))"
      using Cons.IH [OF _ _ k(1)] Cons.prems(2) by (metis list.pred_inject(2))
    then show ?thesis using k(2) by (intro exI [of _ "Suc m"]) auto
  qed
qed

end

definition restart :: "device \<Rightarrow> device" where
  "restart d = d\<lparr>dev_sched := []\<rparr>"

definition recover_entries :: "(u8 list \<Rightarrow> u32) \<Rightarrow> DriveConfig \<Rightarrow> DriveArena \<Rightarrow> entries io_result" where
  "recover_entries crc cfg a = bind_r (fst (recover crc True cfg (restart (da_file a)))) (\<lambda>r. Inr (dr_entries r))"

definition append_log_frame :: "(u8 list \<Rightarrow> u32) \<Rightarrow> log_frame \<Rightarrow> DriveArena \<Rightarrow> unit io_result \<times> DriveArena" where
  "append_log_frame crc f = append_frame crc (log_kind f) (log_payload f)"

lemma recover_restart: "holds_log crc cfg fs d \<Longrightarrow> recover crc True cfg (restart d) = (Inr (recovered cfg fs), restart d)"
  by (rule recover_holds) (simp_all add: restart_def)

lemma recover_entries_holds: "holds_log crc cfg fs (da_file a) \<Longrightarrow> recover_entries crc cfg a = Inr (replay_log fs)"
  by (simp add: recover_entries_def recover_restart recovered_def)

definition fixed_span_holds :: "(u8 list \<Rightarrow> u32) \<Rightarrow> DriveConfig \<Rightarrow> log_frame list \<Rightarrow> DriveArena \<Rightarrow> bool" where
  "fixed_span_holds crc cfg fs a \<longleftrightarrow>
     arena_holds crc cfg fs a \<and> (dc_arena_len_bytes cfg \<noteq> None \<or> dev_block (da_file a))"

text \<open>No operation turns a block device into a file.\<close>

lemma keeps_pwrite: "keeps dev_block (pwrite off bs)"
  unfolding keeps_def
proof
  fix d
  obtain q d' where p: "pwrite off bs d = (q, d')" by fastforce
  then have "dev_block d' = dev_block d" by (cases rule: pwrite_cases) simp_all
  with p show "dev_block (snd (pwrite off bs d)) = dev_block d" by simp
qed

lemma keeps_submit_write: "keeps dev_block (submit_write off bs)"
  unfolding keeps_def
proof
  fix d
  obtain q d' where p: "pwrite off (take (ring_count (length bs)) bs) d = (q, d')" by fastforce
  then have "dev_block d' = dev_block d" by (rule keepsD [OF keeps_pwrite])
  with p show "dev_block (snd (submit_write off bs d)) = dev_block d"
    by (simp add: submit_write_def split: sum.split)
qed

lemma keeps_fdatasync: "keeps dev_block fdatasync"
  unfolding keeps_def
proof
  fix d
  obtain q d' where p: "fdatasync d = (q, d')" by fastforce
  then have "dev_block d' = dev_block d" by (cases rule: fdatasync_cases) simp_all
  with p show "dev_block (snd (fdatasync d)) = dev_block d" by simp
qed

lemma keeps_on_file: "keeps dev_block m \<Longrightarrow> keeps (\<lambda>a. dev_block (da_file a)) (on_file m)"
  by (simp add: keeps_def on_file_def split_beta)

lemma keeps_write_all_at: "keeps (\<lambda>a. dev_block (da_file a)) (write_all_at off bs)"
  unfolding write_all_at_def by (intro keeps_bind keeps_on_file keeps_submit_write) simp

lemma keeps_write_arena_header: "keeps (\<lambda>a. dev_block (da_file a)) (write_arena_header h)"
  using keeps_write_all_at by (simp add: keeps_def write_arena_header_def)

lemma keeps_sync_data: "keeps (\<lambda>a. dev_block (da_file a)) sync_data"
  unfolding sync_data_def by (intro keeps_on_file keeps_fdatasync)

lemma append_frame_block:
  assumes "append_frame crc k p a = (r, a')"
  shows "dev_block (da_file a') = dev_block (da_file a)"
proof -
  have c: "keeps g (case da_arena_len_bytes a of
      Some len \<Rightarrow> if nh > len then st_err WriteZero else st_ret () | None \<Rightarrow> st_ret ())" for g nh
    by (simp split: option.split)
  have s: "keeps (\<lambda>a. dev_block (da_file a)) (\<lambda>a'. (Inr (), a'\<lparr>da_write_head := nh\<rparr>))" for nh
    by (simp add: keeps_def)
  have k: "keeps (\<lambda>a. dev_block (da_file a))
     (st_bind (st_lift (align_up_u64 (of_nat (length p)) (of_nat KIX_IO_ALIGN))) (\<lambda>payload_disk_len.
      st_bind (st_lift (ok_or InvalidInput (checked_add (da_write_head a) (of_nat FRAME_HEADER_LEN + payload_disk_len)))) (\<lambda>nh.
      st_bind (case da_arena_len_bytes a of
        Some len \<Rightarrow> if nh > len then st_err WriteZero else st_ret () | None \<Rightarrow> st_ret ()) (\<lambda>_.
      st_bind (write_all_at (da_arena_offset_bytes a + da_write_head a)
        (resize (encode_frame_header crc k p @ p) (FRAME_HEADER_LEN + unat payload_disk_len))) (\<lambda>_.
      st_bind (write_arena_header (ArenaHeader_new (da_drive_id a) (da_arena_len_bytes a) nh)) (\<lambda>_.
      st_bind sync_data (\<lambda>_ a'. (Inr (), a'\<lparr>da_write_head := nh\<rparr>))))))))"
    by (intro keeps_bind c s keeps_basic keeps_write_all_at keeps_write_arena_header keeps_sync_data)
  show ?thesis
    using keepsD [OF k, of a r a'] assms by (simp only: append_frame_def Let_def)
qed

lemma fixed_span_some: "fixed_span_holds crc cfg fs a \<Longrightarrow> span_of cfg (da_file a) \<noteq> None"
  by (auto simp: fixed_span_holds_def span_of_def split: option.splits)

lemma append_log_frame_outcome:
  "fixed_span_holds crc cfg fs a \<Longrightarrow> log_frame_ok f \<Longrightarrow> append_log_frame crc f a = (r, a') \<Longrightarrow>
     append_outcome crc cfg fs f r a'"
  using fixed_span_some [of crc cfg fs a]
  by (intro append_frame_outcome [of crc cfg fs a f r a']) (auto simp: fixed_span_holds_def append_log_frame_def)

interpretation arena: durable_log "fixed_span_holds crc cfg" "append_log_frame crc" "recover_entries crc cfg" log_frame_ok
  for crc cfg
proof
  fix fs a f u a' e
  show "recover_entries crc cfg a = Inr (replay_log fs)" if "fixed_span_holds crc cfg fs a"
    using that by (auto simp: fixed_span_holds_def arena_holds_def recover_entries_holds)
  show "fixed_span_holds crc cfg (fs @ [f]) a'"
    if "fixed_span_holds crc cfg fs a" "log_frame_ok f" "append_log_frame crc f a = (Inr u, a')"
    using append_log_frame_outcome [OF that] that(1) append_frame_block [OF that(3) [unfolded append_log_frame_def]]
    by (auto simp: append_outcome_def fixed_span_holds_def)
  show "recover_entries crc cfg a' = Inr (replay_log fs) \<or> recover_entries crc cfg a' = Inr (replay_log (fs @ [f]))"
    if "fixed_span_holds crc cfg fs a" "log_frame_ok f" "append_log_frame crc f a = (Inl e, a')"
    using append_log_frame_outcome [OF that] by (auto simp: append_outcome_def recover_entries_holds)
qed

section \<open>Starting and cutting a log\<close>

lemma log_body_Nil: "arena_place cfg d \<Longrightarrow> log_body crc cfg [] d"
  by (auto simp: log_body_def log_fits_def head_of_def arena_place_def split: option.splits)

lemma log_body_prefix: "log_body crc cfg (fs @ gs) d \<Longrightarrow> log_body crc cfg fs d"
  by (auto simp: log_body_def log_fits_def head_of_def load_bytes_append append_eq_append_conv split: option.splits)

definition reset_image :: "DriveConfig \<Rightarrow> device \<Rightarrow> device" where
  "reset_image cfg d =
     (let d' = put_bytes (unat (dc_arena_offset_bytes cfg))
                 (encode_arena_header (ArenaHeader_new (dc_id cfg) (span_of cfg d) 4096)) d
      in d'\<lparr>dev_durable := dev_bytes d'\<rparr>)"

lemma reset_fixed:
  assumes "quiet d" "arena_place cfg d" "span_of cfg d \<noteq> None"
  shows "reset_config True cfg d = (Inr (arena_on cfg (span_of cfg d) 4096 (dev_block d) (reset_image cfg d)), reset_image cfg d)"
proof -
  have v: "validate_io_layout cfg = Inr ()" "unat (dc_arena_offset_bytes cfg) + 4096 \<le> dev_len d"
    using assms(2) by (auto simp: arena_place_def)
  have p: "from_padded_bytes (encode_arena_header h) = Inr (encode_arena_header h)" for h
    by (intro from_padded_bytes_id) auto
  obtain len where "span_of cfg d = Some len" using assms(3) by auto
  with assms v p resolve_quiet [OF assms(1,2)] show ?thesis
    by (simp add: reset_config_def open_direct_file_def st_bind_def syscall_quiet Let_def write_arena_header_at_def
        make_uring_def submit_write_quiet sync_data_at_def fdatasync_quiet reset_image_def)
qed

lemma reset_image_body:
  assumes "log_body crc cfg fs d"
  shows "log_body crc cfg fs (reset_image cfg d)" "header_is cfg 4096 (reset_image cfg d)"
    "span_of cfg (reset_image cfg d) = span_of cfg d" "quiet d \<Longrightarrow> quiet (reset_image cfg d)"
    "dev_block (reset_image cfg d) = dev_block d" "dev_durable (reset_image cfg d) = dev_bytes (reset_image cfg d)"
proof -
  have pl: "arena_place cfg d" using assms by (simp add: log_body_def)
  show "log_body crc cfg fs (reset_image cfg d)"
    using log_body_put_header [OF assms] by (simp add: reset_image_def Let_def)
  show "header_is cfg 4096 (reset_image cfg d)"
    using header_is_put_header [OF pl, of 4096 4096] by (simp add: reset_image_def Let_def)
  show "span_of cfg (reset_image cfg d) = span_of cfg d"
    using span_of_put [OF pl header_write_fits [OF pl], of "encode_arena_header (ArenaHeader_new (dc_id cfg) (span_of cfg d) 4096)"]
    by (simp add: reset_image_def Let_def)
qed (simp_all add: reset_image_def Let_def)

lemma reset_holds:
  assumes "quiet d" "arena_place cfg d" "span_of cfg d \<noteq> None"
  shows "fixed_span_holds crc cfg [] (arena_on cfg (span_of cfg d) 4096 (dev_block d) (reset_image cfg d))"
  using reset_image_body [OF log_body_Nil [OF assms(2)]] assms(3)
  by (auto simp: fixed_span_holds_def arena_holds_def holds_log_def arena_shape_def arena_on_def head_of_def span_of_def
      split: option.splits)

definition truncate_outcome :: "(u8 list \<Rightarrow> u32) \<Rightarrow> DriveConfig \<Rightarrow> log_frame list \<Rightarrow> unit io_result \<Rightarrow> DriveArena \<Rightarrow> bool" where
  "truncate_outcome crc cfg fs r a \<longleftrightarrow>
     log_body crc cfg fs (da_file a)
     \<and> (r = Inr () \<longrightarrow> arena_holds crc cfg fs a \<and> dev_durable (da_file a) = dev_bytes (da_file a))"

lemma truncate_body:
  assumes b: "log_body crc cfg fs (da_file a)" and a: "arena_shape cfg a" and sp: "span_of cfg (da_file a) = Some len"
    and run: "truncate_to (of_nat (head_of fs)) a = (r, a')"
  shows "truncate_outcome crc cfg fs r a'"
proof -
  let ?a = "a\<lparr>da_write_head := of_nat (head_of fs)\<rparr>"
  have lt: "head_of fs < 2 ^ 64" "head_of fs \<le> unat len" "4096 dvd head_of fs" "4096 \<le> head_of fs"
    using b sp log_len_dvd [of fs] by (auto simp: log_body_def arena_place_def log_fits_def head_of_def)
  have hu: "unat (of_nat (head_of fs) :: u64) = head_of fs" using lt by (simp add: unat_of_nat)
  have al: "align_up_u64 (max (of_nat (head_of fs)) 4096) 4096 = Inr (of_nat (head_of fs))"
    using align_up_u64_pad [of "head_of fs"] lt by (simp add: pad_id max_absorb1 word_le_nat_alt hu)
  have "\<not> len < of_nat (head_of fs)" using lt by (simp add: word_less_nat_alt hu)
  moreover have "da_arena_len_bytes a = Some len" "da_drive_id a = dc_id cfg" using a sp by (simp_all add: arena_shape_def)
  ultimately have run': "st_bind (write_arena_header (ArenaHeader_new (dc_id cfg) (span_of cfg (da_file ?a)) (of_nat (head_of fs)))) (\<lambda>_. sync_data) ?a = (r, a')"
    using run al sp by (simp add: truncate_to_def) (simp add: st_bind_def)
  obtain q a1 where w: "write_arena_header (ArenaHeader_new (dc_id cfg) (span_of cfg (da_file ?a)) (of_nat (head_of fs))) ?a = (q, a1)"
    by fastforce
  have ao: "da_arena_offset_bytes ?a = dc_arena_offset_bytes cfg" using a by (simp add: arena_shape_def)
  have b': "log_body crc cfg fs (da_file ?a)" using b by simp
  note h = write_header_cases [OF w b' ao]
  have s1: "arena_shape cfg a1"
    using arena_shape_file [OF _ h(1,3,4)] a by (simp add: arena_shape_def)
  have wh: "da_write_head a1 = of_nat (head_of fs)" by (subst h(1)) simp
  obtain q2 a2 where y: "sync_data a1 = (q2, a2)" by fastforce
  note t = sync_data_cases [OF y]
  show ?thesis
  proof (cases q)
    case (Inl e)
    with run' w h(2) show ?thesis by (auto simp: st_bind_def truncate_outcome_def)
  next
    case (Inr u)
    then have r: "r = q2" "a' = a2" using run' w y by (simp_all add: st_bind_def)
    have "holds_log crc cfg fs (da_file a2)" using h(2,5) t(2) Inr by (auto simp: holds_log_def)
    moreover have "arena_shape cfg a2" using arena_shape_file [OF s1 t(1)] t(2) by auto
    moreover have "da_write_head a2 = of_nat (head_of fs)" by (subst t(1)) (simp add: wh)
    ultimately show ?thesis using r t(3) by (simp add: truncate_outcome_def arena_holds_def holds_log_def)
  qed
qed

section \<open>A torn last frame\<close>

text \<open>
  What the device may hold in the place of a frame whose append did not finish: a block that is no
  frame header, or the frame's header before a payload that fails the checksum.
\<close>

definition torn_frame :: "(u8 list \<Rightarrow> u32) \<Rightarrow> log_frame \<Rightarrow> u8 list \<Rightarrow> bool" where
  "torn_frame crc f bs \<longleftrightarrow>
     length bs = log_size f
     \<and> ((le_word (subslice bs 0 4) :: u32) \<noteq> FRAME_MAGIC
        \<or> (take 4096 bs = encode_frame_header crc (log_kind f) (log_payload f)
            \<and> crc (take (length (log_payload f)) (drop 4096 bs)) \<noteq> crc (log_payload f)))"

lemma read_frame_torn:
  assumes q: "quiet d" and ok: "log_frame_ok f"
    and b: "unat ao + offset + log_size f \<le> dev_len d" "dev_len d < 2 ^ 64"
    and t: "offset + log_size f \<le> tot" "offset + log_size f \<le> span"
    and i: "torn_frame crc f (load_bytes (dev_bytes d) (unat ao + offset) (log_size f))"
  shows "read_frame crc ao tot span offset d = (Inr None, d)"
proof -
  let ?p = "log_payload f" and ?h = "load_bytes (dev_bytes d) (unat ao + offset) 4096"
  note sz = log_size_def [of f]
  have lp: "length ?p < 2 ^ 32" "0 < pad (length ?p)" "pad (length ?p) < 0x7ffff000"
    using length_log_payload [OF ok] pad_ge [of "length ?p"] by (auto simp: sz)
  have o1: "unat (ao + of_nat offset) = unat ao + offset"
    and o2: "unat (ao + of_nat offset + 4096) = unat ao + offset + 4096"
    using b unat_add_of_nat [of ao offset] unat_add_of_nat [of ao "offset + 4096"]
    by (simp_all add: add.assoc sz)
  have r1: "read_exact_at (ao + of_nat offset) 4096 d = (Inr ?h, d)"
    using q b by (simp add: read_exact_at_quiet o1 sz)
  have room: "\<not> tot - offset < 4096" "\<not> span - offset < 4096"
    "\<not> tot - (offset + 4096) < pad (length ?p)" "\<not> span - (offset + 4096) < pad (length ?p)"
    using t sz by linarith+
  show ?thesis
  proof (cases "(le_word (subslice ?h 0 4) :: u32) = FRAME_MAGIC")
    case False
    with r1 room show ?thesis by (simp add: read_frame_def st_bind_def Let_def)
  next
    case True
    have "subslice (load_bytes (dev_bytes d) (unat ao + offset) (log_size f)) 0 4 = subslice ?h 0 4"
      using subslice_take [of 4 4096 "load_bytes (dev_bytes d) (unat ao + offset) (log_size f)" 0] by (simp add: sz)
    moreover have "take 4096 (load_bytes (dev_bytes d) (unat ao + offset) (log_size f)) = ?h" by (simp add: sz)
    moreover have "take (length ?p) (drop 4096 (load_bytes (dev_bytes d) (unat ao + offset) (log_size f)))
        = load_bytes (dev_bytes d) (unat ao + offset + 4096) (length ?p)"
      using pad_ge [of "length ?p"] by (simp add: sz min_absorb1)
    ultimately have h: "?h = encode_frame_header crc (log_kind f) ?p"
      and c: "crc (load_bytes (dev_bytes d) (unat ao + offset + 4096) (length ?p)) \<noteq> crc ?p"
      using True i unfolding torn_frame_def by metis+
    have r2: "read_exact_at (ao + of_nat offset + 4096) (pad (length ?p)) d
        = (Inr (load_bytes (dev_bytes d) (unat ao + offset + 4096) (pad (length ?p))), d)"
      using q b lp by (simp add: read_exact_at_quiet o2 pad_id pad_dvd sz)
    have "align_up_u64 (of_nat (length ?p)) 4096 = Inr (of_nat (pad (length ?p)))"
      using lp by (intro align_up_u64_pad) simp
    moreover have "unat (of_nat (pad (length ?p)) :: u64) = pad (length ?p)" "unat (of_nat (length ?p) :: u32) = length ?p"
      using lp by (simp_all add: unat_of_nat)
    ultimately show ?thesis
      using r1 r2 room c pad_ge [of "length ?p"]
      by (simp add: read_frame_def st_bind_def h encode_frame_header_fields Let_def min_absorb1)
  qed
qed

definition torn_log :: "(u8 list \<Rightarrow> u32) \<Rightarrow> DriveConfig \<Rightarrow> log_frame list \<Rightarrow> log_frame \<Rightarrow> device \<Rightarrow> bool" where
  "torn_log crc cfg fs f d \<longleftrightarrow>
     log_body crc cfg fs d \<and> header_is cfg (head_of (fs @ [f])) d \<and> log_frame_ok f \<and> log_fits cfg (fs @ [f]) d
     \<and> unat (dc_arena_offset_bytes cfg) + head_of (fs @ [f]) \<le> dev_len d
     \<and> torn_frame crc f (load_bytes (dev_bytes d) (unat (dc_arena_offset_bytes cfg) + head_of fs) (log_size f))"

definition recovered_torn :: "DriveConfig \<Rightarrow> log_frame list \<Rightarrow> DriveRecovery" where
  "recovered_torn cfg fs = (recovered cfg fs)\<lparr>dr_tail_corruption := True\<rparr>"

lemma recover_loop_torn:
  assumes "quiet d" "torn_log crc cfg fs f d"
    "case span_of cfg d of Some l \<Rightarrow> span = min (unat l) (dev_len d - unat (dc_arena_offset_bytes cfg))
       | None \<Rightarrow> span = dev_len d - unat (dc_arena_offset_bytes cfg)"
  shows "recover_loop crc (dc_arena_offset_bytes cfg) (head_of (fs @ [f])) span [] 0 4096 d
    = (Inr (replay_log fs, head_of fs, True, length fs), d)"
proof -
  let ?ao = "dc_arena_offset_bytes cfg" and ?t = "head_of (fs @ [f])"
  have t: "log_body crc cfg fs d" "log_frame_ok f" "log_fits cfg (fs @ [f]) d" "unat ?ao + ?t \<le> dev_len d"
    "torn_frame crc f (load_bytes (dev_bytes d) (unat ?ao + head_of fs) (log_size f))"
    using assms(2) by (auto simp: torn_log_def)
  have sp: "head_of (fs @ [f]) \<le> span"
    using t assms(3) arena_place_span [of cfg d] by (auto simp: log_body_def log_fits_def split: option.splits)
  have pos: "0 < log_size f" by (simp add: log_size_def)
  have "recover_loop crc ?ao ?t span [] 0 4096 d =
      recover_loop crc ?ao ?t span (fold apply_frame fs []) (0 + length fs) (4096 + log_len fs) d"
    using assms(1) t sp
    by (intro recover_loop_frames) (auto simp: log_body_def head_of_def arena_place_def)
  moreover have "read_frame crc ?ao ?t span (head_of fs) d = (Inr None, d)"
    using assms(1) t sp
    by (intro read_frame_torn [of _ f]) (auto simp: log_body_def arena_place_def head_of_snoc add.assoc)
  ultimately show ?thesis
    using pos by (simp add: recover_loop.simps [of _ _ _ _ "fold apply_frame fs []"] head_of_def replay_log_def)
qed

lemma recover_torn:
  assumes "quiet d" "torn_log crc cfg fs f d"
  shows "recover crc True cfg d = (Inr (recovered_torn cfg fs), d)"
proof -
  have "recover crc True cfg d = (Inr \<lparr>dr_drive_id = dc_id cfg, dr_entries = replay_log fs,
      dr_replay_len = of_nat (head_of fs), dr_tail_corruption = True, dr_rebuild_required = False,
      dr_applied_frames = length fs\<rparr>, d)"
  proof (rule recover_via_loop [OF assms(1)])
    show "arena_place cfg d" "header_is cfg (head_of (fs @ [f])) d"
      using assms(2) by (auto simp: torn_log_def log_body_def)
    show "4096 \<le> head_of (fs @ [f])" "4096 dvd head_of (fs @ [f])"
      using log_len_dvd [of "fs @ [f]"] by (auto simp: head_of_def)
    show "head_of (fs @ [f]) < 2 ^ 64" using assms(2) by (auto simp: torn_log_def log_body_def arena_place_def)
    show "head_of (fs @ [f]) \<le> unat l" if "span_of cfg d = Some l" for l
      using assms(2) that by (simp add: torn_log_def log_fits_def)
  qed (rule recover_loop_torn [OF assms])
  then show ?thesis by (simp add: recovered_torn_def recovered_def)
qed

section \<open>What the log means\<close>

lemma distinct_apply_frame: "distinct (map fst m) \<Longrightarrow> distinct (map fst (apply_frame f m))"
  by (cases f) (auto simp: distinct_insert_all intro: replay.inv_run)

lemma distinct_replay_log: "distinct (map fst (replay_log fs))"
proof -
  have "distinct (map fst m) \<Longrightarrow> distinct (map fst (fold apply_frame fs m))" for m
    by (induction fs arbitrary: m) (auto simp: distinct_apply_frame)
  from this [of "[]"] show ?thesis by (simp add: replay_log_def)
qed

lemma replay_log_delta: "map_of (replay_log (fs @ [DeltaFrame ds])) = fold spec_delta ds (map_of (replay_log fs))"
  using replay.lookup_run [OF distinct_replay_log, of ds fs] by (simp add: replay_log_def)

lemma replay_log_checkpoint:
  "distinct (map fst es) \<Longrightarrow> map_of (replay_log (fs @ [CheckpointFrame es])) = map_of es"
  by (simp add: replay_log_def map_of_insert_all map_of_rev_distinct)

lemma truncate_quiet:
  assumes b: "log_body crc cfg fs (da_file a)" and a: "arena_shape cfg a" and sp: "span_of cfg (da_file a) = Some len"
    and q: "quiet (da_file a)"
  shows "\<exists>a'. truncate_to (of_nat (head_of fs)) a = (Inr (), a')"
proof -
  have lt: "head_of fs < 2 ^ 64" "head_of fs \<le> unat len" "4096 dvd head_of fs" "4096 \<le> head_of fs"
    and fit: "unat (dc_arena_offset_bytes cfg) + 4096 \<le> dev_len (da_file a)"
    using b sp log_len_dvd [of fs] by (auto simp: log_body_def arena_place_def log_fits_def head_of_def)
  have hu: "unat (of_nat (head_of fs) :: u64) = head_of fs" using lt by (simp add: unat_of_nat)
  have al: "align_up_u64 (max (of_nat (head_of fs)) 4096) 4096 = Inr (of_nat (head_of fs))"
    using align_up_u64_pad [of "head_of fs"] lt by (simp add: pad_id max_absorb1 word_le_nat_alt hu)
  have "\<not> len < of_nat (head_of fs)" using lt by (simp add: word_less_nat_alt hu)
  moreover have "da_arena_len_bytes a = Some len" "da_arena_offset_bytes a = dc_arena_offset_bytes cfg"
    using a sp by (simp_all add: arena_shape_def)
  ultimately show ?thesis
    using q al fit
    by (simp add: truncate_to_def)
      (simp add: st_bind_def write_arena_header_def write_all_at_quiet sync_data_def on_file_def fdatasync_quiet)
qed

lemma rebuild_fixed:
  assumes q: "quiet d" and pl: "arena_place cfg d" and sp: "span_of cfg d = Some len"
    and es: "list_all entry_ok es" "8192 + pad (4 + 60 * length es) \<le> unat len" "4096 + pad (4 + 60 * length es) < 0x7ffff000"
  shows "\<exists>d'. rebuild_from_entries crc True cfg es d
    = (Inr (recovered cfg (if es = [] then [] else [CheckpointFrame es])), d')"
proof -
  let ?a = "arena_on cfg (span_of cfg d) 4096 (dev_block d) (reset_image cfg d)" and ?f = "CheckpointFrame es"
  have r: "reset_config True cfg d = (Inr ?a, reset_image cfg d)"
    using q pl sp by (intro reset_fixed) auto
  have h: "fixed_span_holds crc cfg [] ?a" using q pl sp by (intro reset_holds) auto
  have ri: "quiet (reset_image cfg d)" "span_of cfg (reset_image cfg d) = Some len"
    using reset_image_body [OF log_body_Nil [OF pl]] q sp by auto
  have f: "log_frame_ok ?f" using es by simp
  have fits: "log_fits cfg ([] @ [?f]) (da_file ?a)"
    using es ri by (simp add: log_fits_def head_of_def log_size_def length_checkpoint_payload arena_on_def)
  have ah: "arena_holds crc cfg [] ?a" using h by (simp add: fixed_span_holds_def)
  obtain a' where a': "append_frame crc Checkpoint (checkpoint_payload es) ?a = (Inr (), a')" "quiet (da_file a')"
    using append_frame_quiet [OF ah f fits] ri by (auto simp: arena_on_def)
  then have "arena_holds crc cfg ([] @ [?f]) a'"
    using append_log_frame_outcome [OF h f, of "Inr ()" a'] by (simp add: append_log_frame_def append_outcome_def)
  then have "recover crc True cfg (da_file a') = (Inr (recovered cfg [?f]), da_file a')"
    using a' by (intro recover_holds) (auto simp: arena_holds_def)
  moreover have "recover crc True cfg (reset_image cfg d) = (Inr (recovered cfg []), reset_image cfg d)"
    using h ri by (intro recover_holds) (auto simp: fixed_span_holds_def arena_holds_def arena_on_def)
  ultimately show ?thesis
    using r a' by (simp add: rebuild_from_entries_def st_bind_def write_checkpoint_def)
qed

section \<open>Power loss in the middle of an append\<close>

text \<open>
  The drive's volatile cache may persist the header block and lose the frame: the only fence of an
  append comes after both writes.
\<close>

definition lose_frame_keep_header :: "DriveConfig \<Rightarrow> device \<Rightarrow> device" where
  "lose_frame_keep_header cfg d =
     (let ao = unat (dc_arena_offset_bytes cfg) in
      d\<lparr>dev_bytes := store_bytes (dev_durable d) ao (load_bytes (dev_bytes d) ao 4096), dev_sched := []\<rparr>)"

lemma submit_write_full:
  assumes "dev_sched d = IoFull # s" "dev_block d \<Longrightarrow> off + length bs \<le> dev_len d" "length bs < 0x7ffff000" "bs \<noteq> []"
  shows "submit_write off bs d = (Inr (), put_bytes off bs (d\<lparr>dev_sched := s\<rparr>))"
proof -
  have "(if dev_block d then min (length bs) (dev_len d - off) else length bs) = length bs"
    using assms(2) by auto
  with assms show ?thesis
    by (simp add: submit_write_def ring_count_small ring_expected_small pwrite_def Let_def)
qed

lemma write_all_at_full:
  assumes "dev_sched (da_file a) = IoFull # s" "0 < length bs" "4096 dvd length bs" "length bs < 0x7ffff000"
    "dev_block (da_file a) \<Longrightarrow> unat off + length bs \<le> dev_len (da_file a)"
  shows "write_all_at off bs a = (Inr (), a\<lparr>da_file := put_bytes (unat off) bs ((da_file a)\<lparr>dev_sched := s\<rparr>)\<rparr>)"
proof -
  have "from_padded_bytes bs = Inr bs" using assms(2-4) by (intro from_padded_bytes_id) auto
  moreover have "submit_write (unat off) bs (da_file a) = (Inr (), put_bytes (unat off) bs ((da_file a)\<lparr>dev_sched := s\<rparr>))"
    using assms by (intro submit_write_full) auto
  ultimately show ?thesis by (simp add: write_all_at_def st_bind_def on_file_def)
qed

lemma stale_replay:
  assumes q: "quiet d" and old: "holds_log crc cfg (g # gs) d" and sp: "span_of cfg d = Some len"
    and ok: "log_frame_ok f" "log_size f = log_size g"
    and a: "a = arena_on cfg (Some len) 4096 (dev_block d) ((reset_image cfg d)\<lparr>dev_sched := [IoFull, IoFull, IoFault e]\<rparr>)"
  shows "\<exists>a'. append_frame crc (log_kind f) (log_payload f) a = (Inl e, a')
    \<and> recover crc True cfg (lose_frame_keep_header cfg (da_file a'))
        = (Inr (recovered cfg [g]), lose_frame_keep_header cfg (da_file a'))"
proof -
  let ?D = "reset_image cfg d" and ?o = "unat (dc_arena_offset_bytes cfg)"
  let ?h = "encode_arena_header (ArenaHeader_new (dc_id cfg) (span_of cfg ?D) (of_nat (head_of [g])))"
  have body: "log_body crc cfg [g] d" using old log_body_prefix [of crc cfg "[g]" gs d] by (simp add: holds_log_def)
  then have pl: "arena_place cfg d" "head_of [g] \<le> unat len" using sp by (auto simp: log_body_def log_fits_def)
  note D = reset_image_body [OF body]
  have plD: "arena_place cfg ?D" using D(1) by (simp add: log_body_def)
  have hd: "head_of ([] @ [f]) = head_of [g]" using ok(2) by (simp add: head_of_def)
  have "fixed_span_holds crc cfg [] (arena_on cfg (span_of cfg d) 4096 (dev_block d) ?D)"
    using q pl sp by (intro reset_holds) auto
  then have ah: "arena_holds crc cfg [] a"
    using a sp by (simp add: fixed_span_holds_def arena_holds_def arena_shape_def arena_on_def)
  have sa: "span_of cfg (da_file a) = Some len" using a D(3) sp by (simp add: arena_on_def)
  have fits: "log_fits cfg ([] @ [f]) (da_file a)"
    using sa pl(2) hd by (simp add: log_fits_def)
  have room: "?o + 4096 + log_size f \<le> dev_len ?D"
    using write_fits_len [OF plD, of "head_of [g]"] D(3) sp pl(2) ok(2) by (simp add: write_fits_def head_of_def add.assoc)
  have off: "unat (dc_arena_offset_bytes cfg + 4096) = ?o + 4096"
    using room plD by (subst unat_add_no_wrap) (auto simp: arena_place_def)
  have len: "0 < log_size f" "4096 dvd log_size f" "log_size f < 0x7ffff000"
    using length_log_payload(2) [OF ok(1)] log_size_dvd by (simp_all add: log_size_def)
  define D1 where "D1 = put_bytes ?o ?h (put_bytes (?o + 4096) (image_of crc f) (?D\<lparr>dev_sched := []\<rparr>))"
  have app: "append_frame crc (log_kind f) (log_payload f) a = (Inl e, a\<lparr>da_file := D1\<rparr>)"
    unfolding append_frame_fits [OF ah ok(1) fits]
    using a len room off hd sa D(3) sp
    by (simp add: st_bind_def write_all_at_full write_arena_header_def
        sync_data_def on_file_def fdatasync_def D1_def arena_on_def head_of_def [of "[]"] put_bytes_sched)
  define E where "E = put_bytes ?o ?h ?D"
  have E: "holds_log crc cfg [g] E"
    using log_body_put_header [OF D(1), of ?h] header_is_put_header [OF plD, of 4096 "head_of [g]"]
    by (simp add: holds_log_def E_def)
  have "load_bytes (dev_bytes D1) ?o 4096 = ?h"
    using load_store_same [of _ ?o ?h] by (simp add: D1_def)
  then have "lose_frame_keep_header cfg D1 = E\<lparr>dev_sched := []\<rparr>"
    using room by (intro device.equality) (simp_all add: lose_frame_keep_header_def Let_def D1_def E_def D(6))
  then have "recover crc True cfg (lose_frame_keep_header cfg D1) = (Inr (recovered cfg [g]), lose_frame_keep_header cfg D1)"
    using E by (intro recover_holds) simp_all
  with app show ?thesis by simp
qed

section \<open>A sample arena\<close>

definition sample_config :: DriveConfig where
  "sample_config = \<lparr>dc_id = 1, dc_arena_offset_bytes = 8192, dc_arena_len_bytes = Some 1048576\<rparr>"

definition sample_device :: device where
  "sample_device = \<lparr>dev_bytes = (\<lambda>_. 0), dev_durable = (\<lambda>_. 0), dev_len = 2097152, dev_block = True, dev_sched = []\<rparr>"

definition sample_arena :: DriveArena where
  "sample_arena = arena_on sample_config (Some 1048576) 4096 True (reset_image sample_config sample_device)"

definition sample_frame :: log_frame where
  "sample_frame = DeltaFrame [delta_delete (ChunkId (zeros 32))]"

definition sample_crc :: "u8 list \<Rightarrow> u32" where
  "sample_crc bs = of_nat (sum_list (map unat bs))"

lemma sample_place: "arena_place sample_config sample_device" "span_of sample_config sample_device = Some 1048576"
  "quiet sample_device" "dev_block sample_device"
  by (simp_all add: arena_place_def span_of_def sample_config_def sample_device_def validate_io_layout_def is_aligned_u64_def)

lemma sample_holds: "fixed_span_holds crc sample_config [] sample_arena" "quiet (da_file sample_arena)"
  using reset_holds [of sample_device sample_config crc] reset_image_body(4) [OF log_body_Nil [OF sample_place(1)]] sample_place
  by (simp_all add: sample_arena_def arena_on_def)

lemma sample_frame_ok: "log_frame_ok sample_frame"
  by (simp add: sample_frame_def delta_ok_def delta_delete_def chunk_id_ok_def pad_def)

lemma sample_holds_sched:
  "fixed_span_holds crc sample_config [] (sample_arena\<lparr>da_file := (da_file sample_arena)\<lparr>dev_sched := s\<rparr>\<rparr>)"
  using sample_holds(1) [of crc] by (simp add: fixed_span_holds_def arena_holds_def arena_shape_def)

section \<open>Properties of the arena\<close>

text \<open>
  C1. An append to a fixed-span arena is crash safe: whatever the kernel does with each request
  (short transfer, error, or a crash at that point), \<open>recover\<close> after a restart succeeds without
  reporting corruption and replays the frames that were there before the append, or these and the new
  one; and when \<open>append_frame\<close> reports success it is the longer list, all of it durable.
\<close>

theorem append_frame_crash_safe:
  assumes "fixed_span_holds crc cfg fs a" "log_frame_ok f"
    "append_frame crc (log_kind f) (log_payload f) a = (r, a')"
  shows "\<exists>gs. (gs = fs \<or> gs = fs @ [f])
    \<and> recover crc True cfg (restart (da_file a')) = (Inr (recovered cfg gs), restart (da_file a'))
    \<and> (r = Inr () \<longrightarrow> gs = fs @ [f] \<and> dev_durable (da_file a') = dev_bytes (da_file a'))"
  using append_log_frame_outcome [OF assms(1,2), of r a'] assms(3) recover_restart
  by (cases "r = Inr ()") (auto simp: append_log_frame_def append_outcome_def arena_holds_def)

theorem append_frame_crash_safe_witness:
  "let a = sample_arena\<lparr>da_file := (da_file sample_arena)\<lparr>dev_sched := [IoFull, IoSectors 1]\<rparr>\<rparr>;
       (r, a') = append_frame sample_crc (log_kind sample_frame) (log_payload sample_frame) a
   in fixed_span_holds sample_crc sample_config [] a \<and> log_frame_ok sample_frame
    \<and> (\<exists>gs. (gs = [] \<or> gs = [sample_frame])
        \<and> recover sample_crc True sample_config (restart (da_file a')) = (Inr (recovered sample_config gs), restart (da_file a')))"
proof -
  define a where "a = sample_arena\<lparr>da_file := (da_file sample_arena)\<lparr>dev_sched := [IoFull, IoSectors 1]\<rparr>\<rparr>"
  obtain r a' where run: "append_frame sample_crc (log_kind sample_frame) (log_payload sample_frame) a = (r, a')"
    by fastforce
  have h: "fixed_span_holds sample_crc sample_config [] a" unfolding a_def by (rule sample_holds_sched)
  from append_frame_crash_safe [OF h sample_frame_ok run] show ?thesis
    unfolding Let_def a_def [symmetric] run using h sample_frame_ok by auto
qed

text \<open>
  C10. Acknowledged appends survive. After any run of appends that stops at the first error, recovery
  yields the frames held at the start followed by a prefix of the appended ones that contains every
  acknowledged append and at most one more.
\<close>

theorem acknowledged_appends_survive:
  assumes "fixed_span_holds crc cfg fs a" "list_all log_frame_ok gs"
    "append_all (\<lambda>f. append_frame crc (log_kind f) (log_payload f)) gs a = (n, a')"
  shows "\<exists>m. n \<le> m \<and> m \<le> Suc n \<and> m \<le> length gs
    \<and> recover_entries crc cfg a' = Inr (replay_log (fs @ take m gs))"
proof -
  have "append_log_frame crc = (\<lambda>f. append_frame crc (log_kind f) (log_payload f))"
    by (simp add: fun_eq_iff append_log_frame_def)
  with arena.acknowledged_survive [OF assms(1,2), of n a'] assms(3) show ?thesis by simp
qed

theorem acknowledged_appends_survive_witness:
  "let a = sample_arena\<lparr>da_file := (da_file sample_arena)\<lparr>dev_sched := [IoFull, IoFull, IoFull, IoSectors 9]\<rparr>\<rparr>;
       (n, a') = append_all (\<lambda>f. append_frame sample_crc (log_kind f) (log_payload f)) [sample_frame, sample_frame] a
   in \<exists>m. n \<le> m \<and> m \<le> Suc n \<and> m \<le> 2
     \<and> recover_entries sample_crc sample_config a' = Inr (replay_log (take m [sample_frame, sample_frame]))"
proof -
  define a where "a = sample_arena\<lparr>da_file := (da_file sample_arena)\<lparr>dev_sched := [IoFull, IoFull, IoFull, IoSectors 9]\<rparr>\<rparr>"
  obtain n a' where run: "append_all (\<lambda>f. append_frame sample_crc (log_kind f) (log_payload f)) [sample_frame, sample_frame] a = (n, a')"
    by fastforce
  have h: "fixed_span_holds sample_crc sample_config [] a" unfolding a_def by (rule sample_holds_sched)
  have ok: "list_all log_frame_ok [sample_frame, sample_frame]" by (simp add: sample_frame_ok)
  from acknowledged_appends_survive [OF h ok run] show ?thesis
    unfolding Let_def a_def [symmetric] run by (simp add: numeral_2_eq_2)
qed

text \<open>
  C15. A torn tail is detected and repaired. When the header already names a frame whose blocks hold no
  frame header, or its header before a payload that fails the checksum, \<open>recover\<close> replays everything
  before it, reports tail corruption at exactly its offset, and \<open>truncate_to\<close> with the reported
  length leaves an arena that holds the replayed frames.
\<close>

theorem torn_tail_repaired:
  assumes "quiet (da_file a)" "torn_log crc cfg fs f (da_file a)" "arena_shape cfg a"
    "span_of cfg (da_file a) = Some len"
  shows "\<exists>rec a'. recover crc True cfg (da_file a) = (Inr rec, da_file a)
    \<and> dr_entries rec = replay_log fs \<and> dr_tail_corruption rec \<and> \<not> dr_rebuild_required rec
    \<and> dr_applied_frames rec = length fs
    \<and> truncate_to (dr_replay_len rec) a = (Inr (), a') \<and> arena_holds crc cfg fs a'"
proof -
  have b: "log_body crc cfg fs (da_file a)" using assms(2) by (simp add: torn_log_def)
  obtain a' where t: "truncate_to (of_nat (head_of fs)) a = (Inr (), a')"
    using truncate_quiet [OF b assms(3,4,1)] by blast
  then have "arena_holds crc cfg fs a'"
    using truncate_body [OF b assms(3,4)] by (simp add: truncate_outcome_def)
  with t recover_torn [OF assms(1,2)] show ?thesis
    by (intro exI [of _ "recovered_torn cfg fs"] exI [of _ a']) (simp add: recovered_torn_def recovered_def)
qed

definition sample_torn :: DriveArena where
  "sample_torn = arena_on sample_config (Some 1048576) 4096 True
     (put_bytes 8192 (encode_arena_header (ArenaHeader_new 1 (Some 1048576) (of_nat (head_of [sample_frame])))) sample_device)"

lemma load_bytes_zero: "load_bytes (\<lambda>_. 0) off n = zeros n"
  by (simp add: load_bytes_def zeros_def map_replicate_const)

lemma le_word_zeros: "(le_word (zeros 4) :: u32) = 0"
  by (simp add: le_word_def zeros_def numeral_eq_Suc)

lemma sample_torn_log: "torn_log sample_crc sample_config [] sample_frame (da_file sample_torn)"
proof -
  let ?h = "encode_arena_header (ArenaHeader_new 1 (Some 1048576) (of_nat (head_of [sample_frame])))"
  have f: "da_file sample_torn = put_bytes (unat (dc_arena_offset_bytes sample_config)) ?h sample_device"
    by (simp add: sample_torn_def arena_on_def sample_config_def)
  have sz: "log_size sample_frame = 8192"
    by (simp add: log_size_def sample_frame_def delta_payload_def encode_delta_def delta_delete_def pad_def)
  have sp: "span_of sample_config (da_file sample_torn) = Some 1048576" by (simp add: span_of_def sample_config_def)
  have "load_bytes (dev_bytes (da_file sample_torn)) 12288 8192 = load_bytes (\<lambda>_. 0) 12288 8192"
    using load_store_other [of 12288 8192 8192 ?h "\<lambda>_. 0"] by (simp add: f sample_device_def sample_config_def)
  also have "\<dots> = zeros 8192" by (rule load_bytes_zero)
  finally have z: "torn_frame sample_crc sample_frame (load_bytes (dev_bytes (da_file sample_torn)) 12288 8192)"
    by (simp add: torn_frame_def sz subslice_def le_word_zeros FRAME_MAGIC_def)
  show ?thesis
    unfolding torn_log_def
    using log_body_put_header [OF log_body_Nil [OF sample_place(1)], of ?h]
      header_is_put_header [OF sample_place(1), of 4096 "head_of [sample_frame]"] sample_place(2) sample_frame_ok z sz sp f
    by (simp add: head_of_def log_fits_def sample_config_def) (simp add: sample_device_def put_bytes_def)
qed

theorem torn_tail_repaired_witness:
  "torn_log sample_crc sample_config [] sample_frame (da_file sample_torn)
   \<and> (\<exists>rec a'. recover sample_crc True sample_config (da_file sample_torn) = (Inr rec, da_file sample_torn)
        \<and> dr_entries rec = replay_log [] \<and> dr_tail_corruption rec
        \<and> truncate_to (dr_replay_len rec) sample_torn = (Inr (), a') \<and> arena_holds sample_crc sample_config [] a')"
proof -
  have s: "quiet (da_file sample_torn)" "arena_shape sample_config sample_torn"
    "span_of sample_config (da_file sample_torn) = Some 1048576"
    by (simp_all add: sample_torn_def arena_on_def arena_shape_def span_of_def sample_config_def sample_device_def put_bytes_def)
  from torn_tail_repaired [OF s(1) sample_torn_log s(2,3)] sample_torn_log show ?thesis by auto
qed

text \<open>
  C19. \<open>rebuild_from_entries\<close> replaces whatever a fixed-span arena held: it succeeds when the checkpoint
  fits, and the recovery it returns maps exactly the given chunks to the given records, with no
  corruption and no rebuild requested.
\<close>

theorem rebuild_from_entries_exact:
  assumes "quiet d" "arena_place cfg d" "span_of cfg d = Some len" "list_all entry_ok es" "distinct (map fst es)"
    "8192 + pad (4 + 60 * length es) \<le> unat len" "4096 + pad (4 + 60 * length es) < 0x7ffff000"
  shows "\<exists>rec d'. rebuild_from_entries crc True cfg es d = (Inr rec, d')
    \<and> map_of (dr_entries rec) = map_of es \<and> \<not> dr_tail_corruption rec \<and> \<not> dr_rebuild_required rec"
proof -
  obtain d' where r: "rebuild_from_entries crc True cfg es d
      = (Inr (recovered cfg (if es = [] then [] else [CheckpointFrame es])), d')"
    using rebuild_fixed [OF assms(1-4,6,7)] by blast
  have "map_of (replay_log (if es = [] then [] else [CheckpointFrame es])) = map_of es"
    using replay_log_checkpoint [OF assms(5), of "[]"] by (auto simp: replay_log_def)
  with r show ?thesis by (auto simp: recovered_def)
qed

theorem rebuild_from_entries_exact_witness:
  "let c = ChunkId (zeros 32); l = extent_record 1 4096 10 10 3 7 in
   \<exists>rec d'. rebuild_from_entries sample_crc True sample_config [(c, l)] sample_device = (Inr rec, d')
     \<and> map_of (dr_entries rec) = [c \<mapsto> l]"
  using rebuild_from_entries_exact [OF sample_place(3,1,2),
      of "[(ChunkId (zeros 32), extent_record 1 4096 10 10 3 7)]" sample_crc]
  by (auto simp: chunk_id_ok_def pad_def)

text \<open>
  C22. Frames carry no epoch, and one fence covers the frame and the header that publishes it. Take an
  arena whose first frame was \<open>g\<close>, reset it, and append a frame of the same size. If power fails
  before the fence completes and the drive has kept the header block but not the frame, recovery finds
  \<open>g\<close> in that place, accepts it and reports no corruption: an entry of before the reset is back, in
  place of either the empty log or the new frame.
\<close>

theorem stale_frame_resurrected:
  assumes "quiet d" "holds_log crc cfg (g # gs) d" "span_of cfg d = Some len" "log_frame_ok f" "log_size f = log_size g"
    "reset_config True cfg d = (Inr a, d')"
    "append_frame crc (log_kind f) (log_payload f)
       (a\<lparr>da_file := (da_file a)\<lparr>dev_sched := [IoFull, IoFull, IoFault e]\<rparr>\<rparr>) = (r, a')"
  shows "r = Inl e \<and> recover crc True cfg (lose_frame_keep_header cfg (da_file a'))
    = (Inr (recovered cfg [g]), lose_frame_keep_header cfg (da_file a'))"
proof -
  have "arena_place cfg d" using assms(2) by (simp add: holds_log_def log_body_def)
  then have "a = arena_on cfg (span_of cfg d) 4096 (dev_block d) (reset_image cfg d)"
    using reset_fixed [of d cfg] assms by simp
  then have "a\<lparr>da_file := (da_file a)\<lparr>dev_sched := [IoFull, IoFull, IoFault e]\<rparr>\<rparr>
      = arena_on cfg (Some len) 4096 (dev_block d) ((reset_image cfg d)\<lparr>dev_sched := [IoFull, IoFull, IoFault e]\<rparr>)"
    using assms(3) by (simp add: arena_on_def)
  from stale_replay [OF assms(1-5) this] assms(7) show ?thesis by auto
qed

definition sample_frame2 :: log_frame where
  "sample_frame2 = DeltaFrame [delta_upsert (ChunkId (zeros 32)) (extent_record 1 4096 10 10 3 7)]"

lemma sample_frame2_ok: "log_frame_ok sample_frame2" "log_size sample_frame = log_size sample_frame2"
proof -
  have "delta_ok (delta_upsert (ChunkId (zeros 32)) (extent_record 1 4096 10 10 3 7))"
    "delta_ok (delta_delete (ChunkId (zeros 32)))"
    by (simp_all add: delta_ok_def delta_upsert_def delta_delete_def chunk_id_ok_def)
  then show "log_frame_ok sample_frame2" "log_size sample_frame = log_size sample_frame2"
    by (simp_all add: sample_frame2_def sample_frame_def log_size_def length_delta_payload pad_def)
qed

text \<open>Some device holds the log of one upsert: append it to the sample arena.\<close>

lemma sample_log_exists:
  "\<exists>d. quiet d \<and> holds_log sample_crc sample_config [sample_frame2] d"
proof -
  have h: "arena_holds sample_crc sample_config [] sample_arena"
    using sample_holds(1) by (simp add: fixed_span_holds_def)
  have sp: "span_of sample_config (da_file sample_arena) = Some 1048576" by (simp add: span_of_def sample_config_def)
  have "log_fits sample_config ([] @ [sample_frame2]) (da_file sample_arena)"
    using length_delta_payload [of "[delta_upsert (ChunkId (zeros 32)) (extent_record 1 4096 10 10 3 7)]"]
    by (simp add: log_fits_def sp head_of_def log_size_def sample_frame2_def delta_ok_def delta_upsert_def chunk_id_ok_def pad_def)
  from append_frame_quiet [OF h sample_frame2_ok(1) this sample_holds(2)]
  obtain a' where a: "append_frame sample_crc (log_kind sample_frame2) (log_payload sample_frame2) sample_arena = (Inr (), a')"
    "quiet (da_file a')" by blast
  then show ?thesis
    using append_log_frame_outcome [OF sample_holds(1) sample_frame2_ok(1), of sample_crc "Inr ()" a']
    by (auto simp: append_log_frame_def append_outcome_def arena_holds_def)
qed

theorem stale_frame_resurrected_witness:
  "\<exists>d a d' r a'. holds_log sample_crc sample_config [sample_frame2] d
    \<and> reset_config True sample_config d = (Inr a, d')
    \<and> append_frame sample_crc (log_kind sample_frame) (log_payload sample_frame)
        (a\<lparr>da_file := (da_file a)\<lparr>dev_sched := [IoFull, IoFull, IoFault OtherError]\<rparr>\<rparr>) = (r, a')
    \<and> recover sample_crc True sample_config (lose_frame_keep_header sample_config (da_file a'))
        = (Inr (recovered sample_config [sample_frame2]), lose_frame_keep_header sample_config (da_file a'))"
proof -
  obtain d where d: "quiet d" "holds_log sample_crc sample_config [sample_frame2] d" using sample_log_exists by blast
  then have pl: "arena_place sample_config d" by (simp add: holds_log_def log_body_def)
  have sp: "span_of sample_config d = Some 1048576" by (simp add: span_of_def sample_config_def)
  obtain a d' where r: "reset_config True sample_config d = (Inr a, d')" using reset_fixed [OF d(1) pl] sp by auto
  obtain q a' where w: "append_frame sample_crc (log_kind sample_frame) (log_payload sample_frame)
        (a\<lparr>da_file := (da_file a)\<lparr>dev_sched := [IoFull, IoFull, IoFault OtherError]\<rparr>\<rparr>) = (q, a')" by fastforce
  from stale_frame_resurrected [OF d sp sample_frame_ok sample_frame2_ok(2) r w] d r w show ?thesis by blast
qed


end
