(* ===== verification/Kix_Engine.thy ===== *)
theory Kix_Engine
  imports Kix_Durable
begin

text \<open>
  The KIX engine: \<open>poc/kix/crates/kix/src/engine.rs\<close>, \<open>engine/config.rs\<close> and \<open>engine/runtime.rs\<close>.

  The index lives in shards (\<open>ShardState\<close>, a concurrent map from chunk ids to location records); every
  change is first appended to the arena of the record's drive by the worker of that drive. A worker is
  a thread; \<open>drive_step\<close> is one step of its loop \<open>drive_main\<close> and \<open>drive_run\<close> runs it until it waits.
  The maps of the source (\<open>DashMap\<close>, \<open>HashMap\<close>) are association lists; a queue (\<open>ArrayQueue\<close> with its
  \<open>alive\<close> flag) is a bounded list, and the one-shot reply channel of a request is a ticket under which
  the worker leaves its reply. Counters and latencies are not modelled.
\<close>

section \<open>Errors and configuration\<close>

datatype KixError = KixIo io_error | ChannelClosed

datatype WorkerMode = Interrupt | BusyPoll nat

fun worker_mode_as_str :: "WorkerMode \<Rightarrow> string" where
  "worker_mode_as_str Interrupt = ''interrupt''"
| "worker_mode_as_str (BusyPoll _) = ''busy''"

record KixStatsConfig =
  ks_root_dir :: string
  ks_publish_interval :: nat

record KixConfig =
  kc_shard_count :: nat
  kc_lookup_worker_mode :: WorkerMode
  kc_commit_worker_mode :: WorkerMode
  kc_drive_worker_mode :: WorkerMode
  kc_drive_configs :: "DriveConfig list"
  kc_lookup_pin_cores :: "nat list"
  kc_commit_pin_cores :: "nat list"
  kc_drive_pin_cores :: "nat list"
  kc_shard_numa_node :: "int option"
  kc_lookup_queue_depth :: nat
  kc_commit_queue_depth :: nat
  kc_drive_queue_depth :: nat
  kc_stats :: "KixStatsConfig option"

fun validate_drive_ids :: "u16 list \<Rightarrow> DriveConfig list \<Rightarrow> KixError + unit" where
  "validate_drive_ids seen [] = Inr ()"
| "validate_drive_ids seen (cfg # cfgs) =
     (if dc_id cfg \<in> set seen then Inl (KixIo InvalidInput) else validate_drive_ids (dc_id cfg # seen) cfgs)"

text \<open>\<open>core_ids\<close> is what the crate \<open>core_affinity\<close> reports for the host.\<close>

definition validate_requested_cores :: "nat list option \<Rightarrow> nat list \<Rightarrow> KixError + unit" where
  "validate_requested_cores core_ids requested =
     (if requested = [] then Inr ()
      else case core_ids of
        None \<Rightarrow> Inl (KixIo OtherError)
      | Some available \<Rightarrow>
          let invalid = remdups_adj (sort (filter (\<lambda>core_id. core_id \<notin> set available) requested)) in
          if invalid = [] then Inr () else Inl (KixIo InvalidInput))"

definition validate :: "nat list option \<Rightarrow> KixConfig \<Rightarrow> KixError + unit" where
  "validate core_ids config =
     bind_r (guard_r (kc_shard_count config \<noteq> 0) (KixIo InvalidInput)) (\<lambda>_.
     bind_r (guard_r (kc_drive_configs config \<noteq> []) (KixIo InvalidInput)) (\<lambda>_.
     bind_r (guard_r (kc_lookup_queue_depth config \<noteq> 0) (KixIo InvalidInput)) (\<lambda>_.
     bind_r (guard_r (kc_commit_queue_depth config \<noteq> 0) (KixIo InvalidInput)) (\<lambda>_.
     bind_r (guard_r (kc_drive_queue_depth config \<noteq> 0) (KixIo InvalidInput)) (\<lambda>_.
     bind_r (case kc_stats config of
               Some stats \<Rightarrow>
                 bind_r (guard_r (ks_root_dir stats \<noteq> '''') (KixIo InvalidInput)) (\<lambda>_.
                 guard_r (ks_publish_interval stats \<noteq> 0) (KixIo InvalidInput))
             | None \<Rightarrow> Inr ()) (\<lambda>_.
     bind_r (validate_drive_ids [] (kc_drive_configs config)) (\<lambda>_.
     bind_r (validate_requested_cores core_ids (kc_lookup_pin_cores config)) (\<lambda>_.
     bind_r (validate_requested_cores core_ids (kc_commit_pin_cores config)) (\<lambda>_.
     validate_requested_cores core_ids (kc_drive_pin_cores config))))))))))"

section \<open>Work queues\<close>

record 't WorkQueue =
  wq_capacity :: nat
  wq_items :: "'t list"
  wq_alive :: bool

definition with_capacity :: "nat \<Rightarrow> 't WorkQueue" where
  "with_capacity capacity = \<lparr>wq_capacity = max capacity 1, wq_items = [], wq_alive = True\<rparr>"

text \<open>One round of the loop in \<open>send\<close>: \<open>None\<close> if the queue is full and the sender yields and retries.\<close>

definition send_attempt :: "'t \<Rightarrow> 't WorkQueue \<Rightarrow> (KixError + unit) option \<times> 't WorkQueue" where
  "send_attempt item q =
     (if \<not> wq_alive q then (Some (Inl ChannelClosed), q)
      else if length (wq_items q) < wq_capacity q then (Some (Inr ()), q\<lparr>wq_items := wq_items q @ [item]\<rparr>)
      else (None, q))"

definition try_recv :: "'t WorkQueue \<Rightarrow> 't option \<times> 't WorkQueue" where
  "try_recv q = (case wq_items q of [] \<Rightarrow> (None, q) | x # xs \<Rightarrow> (Some x, q\<lparr>wq_items := xs\<rparr>))"

text \<open>
  One round of the loop in \<open>recv_with_mode\<close>, which polls or sleeps between rounds: \<open>None\<close> if it waits,
  \<open>Some None\<close> if the queue is empty and closed.
\<close>

definition recv_attempt :: "'t WorkQueue \<Rightarrow> 't option option \<times> 't WorkQueue" where
  "recv_attempt q =
     (case try_recv q of
        (Some x, q') \<Rightarrow> (Some (Some x), q')
      | (None, q') \<Rightarrow> if wq_alive q' then (None, q') else (Some None, q'))"

definition close_queue :: "'t WorkQueue \<Rightarrow> 't WorkQueue" where
  "close_queue q = q\<lparr>wq_alive := False\<rparr>"

section \<open>Shards\<close>

text \<open>The shard count is positive in every engine that \<open>open\<close> builds; the source divides by it.\<close>

fun shard_for :: "ChunkId \<Rightarrow> nat \<Rightarrow> nat" where
  "shard_for (ChunkId bs) shard_count = unat (le_word (take 8 bs) :: u64) mod shard_count"

definition ShardState_new :: "entries \<Rightarrow> entries" where
  "ShardState_new initial_entries = fold (\<lambda>(c, r) live. AList.update c r live) initial_entries []"

definition shard_get :: "ChunkId \<Rightarrow> entries \<Rightarrow> LocationRecord option" where
  "shard_get c live = map_of live c"

definition shard_upsert :: "ChunkId \<Rightarrow> LocationRecord \<Rightarrow> entries \<Rightarrow> entries" where
  "shard_upsert c r live =
     (case map_of live c of
        Some existing \<Rightarrow> if generation existing \<le> generation r then AList.update c r live else live
      | None \<Rightarrow> AList.update c r live)"

definition drive_id_for :: "ChunkId \<Rightarrow> entries \<Rightarrow> u16 option" where
  "drive_id_for c live = map_option drive_id (map_of live c)"

definition shard_delete :: "ChunkId \<Rightarrow> entries \<Rightarrow> entries" where
  "shard_delete c live = AList.delete c live"

section \<open>Drive workers\<close>

definition DRIVE_APPEND_BATCH_LIMIT :: nat where "DRIVE_APPEND_BATCH_LIMIT = 128"
definition DRIVE_APPEND_COALESCE_SPINS :: nat where "DRIVE_APPEND_COALESCE_SPINS = 256"

datatype DriveRequest = ReqAppend DeltaEntry nat | ReqCheckpoint entries nat | ReqStop

text \<open>
  The state of the thread: its arena, its queue, the locals \<open>deferred\<close>, \<open>deltas\<close> with \<open>resps\<close>
  (\<open>dw_batch\<close>), the number of polls in a row that found the queue empty, whether the loop still runs,
  and the replies that no client has taken yet.
\<close>

record DriveWorker =
  dw_arena :: DriveArena
  dw_queue :: "DriveRequest WorkQueue"
  dw_deferred :: "DriveRequest option"
  dw_batch :: "(DeltaEntry \<times> nat) list"
  dw_spins :: nat
  dw_running :: bool
  dw_replies :: "(nat \<times> unit io_result) list"

definition new_worker :: "DriveArena \<Rightarrow> nat \<Rightarrow> bool \<Rightarrow> DriveWorker" where
  "new_worker a queue_depth running =
     \<lparr>dw_arena = a, dw_queue = (if running then with_capacity queue_depth else close_queue (with_capacity queue_depth)),
      dw_deferred = None, dw_batch = [], dw_spins = 0, dw_running = running, dw_replies = []\<rparr>"

text \<open>The next request, from \<open>deferred\<close> or the queue.\<close>

definition next_request :: "DriveWorker \<Rightarrow> DriveRequest option option \<times> DriveWorker" where
  "next_request w =
     (case dw_deferred w of
        Some request \<Rightarrow> (Some (Some request), w\<lparr>dw_deferred := None\<rparr>)
      | None \<Rightarrow> (case recv_attempt (dw_queue w) of (r, q) \<Rightarrow> (r, w\<lparr>dw_queue := q\<rparr>)))"

text \<open>The batch is complete: full, stopped by another kind of request, or one poll and all spins in vain.\<close>

definition batch_complete :: "DriveWorker \<Rightarrow> bool" where
  "batch_complete w \<longleftrightarrow>
     \<not> length (dw_batch w) < DRIVE_APPEND_BATCH_LIMIT \<or> dw_deferred w \<noteq> None \<or> dw_spins w > DRIVE_APPEND_COALESCE_SPINS"

definition gather :: "DriveWorker \<Rightarrow> DriveWorker" where
  "gather w =
     (case try_recv (dw_queue w) of
        (Some (ReqAppend delta resp), q) \<Rightarrow> w\<lparr>dw_queue := q, dw_batch := dw_batch w @ [(delta, resp)], dw_spins := 0\<rparr>
      | (Some other, q) \<Rightarrow> w\<lparr>dw_queue := q, dw_deferred := Some other\<rparr>
      | (None, q) \<Rightarrow> w\<lparr>dw_spins := Suc (dw_spins w)\<rparr>)"

definition flush_batch :: "(u8 list \<Rightarrow> u32) \<Rightarrow> DriveWorker \<Rightarrow> DriveWorker" where
  "flush_batch crc w =
     (case append_delta_batch crc (map fst (dw_batch w)) (dw_arena w) of
        (reply, a) \<Rightarrow>
          w\<lparr>dw_arena := a, dw_batch := [], dw_spins := 0,
            dw_replies := dw_replies w @ map (\<lambda>(_, resp). (resp, reply)) (dw_batch w)\<rparr>)"

definition start_request :: "(u8 list \<Rightarrow> u32) \<Rightarrow> DriveRequest \<Rightarrow> DriveWorker \<Rightarrow> DriveWorker" where
  "start_request crc request w =
     (case request of
        ReqAppend delta resp \<Rightarrow> w\<lparr>dw_batch := [(delta, resp)], dw_spins := 0\<rparr>
      | ReqCheckpoint entries resp \<Rightarrow>
          (case write_checkpoint crc entries (dw_arena w) of
             (reply, a) \<Rightarrow> w\<lparr>dw_arena := a, dw_replies := dw_replies w @ [(resp, reply)]\<rparr>)
      | ReqStop \<Rightarrow> w\<lparr>dw_queue := close_queue (dw_queue w), dw_running := False\<rparr>)"

text \<open>One step of \<open>drive_main\<close>; \<open>None\<close> if the thread waits for a request or has returned.\<close>

definition drive_step :: "(u8 list \<Rightarrow> u32) \<Rightarrow> DriveWorker \<Rightarrow> DriveWorker option" where
  "drive_step crc w =
     (if \<not> dw_running w then None
      else if dw_batch w \<noteq> [] then Some (if batch_complete w then flush_batch crc w else gather w)
      else case next_request w of
        (None, _) \<Rightarrow> None
      | (Some None, w') \<Rightarrow> Some (w'\<lparr>dw_queue := close_queue (dw_queue w'), dw_running := False\<rparr>)
      | (Some (Some request), w') \<Rightarrow> Some (start_request crc request w'))"

definition drive_rank :: "DriveWorker \<Rightarrow> nat \<times> nat \<times> nat \<times> nat" where
  "drive_rank w =
     (2 * length (wq_items (dw_queue w)) + (if dw_deferred w = None then 0 else 1), length (dw_batch w),
      Suc DRIVE_APPEND_COALESCE_SPINS - dw_spins w, if dw_running w then 1 else 0)"

definition rank_less :: "((nat \<times> nat \<times> nat \<times> nat) \<times> (nat \<times> nat \<times> nat \<times> nat)) set" where
  "rank_less = less_than <*lex*> less_than <*lex*> less_than <*lex*> less_than"

lemma wf_rank_less: "wf rank_less"
  unfolding rank_less_def by (intro wf_lex_prod wf_less_than)

lemma gather_rank: "\<not> batch_complete w \<Longrightarrow> (drive_rank (gather w), drive_rank w) \<in> rank_less"
  by (auto simp: gather_def drive_rank_def rank_less_def batch_complete_def try_recv_def split: list.splits DriveRequest.splits)

lemma flush_rank: "dw_batch w \<noteq> [] \<Longrightarrow> (drive_rank (flush_batch crc w), drive_rank w) \<in> rank_less"
  by (auto simp: flush_batch_def drive_rank_def rank_less_def split: prod.split)

lemma request_rank:
  assumes "next_request w = (Some r, w')"
  shows "case r of Some q \<Rightarrow> dw_running w \<longrightarrow> (drive_rank (start_request crc q w'), drive_rank w) \<in> rank_less
    | None \<Rightarrow> dw_running w \<longrightarrow> (drive_rank (w'\<lparr>dw_queue := close_queue (dw_queue w'), dw_running := False\<rparr>), drive_rank w) \<in> rank_less"
  using assms
  by (auto simp: next_request_def recv_attempt_def try_recv_def drive_rank_def rank_less_def start_request_def close_queue_def
      split: option.splits list.splits DriveRequest.splits prod.splits if_splits)

lemma drive_step_rank: "drive_step crc w = Some w' \<Longrightarrow> (drive_rank w', drive_rank w) \<in> rank_less"
  using gather_rank [of w] flush_rank [of w crc] request_rank [of w _ _ crc]
  by (fastforce simp: drive_step_def split: if_splits prod.splits option.splits)

text \<open>The worker on its own, until it waits or has returned.\<close>

function drive_run :: "(u8 list \<Rightarrow> u32) \<Rightarrow> DriveWorker \<Rightarrow> DriveWorker" where
  "drive_run crc w = (case drive_step crc w of None \<Rightarrow> w | Some w' \<Rightarrow> drive_run crc w')"
  by pat_completeness auto
termination
  by (relation "inv_image rank_less (\<lambda>(crc, w). drive_rank w)") (auto simp: wf_rank_less drive_step_rank)

declare drive_run.simps [simp del]

section \<open>Requests to a worker\<close>

text \<open>
  What a call gives its caller: a result, or nothing, because the caller waits for a reply that the
  worker never sends.
\<close>

datatype 'a outcome = Returned "KixError + 'a" | Blocked

definition reply_result :: "unit io_result \<Rightarrow> KixError + unit" where
  "reply_result reply = (case reply of Inr _ \<Rightarrow> Inr () | Inl _ \<Rightarrow> Inl (KixIo OtherError))"

text \<open>A client that is alone: it sends, the worker runs, and the client takes the reply.\<close>

definition worker_call :: "(u8 list \<Rightarrow> u32) \<Rightarrow> (nat \<Rightarrow> DriveRequest) \<Rightarrow> DriveWorker \<Rightarrow> unit outcome \<times> DriveWorker" where
  "worker_call crc request w =
     (case send_attempt (request 0) (dw_queue w) of
        (None, q) \<Rightarrow> (Blocked, w)
      | (Some (Inl e), q) \<Rightarrow> (Returned (Inl e), w)
      | (Some (Inr _), q) \<Rightarrow>
          let w' = drive_run crc (w\<lparr>dw_queue := q\<rparr>) in
          (case map_of (dw_replies w') 0 of
             Some reply \<Rightarrow> (Returned (reply_result reply), w'\<lparr>dw_replies := AList.delete 0 (dw_replies w')\<rparr>)
           | None \<Rightarrow> (Blocked, w')))"

type_synonym drive_set = "(u16 \<times> DriveWorker) list"

definition drive_call :: "(u8 list \<Rightarrow> u32) \<Rightarrow> u16 \<Rightarrow> (nat \<Rightarrow> DriveRequest) \<Rightarrow> drive_set \<Rightarrow> unit outcome \<times> drive_set" where
  "drive_call crc d request ws =
     (case map_of ws d of
        None \<Rightarrow> (Returned (Inl (KixIo NotFound)), ws)
      | Some w \<Rightarrow> (case worker_call crc request w of (r, w') \<Rightarrow> (r, AList.update d w' ws)))"

definition drives_append_delta :: "(u8 list \<Rightarrow> u32) \<Rightarrow> u16 \<Rightarrow> DeltaEntry \<Rightarrow> drive_set \<Rightarrow> unit outcome \<times> drive_set" where
  "drives_append_delta crc d delta = drive_call crc d (ReqAppend delta)"

definition drives_write_checkpoint :: "(u8 list \<Rightarrow> u32) \<Rightarrow> u16 \<Rightarrow> entries \<Rightarrow> drive_set \<Rightarrow> unit outcome \<times> drive_set" where
  "drives_write_checkpoint crc d es = drive_call crc d (ReqCheckpoint es)"

section \<open>The client\<close>

record GranuleOwner =
  go_chunk_id :: ChunkId
  go_generation :: u32

record KixEngine =
  ke_shards :: "entries list"
  ke_drives :: drive_set
  ke_inverse :: "(u16 \<times> (u64 \<times> GranuleOwner) list) list"
  ke_rebuild_required :: "u16 list"

definition shard_index_for :: "ChunkId \<Rightarrow> KixEngine \<Rightarrow> KixError + nat" where
  "shard_index_for c e =
     (let shard = shard_for c (length (ke_shards e)) in
      if shard < length (ke_shards e) then Inr shard else Inl ChannelClosed)"

definition kix_get :: "ChunkId \<Rightarrow> KixEngine \<Rightarrow> KixError + LocationRecord option" where
  "kix_get c e = bind_r (shard_index_for c e) (\<lambda>shard. Inr (shard_get c (ke_shards e ! shard)))"

definition fenced_owner :: "u64 \<Rightarrow> ChunkId \<Rightarrow> u32 \<Rightarrow> (u64 \<times> GranuleOwner) list \<Rightarrow> (u64 \<times> GranuleOwner) list" where
  "fenced_owner slot c gen owners =
     (let owner = \<lparr>go_chunk_id = c, go_generation = gen\<rparr> in
      case map_of owners slot of
        Some existing \<Rightarrow> if go_generation existing \<le> gen then AList.update slot owner owners else owners
      | None \<Rightarrow> AList.update slot owner owners)"

definition update_inverse :: "u16 \<Rightarrow> u64 \<Rightarrow> ChunkId \<Rightarrow> u32 \<Rightarrow> KixEngine \<Rightarrow> KixEngine" where
  "update_inverse d slot c gen e =
     (case map_of (ke_inverse e) d of
        None \<Rightarrow> e
      | Some owners \<Rightarrow> e\<lparr>ke_inverse := AList.update d (fenced_owner slot c gen owners) (ke_inverse e)\<rparr>)"

definition kix_upsert :: "(u8 list \<Rightarrow> u32) \<Rightarrow> ChunkId \<Rightarrow> u64 \<Rightarrow> LocationRecord \<Rightarrow> KixEngine \<Rightarrow> unit outcome \<times> KixEngine" where
  "kix_upsert crc c slot r e =
     (case shard_index_for c e of
        Inl err \<Rightarrow> (Returned (Inl err), e)
      | Inr shard \<Rightarrow>
          (case drives_append_delta crc (drive_id r) (delta_upsert c r) (ke_drives e) of
             (Returned (Inr _), ws) \<Rightarrow>
               (Returned (Inr ()),
                update_inverse (drive_id r) slot c (generation r)
                  (e\<lparr>ke_drives := ws, ke_shards := (ke_shards e)[shard := shard_upsert c r (ke_shards e ! shard)]\<rparr>))
           | (result, ws) \<Rightarrow> (result, e\<lparr>ke_drives := ws\<rparr>)))"

definition lookup_granule_chunk :: "u16 \<Rightarrow> u64 \<Rightarrow> KixEngine \<Rightarrow> (ChunkId \<times> u32) option" where
  "lookup_granule_chunk d slot e =
     (case map_of (ke_inverse e) d of
        None \<Rightarrow> None
      | Some owners \<Rightarrow> map_option (\<lambda>owner. (go_chunk_id owner, go_generation owner)) (map_of owners slot))"

definition occupied_granules :: "u16 \<Rightarrow> KixEngine \<Rightarrow> (u64 \<times> ChunkId \<times> u32) list" where
  "occupied_granules d e =
     (case map_of (ke_inverse e) d of
        None \<Rightarrow> []
      | Some owners \<Rightarrow>
          sort_key fst (map (\<lambda>(slot, owner). (slot, go_chunk_id owner, go_generation owner)) owners))"

definition clear_granule_inverse :: "u16 \<Rightarrow> u64 \<Rightarrow> KixEngine \<Rightarrow> KixEngine" where
  "clear_granule_inverse d slot e =
     (case map_of (ke_inverse e) d of
        None \<Rightarrow> e
      | Some owners \<Rightarrow> e\<lparr>ke_inverse := AList.update d (AList.delete slot owners) (ke_inverse e)\<rparr>)"

definition seed_inverse :: "u16 \<Rightarrow> u64 \<Rightarrow> ChunkId \<Rightarrow> u32 \<Rightarrow> KixEngine \<Rightarrow> KixEngine" where
  "seed_inverse d slot c gen e = update_inverse d slot c gen e"

definition kix_delete :: "(u8 list \<Rightarrow> u32) \<Rightarrow> ChunkId \<Rightarrow> KixEngine \<Rightarrow> unit outcome \<times> KixEngine" where
  "kix_delete crc c e =
     (case shard_index_for c e of
        Inl err \<Rightarrow> (Returned (Inl err), e)
      | Inr shard \<Rightarrow>
          (case drive_id_for c (ke_shards e ! shard) of
             None \<Rightarrow> (Returned (Inr ()), e)
           | Some d \<Rightarrow>
               (case drives_append_delta crc d (delta_delete c) (ke_drives e) of
                  (Returned (Inr _), ws) \<Rightarrow>
                    (Returned (Inr ()),
                     e\<lparr>ke_drives := ws, ke_shards := (ke_shards e)[shard := shard_delete c (ke_shards e ! shard)]\<rparr>)
                | (result, ws) \<Rightarrow> (result, e\<lparr>ke_drives := ws\<rparr>))))"

section \<open>Opening and snapshots\<close>

definition preflight_drive_requirements :: "bool \<Rightarrow> DriveConfig \<Rightarrow> (device, io_error, unit) st" where
  "preflight_drive_requirements existed cfg =
     st_bind (st_lift (validate_io_layout cfg)) (\<lambda>_.
     st_bind (if \<not> existed then syscall else st_ret ()) (\<lambda>_.
     st_bind (open_direct_file existed (\<not> existed)) (\<lambda>_.
     st_bind syscall (\<lambda>_. \<lambda>d.
     st_bind storage_capacity_bytes (\<lambda>_.
     st_bind (resolve_arena_len_bytes (dev_block d) (dc_arena_offset_bytes cfg) (dc_arena_len_bytes cfg)) (\<lambda>_.
     st_bind make_uring (\<lambda>_.
     syscall))) d))))"

record DriveOpenPlan =
  op_reset_before_open :: bool
  op_truncate_to_replay_len :: "u64 option"

definition open_plan :: "DriveRecovery \<Rightarrow> DriveOpenPlan" where
  "open_plan recovery =
     \<lparr>op_reset_before_open = dr_rebuild_required recovery,
      op_truncate_to_replay_len = (if dr_tail_corruption recovery then Some (dr_replay_len recovery) else None)\<rparr>"

text \<open>The arena after \<open>open_drive_writer\<close>, or the device it failed on.\<close>

definition open_drive_writer :: "DriveConfig \<Rightarrow> DriveOpenPlan \<Rightarrow> device \<Rightarrow> unit io_result \<times> DriveArena" where
  "open_drive_writer cfg plan d =
     (case (if op_reset_before_open plan then reset_config True cfg d else open_config True cfg d) of
        (Inl e, d') \<Rightarrow> (Inl e, arena_on cfg (dc_arena_len_bytes cfg) 0 (dev_block d') d')
      | (Inr writer, _) \<Rightarrow>
          (case op_truncate_to_replay_len plan of
             None \<Rightarrow> (Inr (), writer)
           | Some replay_len \<Rightarrow> truncate_to replay_len writer))"

text \<open>
  The arena files exist once the preflight has passed. \<open>startup i\<close> is the outcome of pinning the
  \<open>i\<close>-th appender and setting its memory policy. The thread reports its start before it opens the arena,
  so a failure to open does not fail \<open>open\<close>: it closes the queue.
\<close>

definition open_drive :: "(u8 list \<Rightarrow> u32) \<Rightarrow> (KixError + unit) \<Rightarrow> nat \<Rightarrow> DriveConfig \<Rightarrow> device
    \<Rightarrow> KixError + DriveWorker \<times> DriveRecovery" where
  "open_drive crc startup queue_depth cfg d =
     (case st_bind syscall (\<lambda>_. recover crc True cfg) d of
        (Inl e, _) \<Rightarrow> Inl (KixIo e)
      | (Inr recovery, d') \<Rightarrow>
          bind_r startup (\<lambda>_.
          case open_drive_writer cfg (open_plan recovery) d' of
            (Inr _, writer) \<Rightarrow> Inr (new_worker writer queue_depth True, recovery)
          | (Inl _, failed) \<Rightarrow> Inr (new_worker failed queue_depth False, recovery)))"

fun open_drives :: "(u8 list \<Rightarrow> u32) \<Rightarrow> (nat \<Rightarrow> KixError + unit) \<Rightarrow> nat \<Rightarrow> nat \<Rightarrow> (DriveConfig \<times> device) list
    \<Rightarrow> drive_set \<Rightarrow> KixError + drive_set \<times> DriveRecovery list" where
  "open_drives crc startup queue_depth i [] queues = Inr (queues, [])"
| "open_drives crc startup queue_depth i ((cfg, d) # rest) queues =
     bind_r (open_drive crc (startup i) queue_depth cfg d) (\<lambda>(w, recovery).
     bind_r (open_drives crc startup queue_depth (Suc i) rest (AList.update (dc_id cfg) w queues)) (\<lambda>(ws, recoveries).
     Inr (ws, recovery # recoveries)))"

fun preflight_all :: "(DriveConfig \<times> bool \<times> device) list \<Rightarrow> KixError + (DriveConfig \<times> device) list" where
  "preflight_all [] = Inr []"
| "preflight_all ((cfg, existed, d) # rest) =
     (case preflight_drive_requirements existed cfg d of
        (Inl e, _) \<Rightarrow> Inl (KixIo e)
      | (Inr _, d') \<Rightarrow> bind_r (preflight_all rest) (\<lambda>ds. Inr ((cfg, d') # ds)))"

definition initial_shards :: "nat \<Rightarrow> DriveRecovery list \<Rightarrow> entries list" where
  "initial_shards shard_count recoveries =
     fold (\<lambda>(c, r) shards. let shard = shard_for c shard_count in shards[shard := shards ! shard @ [(c, r)]])
       (concat (map dr_entries recoveries)) (replicate shard_count [])"

datatype worker_role = LookupWorker nat | CommitWorker nat | DriveAppender nat

fun start_shard_workers :: "(worker_role \<Rightarrow> KixError + unit) \<Rightarrow> nat list \<Rightarrow> KixError + unit" where
  "start_shard_workers startup [] = Inr ()"
| "start_shard_workers startup (shard # rest) =
     bind_r (startup (LookupWorker shard)) (\<lambda>_.
     bind_r (startup (CommitWorker shard)) (\<lambda>_.
     start_shard_workers startup rest))"

definition rebuild_required_drives :: "KixEngine \<Rightarrow> u16 list" where
  "rebuild_required_drives e = sort (ke_rebuild_required e)"

text \<open>
  The devices come with the configurations, each with whether its path exists. The stats publisher,
  which \<open>open\<close> starts last, is not modelled.
\<close>

definition kix_open :: "(u8 list \<Rightarrow> u32) \<Rightarrow> nat list option \<Rightarrow> (worker_role \<Rightarrow> KixError + unit) \<Rightarrow> KixConfig \<Rightarrow> (bool \<times> device) list
    \<Rightarrow> KixError + KixEngine" where
  "kix_open crc core_ids startup config devices =
     bind_r (validate core_ids config) (\<lambda>_.
     bind_r (preflight_all (zip (kc_drive_configs config) devices)) (\<lambda>drives.
     bind_r (open_drives crc (\<lambda>i. startup (DriveAppender i)) (kc_drive_queue_depth config) 0 drives []) (\<lambda>(ws, recoveries).
     bind_r (start_shard_workers startup [0..<kc_shard_count config]) (\<lambda>_.
     Inr \<lparr>ke_shards = map ShardState_new (initial_shards (kc_shard_count config) recoveries),
          ke_drives = ws,
          ke_inverse = map (\<lambda>cfg. (dc_id cfg, [])) (kc_drive_configs config),
          ke_rebuild_required = remdups (map dr_drive_id (filter dr_rebuild_required recoveries))\<rparr>))))"

definition snapshot_entries :: "KixEngine \<Rightarrow> entries" where
  "snapshot_entries e = concat (ke_shards e)"

definition group_by_drive :: "entries \<Rightarrow> (u16 \<times> entries) list" where
  "group_by_drive es = map (\<lambda>d. (d, filter (\<lambda>(c, r). drive_id r = d) es)) (remdups (map (drive_id \<circ> snd) es))"

fun checkpoint_groups :: "(u8 list \<Rightarrow> u32) \<Rightarrow> (u16 \<times> entries) list \<Rightarrow> drive_set \<Rightarrow> unit outcome \<times> drive_set" where
  "checkpoint_groups crc [] ws = (Returned (Inr ()), ws)"
| "checkpoint_groups crc ((d, es) # rest) ws =
     (case drives_write_checkpoint crc d es ws of
        (Returned (Inr _), ws') \<Rightarrow> checkpoint_groups crc rest ws'
      | (result, ws') \<Rightarrow> (result, ws'))"

definition checkpoint_all :: "(u8 list \<Rightarrow> u32) \<Rightarrow> KixEngine \<Rightarrow> unit outcome \<times> KixEngine" where
  "checkpoint_all crc e =
     (case checkpoint_groups crc (group_by_drive (snapshot_entries e)) (ke_drives e) of
        (result, ws) \<Rightarrow> (result, e\<lparr>ke_drives := ws\<rparr>))"

end
