(* ===== verification/Kix_Engine_Spec.thy ===== *)
theory Kix_Engine_Spec
  imports Kix_Engine "HOL-Library.Multiset"
begin

text \<open>
  What the engine promises. A shard in memory follows the same rule as the replay of the log (the
  interpretation \<open>shard\<close> of \<open>fenced_index\<close>); a worker answers every request; \<open>drives_hold\<close> relates the
  drives of an engine to their logs and \<open>engine_holds\<close> the whole engine to one map. The properties say
  that acknowledged changes are the map that a reopened engine serves, and under which discipline.
\<close>

section \<open>Shards\<close>

definition shard_apply :: "DeltaEntry \<Rightarrow> entries \<Rightarrow> entries" where
  "shard_apply d live =
     (case de_op d of
        Upsert \<Rightarrow> (case de_record d of Some r \<Rightarrow> shard_upsert (de_chunk_id d) r live | None \<Rightarrow> live)
      | Delete \<Rightarrow> shard_delete (de_chunk_id d) live)"

interpretation shard: fenced_index map_of shard_apply "\<lambda>live. distinct (map fst live)"
proof
  fix live :: entries and d :: DeltaEntry
  show "map_of (shard_apply d live) = spec_delta d (map_of live)"
    by (auto simp: shard_apply_def shard_upsert_def shard_delete_def spec_delta.simps spec_upsert.simps AList.update_conv'
        AList.delete_conv' split: DeltaOp.split option.split)
  show "distinct (map fst (shard_apply d live))" if "distinct (map fst live)"
    using that by (auto simp: shard_apply_def shard_upsert_def shard_delete_def AList.distinct_update AList.distinct_delete
        split: DeltaOp.split option.split)
qed

lemma delta_fields [simp]:
  "de_op (delta_upsert c r) = Upsert" "de_chunk_id (delta_upsert c r) = c" "de_record (delta_upsert c r) = Some r"
  "de_op (delta_delete c) = Delete" "de_chunk_id (delta_delete c) = c" "de_record (delta_delete c) = None"
  by (simp_all add: delta_upsert_def delta_delete_def)

lemma shard_apply_simps:
  "shard_upsert c r live = shard_apply (delta_upsert c r) live"
  "shard_delete c live = shard_apply (delta_delete c) live"
  by (simp_all add: shard_apply_def)

lemma keys_shard_apply: "fst ` set (shard_apply d live) \<subseteq> insert (de_chunk_id d) (fst ` set live)"
proof -
  have "fst ` set (AList.delete c live) \<subseteq> fst ` set live" for c
    using AList.delete_keys [of c live] by (metis filter_is_subset image_set removeAll_filter_not_eq)
  then show ?thesis
    by (auto simp: shard_apply_def shard_upsert_def shard_delete_def AList.dom_update split: DeltaOp.split option.split)
qed

lemma shard_for_less: "0 < n \<Longrightarrow> shard_for c n < n"
  by (cases c) simp

section \<open>A worker alone with one request\<close>

definition idle :: "DriveWorker \<Rightarrow> bool" where
  "idle w \<longleftrightarrow> dw_running w \<and> wq_alive (dw_queue w) \<and> wq_items (dw_queue w) = [] \<and> 0 < wq_capacity (dw_queue w)
     \<and> dw_deferred w = None \<and> dw_batch w = [] \<and> dw_spins w = 0 \<and> dw_replies w = []"

lemma drive_run_step: "drive_step crc w = Some w' \<Longrightarrow> drive_run crc w = drive_run crc w'"
  by (simp add: drive_run.simps [of crc w])

lemma drive_run_stop: "drive_step crc w = None \<Longrightarrow> drive_run crc w = w"
  by (simp add: drive_run.simps [of crc w])

lemma drive_run_spin:
  assumes "dw_running w" "wq_items (dw_queue w) = []" "dw_deferred w = None" "length (dw_batch w) = 1"
    "n + dw_spins w = Suc DRIVE_APPEND_COALESCE_SPINS"
  shows "drive_run crc w = drive_run crc (flush_batch crc w)"
  using assms
proof (induction n arbitrary: w)
  case 0
  then show ?case
    by (intro drive_run_step) (auto simp: drive_step_def batch_complete_def)
next
  case (Suc n)
  have b: "dw_batch w \<noteq> []" using Suc.prems by auto
  have "drive_step crc w = Some (w\<lparr>dw_spins := Suc (dw_spins w)\<rparr>)"
    using Suc.prems b by (simp add: drive_step_def batch_complete_def DRIVE_APPEND_BATCH_LIMIT_def gather_def try_recv_def)
  then have "drive_run crc w = drive_run crc (w\<lparr>dw_spins := Suc (dw_spins w)\<rparr>)" by (rule drive_run_step)
  also have "\<dots> = drive_run crc (flush_batch crc (w\<lparr>dw_spins := Suc (dw_spins w)\<rparr>))"
    using Suc.prems by (intro Suc.IH) auto
  also have "flush_batch crc (w\<lparr>dw_spins := Suc (dw_spins w)\<rparr>) = flush_batch crc w"
    by (simp add: flush_batch_def split: prod.split)
  finally show ?case .
qed

lemma drive_run_idle: "idle w \<Longrightarrow> drive_run crc (w\<lparr>dw_arena := a, dw_replies := rs\<rparr>) = w\<lparr>dw_arena := a, dw_replies := rs\<rparr>"
  by (intro drive_run_stop) (simp add: idle_def drive_step_def next_request_def recv_attempt_def try_recv_def)

lemma drive_run_append:
  assumes "idle w" "append_delta_batch crc [delta] (dw_arena w) = (r, a)"
  shows "drive_run crc (w\<lparr>dw_queue := (dw_queue w)\<lparr>wq_items := [ReqAppend delta t]\<rparr>\<rparr>) = w\<lparr>dw_arena := a, dw_replies := [(t, r)]\<rparr>"
proof -
  let ?q = "dw_queue w"
  let ?w1 = "w\<lparr>dw_queue := ?q\<lparr>wq_items := [ReqAppend delta t]\<rparr>\<rparr>"
  let ?w2 = "w\<lparr>dw_batch := [(delta, t)]\<rparr>"
  have q: "?q\<lparr>wq_items := []\<rparr> = ?q" using assms(1) by (cases ?q) (simp add: idle_def)
  have "w\<lparr>dw_queue := ?q, dw_batch := [(delta, t)], dw_spins := 0\<rparr> = ?w2"
    using assms(1) by (cases w) (simp add: idle_def)
  then have "drive_step crc ?w1 = Some ?w2"
    using assms(1) q by (simp add: drive_step_def next_request_def recv_attempt_def try_recv_def idle_def start_request_def)
  then have "drive_run crc ?w1 = drive_run crc ?w2" by (rule drive_run_step)
  also have "\<dots> = drive_run crc (flush_batch crc ?w2)"
    using assms(1) by (intro drive_run_spin [of _ "Suc DRIVE_APPEND_COALESCE_SPINS"]) (simp_all add: idle_def)
  also have "flush_batch crc ?w2 = w\<lparr>dw_arena := a, dw_replies := [(t, r)]\<rparr>"
    using assms by (cases w) (simp add: flush_batch_def idle_def)
  also have "drive_run crc \<dots> = \<dots>" by (rule drive_run_idle [OF assms(1)])
  finally show ?thesis .
qed

lemma worker_call_append:
  assumes "idle w" "append_delta_batch crc [delta] (dw_arena w) = (r, a)"
  shows "worker_call crc (ReqAppend delta) w = (Returned (reply_result r), w\<lparr>dw_arena := a\<rparr>)"
proof -
  have "send_attempt (ReqAppend delta 0) (dw_queue w) = (Some (Inr ()), (dw_queue w)\<lparr>wq_items := [ReqAppend delta 0]\<rparr>)"
    using assms(1) by (simp add: send_attempt_def idle_def)
  moreover have "w\<lparr>dw_arena := a, dw_replies := []\<rparr> = w\<lparr>dw_arena := a\<rparr>" using assms(1) by (cases w) (simp add: idle_def)
  ultimately show ?thesis by (simp add: worker_call_def drive_run_append [OF assms])
qed

lemma worker_call_checkpoint:
  assumes "idle w" "write_checkpoint crc es (dw_arena w) = (r, a)"
  shows "worker_call crc (ReqCheckpoint es) w = (Returned (reply_result r), w\<lparr>dw_arena := a\<rparr>)"
proof -
  let ?q = "dw_queue w"
  let ?w1 = "w\<lparr>dw_queue := ?q\<lparr>wq_items := [ReqCheckpoint es 0]\<rparr>\<rparr>"
  have q: "?q\<lparr>wq_items := []\<rparr> = ?q" using assms(1) by (cases ?q) (simp add: idle_def)
  have s: "send_attempt (ReqCheckpoint es 0) ?q = (Some (Inr ()), ?q\<lparr>wq_items := [ReqCheckpoint es 0]\<rparr>)"
    using assms(1) by (simp add: send_attempt_def idle_def)
  have "w\<lparr>dw_queue := ?q, dw_arena := a, dw_replies := [(0, r)]\<rparr> = w\<lparr>dw_arena := a, dw_replies := [(0, r)]\<rparr>"
    by (cases w) simp
  then have "drive_step crc ?w1 = Some (w\<lparr>dw_arena := a, dw_replies := [(0, r)]\<rparr>)"
    using assms q by (simp add: drive_step_def next_request_def recv_attempt_def try_recv_def idle_def start_request_def)
  then have d: "drive_run crc ?w1 = w\<lparr>dw_arena := a, dw_replies := [(0, r)]\<rparr>"
    using drive_run_step drive_run_idle [OF assms(1)] by metis
  have "w\<lparr>dw_arena := a, dw_replies := []\<rparr> = w\<lparr>dw_arena := a\<rparr>" using assms(1) by (cases w) (simp add: idle_def)
  then show ?thesis by (simp add: worker_call_def s d)
qed

section \<open>A worker and its queue\<close>

fun ticket_of :: "DriveRequest \<Rightarrow> nat list" where
  "ticket_of (ReqAppend delta t) = [t]"
| "ticket_of (ReqCheckpoint es t) = [t]"
| "ticket_of ReqStop = []"

definition requests :: "DriveWorker \<Rightarrow> DriveRequest list" where
  "requests w = map (\<lambda>(delta, t). ReqAppend delta t) (dw_batch w)
     @ (case dw_deferred w of Some r \<Rightarrow> [r] | None \<Rightarrow> []) @ wq_items (dw_queue w)"

definition owed :: "DriveWorker \<Rightarrow> nat list" where
  "owed w = concat (map ticket_of (requests w))"

definition answered :: "DriveWorker \<Rightarrow> nat list" where
  "answered w = map fst (dw_replies w)"

lemma concat_tickets_batch: "concat (map ticket_of (map (\<lambda>(delta, t). ReqAppend delta t) b)) = map snd b"
  by (induction b) auto

lemma requests_gather:
  "\<not> batch_complete w \<Longrightarrow> requests (gather w) = requests w" "dw_replies (gather w) = dw_replies w"
  "dw_arena (gather w) = dw_arena w" "dw_running (gather w) = dw_running w" "wq_alive (dw_queue (gather w)) = wq_alive (dw_queue w)"
  by (auto simp: gather_def requests_def try_recv_def batch_complete_def split: list.split DriveRequest.split)

lemma requests_next:
  assumes "next_request w = (Some (Some r), w')" "dw_batch w = []"
  shows "requests w = r # requests w'" "dw_batch w' = []" "dw_replies w' = dw_replies w" "dw_arena w' = dw_arena w"
    "dw_running w' = dw_running w" "wq_alive (dw_queue w') = wq_alive (dw_queue w)"
  using assms
  by (auto simp: next_request_def requests_def recv_attempt_def try_recv_def split: option.splits list.splits if_splits)

lemma requests_start:
  "dw_batch w = [] \<Longrightarrow> requests (start_request crc r w) = (case r of ReqAppend _ _ \<Rightarrow> [r] | _ \<Rightarrow> []) @ requests w"
  by (auto simp: start_request_def requests_def close_queue_def split: DriveRequest.split prod.split)

lemma drive_step_cases:
  assumes "drive_step crc w = Some w'"
  obtains (flush) "dw_running w" "dw_batch w \<noteq> []" "w' = flush_batch crc w"
  | (gather) "dw_running w" "dw_batch w \<noteq> []" "\<not> batch_complete w" "w' = gather w"
  | (closed) w1 where "dw_running w" "dw_batch w = []" "next_request w = (Some None, w1)"
      "w' = w1\<lparr>dw_queue := close_queue (dw_queue w1), dw_running := False\<rparr>"
  | (start) r w1 where "dw_running w" "dw_batch w = []" "next_request w = (Some (Some r), w1)" "w' = start_request crc r w1"
  using assms by (auto simp: drive_step_def split: if_splits option.splits prod.splits)

lemma next_request_closed:
  assumes "next_request w = (Some None, w1)"
  shows "\<not> wq_alive (dw_queue w)" "w1 = w"
  using assms by (auto simp: next_request_def recv_attempt_def try_recv_def split: option.splits list.splits if_splits)

text \<open>Every step keeps the account of the replies that are owed or given.\<close>

lemma drive_step_account:
  assumes "drive_step crc w = Some w'"
  shows "mset (owed w') + mset (answered w') = mset (owed w) + mset (answered w)"
  using assms
proof (cases rule: drive_step_cases)
  case flush
  then show ?thesis
    using concat_tickets_batch [of "dw_batch w"]
    by (auto simp: flush_batch_def owed_def answered_def requests_def comp_def split_beta split: prod.split)
next
  case gather
  then show ?thesis using requests_gather [of w] by (simp add: owed_def answered_def)
next
  case (closed w1)
  then show ?thesis using next_request_closed [of w w1]
    by (simp add: owed_def answered_def requests_def close_queue_def)
next
  case (start r w1)
  note n = requests_next [OF start(3,2)]
  have "requests w' = (case r of ReqAppend _ _ \<Rightarrow> [r] | _ \<Rightarrow> []) @ requests w1" using start(4) n(2) by (simp add: requests_start)
  moreover have "answered w' = answered w @ (case r of ReqCheckpoint _ t \<Rightarrow> [t] | _ \<Rightarrow> [])"
    using start(4) n(3) by (auto simp: answered_def start_request_def split: DriveRequest.split prod.split)
  ultimately show ?thesis using n(1) by (cases r) (simp_all add: owed_def)
qed

definition serving :: "DriveWorker \<Rightarrow> bool" where
  "serving w \<longleftrightarrow> dw_running w \<and> wq_alive (dw_queue w) \<and> ReqStop \<notin> set (requests w)"

lemma drive_step_serving:
  assumes "drive_step crc w = Some w'" "serving w"
  shows "serving w'"
  using assms(1)
proof (cases rule: drive_step_cases)
  case flush
  then show ?thesis using assms(2) by (auto simp: serving_def flush_batch_def requests_def split: prod.split)
next
  case gather
  then show ?thesis using assms(2) requests_gather [of w] by (simp add: serving_def)
next
  case (closed w1)
  then show ?thesis using assms(2) next_request_closed [of w w1] by (simp add: serving_def)
next
  case (start r w1)
  note n = requests_next [OF start(3,2)]
  have "r \<noteq> ReqStop" using n(1) assms(2) by (auto simp: serving_def)
  then have "dw_running w'" "wq_alive (dw_queue w')" "set (requests w') \<subseteq> set (requests w)"
    using start(4) n assms(2) requests_start [OF n(2), of crc r]
    by (auto simp: serving_def start_request_def split: DriveRequest.splits prod.splits)
  then show ?thesis using assms(2) by (auto simp: serving_def)
qed

lemma drive_step_done: "drive_step crc w = None \<Longrightarrow> serving w \<Longrightarrow> requests w = []"
  by (auto simp: drive_step_def serving_def next_request_def recv_attempt_def try_recv_def requests_def
      split: if_splits option.splits prod.splits list.splits)

lemma drive_run_invariant:
  assumes "P w" "\<And>w w'. P w \<Longrightarrow> drive_step crc w = Some w' \<Longrightarrow> P w'"
  shows "P (drive_run crc w) \<and> drive_step crc (drive_run crc w) = None"
  using assms(1)
proof (induction w rule: wf_induct_rule [OF wf_inv_image [OF wf_rank_less, of drive_rank]])
  case (1 w)
  show ?case
  proof (cases "drive_step crc w")
    case None
    then show ?thesis using 1(2) by (simp add: drive_run_stop)
  next
    case (Some w')
    then show ?thesis using 1(1) [of w'] assms(2) [OF 1(2) Some] drive_step_rank [OF Some] drive_run_step [OF Some]
      by (simp add: in_inv_image)
  qed
qed

section \<open>A worker and its log\<close>

definition log_state :: "(u8 list \<Rightarrow> u32) \<Rightarrow> DriveConfig \<Rightarrow> log_frame list \<Rightarrow> DriveArena \<Rightarrow> bool" where
  "log_state crc cfg fs a \<longleftrightarrow> fixed_span_holds crc cfg fs a \<and> dev_durable (da_file a) = dev_bytes (da_file a)"

lemma log_state_append:
  assumes "log_state crc cfg fs a" "log_frame_ok f" "append_frame crc (log_kind f) (log_payload f) a = (Inr u, a')"
  shows "log_state crc cfg (fs @ [f]) a'"
  using append_log_frame_outcome [of crc cfg fs a f "Inr u" a'] arena.app_ok [of crc cfg fs a f u a'] assms
  by (auto simp: log_state_def append_log_frame_def append_outcome_def)

lemma log_state_batch:
  assumes "log_state crc cfg fs a" "list_all delta_ok ds" "length ds \<le> DRIVE_APPEND_BATCH_LIMIT"
    "append_delta_batch crc ds a = (Inr u, a')"
  shows "log_state crc cfg (fs @ [DeltaFrame ds]) a'"
proof -
  have "log_frame_ok (DeltaFrame ds)"
    using assms(2,3) pad_less [of "4 + 64 * length ds"] by (simp add: DRIVE_APPEND_BATCH_LIMIT_def)
  then show ?thesis using log_state_append [OF assms(1), of "DeltaFrame ds" u a'] assms(4) by (simp add: append_delta_batch_def)
qed

lemma log_state_checkpoint:
  assumes "log_state crc cfg fs a" "log_frame_ok (CheckpointFrame es)" "write_checkpoint crc es a = (Inr u, a')"
  shows "log_state crc cfg (fs @ [CheckpointFrame es]) a'"
  using log_state_append [OF assms(1,2), of u a'] assms(3) by (simp add: write_checkpoint_def)

fun request_effect :: "DriveRequest \<Rightarrow> index_map \<Rightarrow> index_map" where
  "request_effect (ReqAppend delta t) m = spec_delta delta m"
| "request_effect (ReqCheckpoint es t) m = map_of es"
| "request_effect ReqStop m = m"

fun request_ok :: "DriveRequest \<Rightarrow> bool" where
  "request_ok (ReqAppend delta t) \<longleftrightarrow> delta_ok delta"
| "request_ok (ReqCheckpoint es t) \<longleftrightarrow> distinct (map fst es) \<and> log_frame_ok (CheckpointFrame es)"
| "request_ok ReqStop \<longleftrightarrow> True"

definition log_index :: "log_frame list \<Rightarrow> index_map" where
  "log_index fs = map_of (replay_log fs)"

text \<open>The index that the log will hold once the requests of the worker are served in their order.\<close>

definition worker_to :: "(u8 list \<Rightarrow> u32) \<Rightarrow> DriveConfig \<Rightarrow> index_map \<Rightarrow> DriveWorker \<Rightarrow> bool" where
  "worker_to crc cfg m w \<longleftrightarrow>
     list_all request_ok (requests w) \<and> length (dw_batch w) \<le> DRIVE_APPEND_BATCH_LIMIT
     \<and> (list_all (\<lambda>(t, r). r = Inr ()) (dw_replies w) \<longrightarrow>
         (\<exists>fs. log_state crc cfg fs (dw_arena w) \<and> fold request_effect (requests w) (log_index fs) = m))"

lemma fold_request_batch: "fold request_effect (map (\<lambda>(delta, t). ReqAppend delta t) b) = fold spec_delta (map fst b)"
  by (induction b) auto

lemma request_ok_batch: "list_all request_ok (map (\<lambda>(delta, t). ReqAppend delta t) b) \<longleftrightarrow> list_all delta_ok (map fst b)"
  by (induction b) auto

lemma requests_flush: "requests w = map (\<lambda>(delta, t). ReqAppend delta t) (dw_batch w) @ requests (flush_batch crc w)"
  by (simp add: requests_def flush_batch_def split: prod.split)

lemma flush_fields:
  "append_delta_batch crc (map fst (dw_batch w)) (dw_arena w) = (r, a) \<Longrightarrow>
     dw_arena (flush_batch crc w) = a \<and> dw_replies (flush_batch crc w) = dw_replies w @ map (\<lambda>(_, t). (t, r)) (dw_batch w)
     \<and> dw_batch (flush_batch crc w) = []"
  by (simp add: flush_batch_def)

lemma worker_to_flush:
  assumes "worker_to crc cfg m w" "dw_batch w \<noteq> []"
  shows "worker_to crc cfg m (flush_batch crc w)"
proof -
  obtain r a where ap: "append_delta_batch crc (map fst (dw_batch w)) (dw_arena w) = (r, a)" by fastforce
  note f = flush_fields [OF ap]
  have ok: "list_all request_ok (requests w)" "length (dw_batch w) \<le> DRIVE_APPEND_BATCH_LIMIT"
    using assms(1) by (auto simp: worker_to_def)
  have "list_all delta_ok (map fst (dw_batch w))"
    using ok(1) requests_flush [of w crc] by (metis list_all_append request_ok_batch)
  note batch = log_state_batch [OF _ this _ , of crc cfg _ "dw_arena w" _ a]
  show ?thesis
    unfolding worker_to_def
  proof (intro conjI impI)
    show "list_all request_ok (requests (flush_batch crc w))" using ok(1) requests_flush [of w crc] by simp
    show "length (dw_batch (flush_batch crc w)) \<le> DRIVE_APPEND_BATCH_LIMIT" using f by simp
    assume "list_all (\<lambda>(t, r). r = Inr ()) (dw_replies (flush_batch crc w))"
    then have r: "r = Inr ()" "list_all (\<lambda>(t, r). r = Inr ()) (dw_replies w)"
      using f assms(2) by (auto simp: list_all_iff neq_Nil_conv)
    obtain fs where fs: "log_state crc cfg fs (dw_arena w)" "fold request_effect (requests w) (log_index fs) = m"
      using assms(1) r(2) by (auto simp: worker_to_def)
    have "log_state crc cfg (fs @ [DeltaFrame (map fst (dw_batch w))]) (dw_arena (flush_batch crc w))"
      using batch [OF fs(1)] ok(2) ap r(1) f by simp
    moreover have "fold request_effect (requests (flush_batch crc w)) (log_index (fs @ [DeltaFrame (map fst (dw_batch w))])) = m"
      using fs(2) requests_flush [of w crc] by (simp add: log_index_def replay_log_delta fold_request_batch)
    ultimately show "\<exists>fs. log_state crc cfg fs (dw_arena (flush_batch crc w))
        \<and> fold request_effect (requests (flush_batch crc w)) (log_index fs) = m" by blast
  qed
qed

lemma worker_to_start:
  assumes "worker_to crc cfg m w" "dw_batch w = []" "next_request w = (Some (Some r), w1)" "r \<noteq> ReqStop"
  shows "worker_to crc cfg m (start_request crc r w1)"
proof -
  note n = requests_next [OF assms(3,2)]
  have ok: "request_ok r" "list_all request_ok (requests w1)" using assms(1) n(1) by (simp_all add: worker_to_def)
  have to1: "\<exists>fs. log_state crc cfg fs (dw_arena w1) \<and> fold request_effect (requests w1) (request_effect r (log_index fs)) = m"
    if "list_all (\<lambda>(t, r). r = Inr ()) (dw_replies w1)" using assms(1) n that by (auto simp: worker_to_def)
  show ?thesis
  proof (cases r)
    case (ReqAppend delta t)
    then show ?thesis
      using to1 ok n requests_start [OF n(2), of crc r]
      by (auto simp: worker_to_def start_request_def DRIVE_APPEND_BATCH_LIMIT_def)
  next
    case (ReqCheckpoint es t)
    obtain q a where wc: "write_checkpoint crc es (dw_arena w1) = (q, a)" by fastforce
    have "requests (start_request crc r w1) = requests w1" using requests_start [OF n(2), of crc r] ReqCheckpoint by simp
    moreover have "log_index (fs @ [CheckpointFrame es]) = map_of es" for fs
      using ok(1) ReqCheckpoint by (simp add: log_index_def replay_log_checkpoint)
    moreover have "dw_arena (start_request crc r w1) = a" "dw_batch (start_request crc r w1) = []"
      "dw_replies (start_request crc r w1) = dw_replies w1 @ [(t, q)]"
      using wc n(2) ReqCheckpoint by (simp_all add: start_request_def)
    moreover have "log_state crc cfg (fs @ [CheckpointFrame es]) a" if "log_state crc cfg fs (dw_arena w1)" "q = Inr ()" for fs
      using log_state_checkpoint [OF that(1), of es "()" a] wc that(2) ok(1) ReqCheckpoint by simp
    ultimately show ?thesis
      using to1 ok(2) ReqCheckpoint unfolding worker_to_def by (metis (mono_tags, lifting) case_prod_conv list.pred_inject(2) list.size(3) list_all_append request_effect.simps(2) zero_le)
  qed (use assms(4) in simp)
qed

lemma worker_to_step:
  assumes "drive_step crc w = Some w'" "serving w" "worker_to crc cfg m w"
  shows "worker_to crc cfg m w'"
  using assms(1)
proof (cases rule: drive_step_cases)
  case flush
  then show ?thesis using worker_to_flush [OF assms(3)] by simp
next
  case gather
  moreover have "length (dw_batch (gather w)) \<le> DRIVE_APPEND_BATCH_LIMIT"
    using gather(3) assms(3)
    by (auto simp: gather_def batch_complete_def worker_to_def try_recv_def split: list.split DriveRequest.split)
  ultimately show ?thesis using assms(3) requests_gather [of w] by (simp add: worker_to_def)
next
  case (closed w1)
  then show ?thesis using assms(2) next_request_closed [of w w1] by (simp add: serving_def)
next
  case (start r w1)
  then show ?thesis
    using worker_to_start [OF assms(3) start(2,3)] requests_next(1) [OF start(3,2)] assms(2) by (auto simp: serving_def)
qed

section \<open>The drives of an engine\<close>

definition drive_ok :: "(u8 list \<Rightarrow> u32) \<Rightarrow> DriveConfig \<Rightarrow> log_frame list \<Rightarrow> DriveWorker \<Rightarrow> bool" where
  "drive_ok crc cfg fs w \<longleftrightarrow> idle w \<and> log_state crc cfg fs (dw_arena w)"

definition drives_hold :: "(u8 list \<Rightarrow> u32) \<Rightarrow> DriveConfig list \<Rightarrow> (u16 \<Rightarrow> log_frame list) \<Rightarrow> drive_set \<Rightarrow> bool" where
  "drives_hold crc cfgs logs ws \<longleftrightarrow>
     distinct (map dc_id cfgs) \<and> dom (map_of ws) = dc_id ` set cfgs
     \<and> (\<forall>cfg\<in>set cfgs. \<forall>w. map_of ws (dc_id cfg) = Some w \<longrightarrow> drive_ok crc cfg (logs (dc_id cfg)) w)"

lemma drives_hold_worker:
  assumes "drives_hold crc cfgs logs ws" "map_of ws d = Some w"
  obtains cfg where "cfg \<in> set cfgs" "dc_id cfg = d" "drive_ok crc cfg (logs d) w"
proof -
  have "d \<in> dc_id ` set cfgs" using assms by (auto simp: drives_hold_def)
  then obtain cfg where "cfg \<in> set cfgs" "dc_id cfg = d" by auto
  with assms that show thesis by (auto simp: drives_hold_def)
qed

lemma drives_hold_update:
  assumes "drives_hold crc cfgs logs ws" "cfg \<in> set cfgs" "drive_ok crc cfg fs w"
  shows "drives_hold crc cfgs (logs(dc_id cfg := fs)) (AList.update (dc_id cfg) w ws)"
proof -
  have d: "distinct (map dc_id cfgs)" "dom (map_of ws) = dc_id ` set cfgs"
    using assms(1) by (auto simp: drives_hold_def)
  have u: "map_of (AList.update (dc_id cfg) w ws) = (map_of ws)(dc_id cfg \<mapsto> w)" by (rule AList.update_conv')
  have eq: "cfg' = cfg" if "cfg' \<in> set cfgs" "dc_id cfg' = dc_id cfg" for cfg'
    using d(1) that assms(2) by (auto simp: distinct_map inj_on_def)
  have "drive_ok crc cfg' ((logs(dc_id cfg := fs)) (dc_id cfg')) w'"
    if "cfg' \<in> set cfgs" "((map_of ws)(dc_id cfg \<mapsto> w)) (dc_id cfg') = Some w'" for cfg' w'
  proof (cases "dc_id cfg' = dc_id cfg")
    case True
    then show ?thesis using that assms(3) eq [OF that(1)] by simp
  next
    case False
    then show ?thesis using that assms(1) by (simp add: drives_hold_def)
  qed
  moreover have "dom ((map_of ws)(dc_id cfg \<mapsto> w)) = dc_id ` set cfgs" using d(2) assms(2) by auto
  ultimately show ?thesis using d(1) u unfolding drives_hold_def by simp
qed

lemma idle_arena: "idle w \<Longrightarrow> idle (w\<lparr>dw_arena := a\<rparr>)"
  by (simp add: idle_def)

lemma drives_append_ok:
  assumes h: "drives_hold crc cfgs logs ws" and ok: "delta_ok delta"
    and run: "drives_append_delta crc d delta ws = (Returned (Inr u), ws')"
  shows "d \<in> dc_id ` set cfgs" "drives_hold crc cfgs (logs(d := logs d @ [DeltaFrame [delta]])) ws'"
proof -
  obtain w where w: "map_of ws d = Some w"
    using run by (auto simp: drives_append_delta_def drive_call_def split: option.splits)
  obtain cfg where cfg: "cfg \<in> set cfgs" "dc_id cfg = d" "drive_ok crc cfg (logs d) w" using drives_hold_worker [OF h w] .
  obtain r a where ap: "append_delta_batch crc [delta] (dw_arena w) = (r, a)" by fastforce
  have i: "idle w" "log_state crc cfg (logs d) (dw_arena w)" using cfg by (simp_all add: drive_ok_def)
  have "reply_result r = Inr u" and ws': "ws' = AList.update d (w\<lparr>dw_arena := a\<rparr>) ws"
    using run worker_call_append [OF i(1) ap] w by (simp_all add: drives_append_delta_def drive_call_def)
  then have "r = Inr ()" by (auto simp: reply_result_def split: sum.splits)
  then have "log_state crc cfg (logs d @ [DeltaFrame [delta]]) a"
    using log_state_batch [OF i(2), of "[delta]" "()" a] ap ok by (simp add: DRIVE_APPEND_BATCH_LIMIT_def)
  then have "drive_ok crc cfg (logs d @ [DeltaFrame [delta]]) (w\<lparr>dw_arena := a\<rparr>)"
    using i(1) by (simp add: drive_ok_def idle_arena)
  then show "drives_hold crc cfgs (logs(d := logs d @ [DeltaFrame [delta]])) ws'"
    using drives_hold_update [OF h cfg(1)] cfg(2) ws' by simp
  show "d \<in> dc_id ` set cfgs" using cfg by auto
qed

lemma drives_checkpoint_ok:
  assumes h: "drives_hold crc cfgs logs ws" and ok: "log_frame_ok (CheckpointFrame es)"
    and run: "drives_write_checkpoint crc d es ws = (Returned (Inr u), ws')"
  shows "drives_hold crc cfgs (logs(d := logs d @ [CheckpointFrame es])) ws'"
proof -
  obtain w where w: "map_of ws d = Some w"
    using run by (auto simp: drives_write_checkpoint_def drive_call_def split: option.splits)
  obtain cfg where cfg: "cfg \<in> set cfgs" "dc_id cfg = d" "drive_ok crc cfg (logs d) w" using drives_hold_worker [OF h w] .
  obtain r a where wc: "write_checkpoint crc es (dw_arena w) = (r, a)" by fastforce
  have i: "idle w" "log_state crc cfg (logs d) (dw_arena w)" using cfg by (simp_all add: drive_ok_def)
  have "reply_result r = Inr u" and ws': "ws' = AList.update d (w\<lparr>dw_arena := a\<rparr>) ws"
    using run worker_call_checkpoint [OF i(1) wc] w by (simp_all add: drives_write_checkpoint_def drive_call_def)
  then have "r = Inr ()" by (auto simp: reply_result_def split: sum.splits)
  then have "drive_ok crc cfg (logs d @ [CheckpointFrame es]) (w\<lparr>dw_arena := a\<rparr>)"
    using log_state_checkpoint [OF i(2) ok, of "()" a] wc i(1) by (simp add: drive_ok_def idle_arena)
  then show ?thesis using drives_hold_update [OF h cfg(1)] cfg(2) ws' by simp
qed

text \<open>A call on healthy drives returns.\<close>

lemma drives_append_returns:
  assumes "drives_hold crc cfgs logs ws"
  shows "fst (drives_append_delta crc d delta ws) \<noteq> Blocked"
proof (cases "map_of ws d")
  case None
  then show ?thesis by (simp add: drives_append_delta_def drive_call_def)
next
  case (Some w)
  obtain cfg where "drive_ok crc cfg (logs d) w" using drives_hold_worker [OF assms Some] .
  moreover obtain r a where ap: "append_delta_batch crc [delta] (dw_arena w) = (r, a)" by fastforce
  ultimately show ?thesis
    using worker_call_append [OF _ ap] Some by (simp add: drives_append_delta_def drive_call_def drive_ok_def)
qed

end
