(* ===== verification/Kix_Reopen.thy ===== *)
theory Kix_Reopen
  imports Kix_Engine_Spec
begin

text \<open>
  The engine as one map, and that map across power loss and reopening. \<open>engine_index\<close> is what \<open>get\<close>
  serves; \<open>merged_index\<close> is what \<open>open\<close> builds from the logs of the drives; \<open>engine_holds\<close> is the
  invariant under which the two agree.
\<close>

section \<open>Opening drives that hold their logs\<close>

lemma recovered_fields [simp]: "dr_entries (recovered cfg fs) = replay_log fs" "\<not> dr_rebuild_required (recovered cfg fs)"
  by (simp_all add: recovered_def)

lemma preflight_quiet:
  assumes "quiet d" "holds_log crc cfg fs d"
  shows "preflight_drive_requirements True cfg d = (Inr (), d)"
proof -
  have "arena_place cfg d" "validate_io_layout cfg = Inr ()"
    using assms(2) by (auto simp: holds_log_def log_body_def arena_place_def)
  then show ?thesis
    using assms(1) resolve_quiet [of d cfg]
    by (simp add: preflight_drive_requirements_def open_direct_file_def st_bind_def syscall_quiet storage_capacity_bytes_def make_uring_def)
qed

lemma power_cycle_durable: "dev_durable d = dev_bytes d \<Longrightarrow> power_cycle d = restart d"
  by (simp add: power_cycle_def restart_def)

lemma log_state_restart:
  assumes "log_state crc cfg fs a"
  shows "quiet (power_cycle (da_file a))" "holds_log crc cfg fs (power_cycle (da_file a))"
    "dev_durable (power_cycle (da_file a)) = dev_bytes (power_cycle (da_file a))"
    "dc_arena_len_bytes cfg \<noteq> None \<or> dev_block (power_cycle (da_file a))"
  using assms
  by (auto simp: log_state_def fixed_span_holds_def arena_holds_def power_cycle_durable restart_def)

definition reopened_arena :: "DriveConfig \<Rightarrow> log_frame list \<Rightarrow> device \<Rightarrow> DriveArena" where
  "reopened_arena cfg fs d = arena_on cfg (span_of cfg d) (of_nat (head_of fs)) (dev_block d) d"

lemma reopened_log_state:
  assumes "holds_log crc cfg fs d" "dev_durable d = dev_bytes d" "dc_arena_len_bytes cfg \<noteq> None \<or> dev_block d"
  shows "log_state crc cfg fs (reopened_arena cfg fs d)"
  using assms by (auto simp: log_state_def fixed_span_holds_def arena_holds_def arena_shape_def arena_on_def reopened_arena_def)

lemma open_drive_holds:
  assumes "quiet d" "holds_log crc cfg fs d"
  shows "open_drive crc (Inr ()) depth cfg d = Inr (new_worker (reopened_arena cfg fs d) depth True, recovered cfg fs)"
  using assms recover_holds [OF assms] open_holds [OF assms]
  by (simp add: open_drive_def st_bind_def syscall_quiet open_drive_writer_def open_plan_def reopened_arena_def)
     (simp add: recovered_def reopened_arena_def)

lemma idle_new_worker: "idle (new_worker a depth True)"
  by (simp add: idle_def new_worker_def with_capacity_def)

definition cycled_device :: "drive_set \<Rightarrow> DriveConfig \<Rightarrow> device" where
  "cycled_device ws cfg = power_cycle (da_file (dw_arena (the (map_of ws (dc_id cfg)))))"

lemma cycled_device_holds:
  assumes "drives_hold crc cfgs logs ws" "cfg \<in> set cfgs"
  shows "quiet (cycled_device ws cfg)" "holds_log crc cfg (logs (dc_id cfg)) (cycled_device ws cfg)"
    "dev_durable (cycled_device ws cfg) = dev_bytes (cycled_device ws cfg)"
    "dc_arena_len_bytes cfg \<noteq> None \<or> dev_block (cycled_device ws cfg)"
proof -
  obtain w where "map_of ws (dc_id cfg) = Some w" using assms by (force simp: drives_hold_def)
  moreover from this have "log_state crc cfg (logs (dc_id cfg)) (dw_arena w)" using assms by (simp add: drives_hold_def drive_ok_def)
  ultimately show "quiet (cycled_device ws cfg)" "holds_log crc cfg (logs (dc_id cfg)) (cycled_device ws cfg)"
    "dev_durable (cycled_device ws cfg) = dev_bytes (cycled_device ws cfg)"
    "dc_arena_len_bytes cfg \<noteq> None \<or> dev_block (cycled_device ws cfg)"
    using log_state_restart by (simp_all add: cycled_device_def)
qed

lemma preflight_all_cycled:
  assumes "drives_hold crc cfgs logs ws" "set cs \<subseteq> set cfgs"
  shows "preflight_all (zip cs (map (\<lambda>cfg. (True, cycled_device ws cfg)) cs)) = Inr (map (\<lambda>cfg. (cfg, cycled_device ws cfg)) cs)"
  using assms(2)
proof (induction cs)
  case (Cons cfg cs)
  then have "preflight_drive_requirements True cfg (cycled_device ws cfg) = (Inr (), cycled_device ws cfg)"
    using preflight_quiet cycled_device_holds(1,2) [OF assms(1), of cfg] by auto
  with Cons show ?case by simp
qed simp

definition reopened_worker :: "drive_set \<Rightarrow> (u16 \<Rightarrow> log_frame list) \<Rightarrow> nat \<Rightarrow> DriveConfig \<Rightarrow> DriveWorker" where
  "reopened_worker ws logs depth cfg = new_worker (reopened_arena cfg (logs (dc_id cfg)) (cycled_device ws cfg)) depth True"

lemma open_drives_cycled:
  assumes "drives_hold crc cfgs logs ws" "set cs \<subseteq> set cfgs" "\<forall>i. startup i = Inr ()"
  shows "open_drives crc startup depth i (map (\<lambda>cfg. (cfg, cycled_device ws cfg)) cs) qs
    = Inr (fold (\<lambda>cfg. AList.update (dc_id cfg) (reopened_worker ws logs depth cfg)) cs qs,
           map (\<lambda>cfg. recovered cfg (logs (dc_id cfg))) cs)"
  using assms(2)
proof (induction cs arbitrary: i qs)
  case (Cons cfg cs)
  then have "open_drive crc (startup i) depth cfg (cycled_device ws cfg)
      = Inr (reopened_worker ws logs depth cfg, recovered cfg (logs (dc_id cfg)))"
    using open_drive_holds cycled_device_holds(1,2) [OF assms(1), of cfg] assms(3) by (auto simp: reopened_worker_def)
  with Cons show ?case by simp
qed simp

lemma map_of_fold_update:
  "map_of (fold (\<lambda>x. AList.update (k x) (v x)) xs qs) d = (case map_of (map (\<lambda>x. (k x, v x)) (rev xs)) d of Some w \<Rightarrow> Some w | None \<Rightarrow> map_of qs d)"
  by (induction xs arbitrary: qs) (auto simp: AList.update_conv' split: option.split)

lemma drives_hold_reopened:
  assumes "drives_hold crc cfgs logs ws"
  shows "drives_hold crc cfgs logs (fold (\<lambda>cfg. AList.update (dc_id cfg) (reopened_worker ws logs depth cfg)) cfgs [])"
proof -
  let ?qs = "fold (\<lambda>cfg. AList.update (dc_id cfg) (reopened_worker ws logs depth cfg)) cfgs []"
  have d: "distinct (map dc_id cfgs)" using assms by (simp add: drives_hold_def)
  have m: "map_of ?qs x = map_of (map (\<lambda>cfg. (dc_id cfg, reopened_worker ws logs depth cfg)) (rev cfgs)) x" for x
    using map_of_fold_update [of dc_id "reopened_worker ws logs depth" cfgs "[]" x] by (simp split: option.split)
  have "map_of ?qs (dc_id cfg) = Some (reopened_worker ws logs depth cfg)" if "cfg \<in> set cfgs" for cfg
    unfolding m using that d by (intro map_of_is_SomeI) (auto simp: comp_def rev_map simp flip: rev_map)
  moreover have "dom (map_of ?qs) = dc_id ` set cfgs" unfolding m by (simp add: dom_map_of_conv_image_fst image_image)
  moreover have "drive_ok crc cfg (logs (dc_id cfg)) (reopened_worker ws logs depth cfg)" if "cfg \<in> set cfgs" for cfg
    using reopened_log_state cycled_device_holds(2-4) [OF assms that]
    by (simp add: drive_ok_def reopened_worker_def idle_new_worker) (simp add: new_worker_def)
  ultimately show ?thesis using d by (simp add: drives_hold_def)
qed

section \<open>The index that \<open>open\<close> builds\<close>

fun merged_index :: "(u16 \<Rightarrow> log_frame list) \<Rightarrow> DriveConfig list \<Rightarrow> index_map" where
  "merged_index logs [] = Map.empty"
| "merged_index logs (cfg # cfgs) = log_index (logs (dc_id cfg)) ++ merged_index logs cfgs"

definition engine_index :: "KixEngine \<Rightarrow> index_map" where
  "engine_index e c = map_of (ke_shards e ! shard_for c (length (ke_shards e))) c"

lemma length_fold_shards: "length (fold (\<lambda>(c, r) shards. let i = f c in shards[i := shards ! i @ [(c, r)]]) es shards) = length shards"
  by (induction es arbitrary: shards) (auto simp: Let_def)

lemma nth_fold_shards:
  assumes "i < length shards" "\<forall>c. f c < length shards"
  shows "fold (\<lambda>(c, r) shards. let i = f c in shards[i := shards ! i @ [(c, r)]]) es shards ! i
    = shards ! i @ filter (\<lambda>(c, r). f c = i) es"
  using assms by (induction es arbitrary: shards) (auto simp: Let_def nth_list_update)

lemma initial_shards_nth:
  assumes "i < n"
  shows "length (initial_shards n recs) = n"
    "initial_shards n recs ! i = filter (\<lambda>(c, r). shard_for c n = i) (concat (map dr_entries recs))"
  using assms nth_fold_shards [of i "replicate n []" "\<lambda>c. shard_for c n"] shard_for_less [of n]
  by (auto simp: initial_shards_def length_fold_shards)

lemma map_of_ShardState_new: "map_of (ShardState_new es) = map_of (rev es)"
proof -
  have "map_of (fold (\<lambda>(c, r) live. AList.update c r live) es m) = map_of (rev es @ m)" for m
    by (induction es arbitrary: m) (auto simp: AList.update_conv')
  from this [of "[]"] show ?thesis by (simp add: ShardState_new_def)
qed

lemma ShardState_new_keys:
  "distinct (map fst (ShardState_new es))" "fst ` set (ShardState_new es) = fst ` set es"
proof -
  have "distinct (map fst m) \<Longrightarrow> distinct (map fst (fold (\<lambda>(c, r) live. AList.update c r live) es m))" for m
    by (induction es arbitrary: m) (auto simp: AList.distinct_update)
  from this [of "[]"] show "distinct (map fst (ShardState_new es))" by (simp add: ShardState_new_def)
  have "dom (map_of (ShardState_new es)) = dom (map_of (rev es))" by (simp only: map_of_ShardState_new)
  then show "fst ` set (ShardState_new es) = fst ` set es" by (simp add: dom_map_of_conv_image_fst)
qed

lemma merged_index_concat:
  "map_of (rev (concat (map (\<lambda>cfg. replay_log (logs (dc_id cfg))) cfgs))) = merged_index logs cfgs"
proof (induction cfgs)
  case (Cons cfg cfgs)
  have "map_of (rev (replay_log fs)) = map_of (replay_log fs)" for fs
    using distinct_replay_log [of fs] by (intro map_of_inject_set [THEN iffD2]) (auto simp flip: rev_map)
  with Cons show ?case by (simp add: log_index_def)
qed simp

text \<open>\<open>open\<close> on the devices after power loss: it succeeds, and serves the merge of the logs.\<close>

lemma start_shard_workers_ok: "\<forall>r. startup r = Inr () \<Longrightarrow> start_shard_workers startup ns = Inr ()"
  by (induction ns) auto

lemma kix_open_cycled:
  assumes h: "drives_hold crc (kc_drive_configs config) logs ws"
    and v: "validate core_ids config = Inr ()" and st: "\<forall>r. startup r = Inr ()"
  obtains e where
    "kix_open crc core_ids startup config (map (\<lambda>cfg. (True, cycled_device ws cfg)) (kc_drive_configs config)) = Inr e"
    "drives_hold crc (kc_drive_configs config) logs (ke_drives e)"
    "engine_index e = merged_index logs (kc_drive_configs config)" "length (ke_shards e) = kc_shard_count config"
    "ke_shards e = map ShardState_new (initial_shards (kc_shard_count config) (map (\<lambda>cfg. recovered cfg (logs (dc_id cfg))) (kc_drive_configs config)))"
    "ke_rebuild_required e = []" "ke_inverse e = map (\<lambda>cfg. (dc_id cfg, [])) (kc_drive_configs config)"
proof -
  let ?n = "kc_shard_count config" and ?cs = "kc_drive_configs config" and ?depth = "kc_drive_queue_depth config"
  let ?recs = "map (\<lambda>cfg. recovered cfg (logs (dc_id cfg))) ?cs"
  let ?qs = "fold (\<lambda>cfg. AList.update (dc_id cfg) (reopened_worker ws logs ?depth cfg)) ?cs []"
  have n: "0 < ?n" using v by (auto simp: validate_def guard_r_def split: if_splits)
  define e where "e = \<lparr>ke_shards = map ShardState_new (initial_shards ?n ?recs), ke_drives = ?qs,
      ke_inverse = map (\<lambda>cfg. (dc_id cfg, [])) ?cs, ke_rebuild_required = []\<rparr>"
  have f: "filter dr_rebuild_required ?recs = []" by (simp add: filter_empty_conv)
  have op: "kix_open crc core_ids startup config (map (\<lambda>cfg. (True, cycled_device ws cfg)) ?cs) = Inr e"
    using preflight_all_cycled [OF h, of ?cs] open_drives_cycled [OF h, of ?cs "\<lambda>i. startup (DriveAppender i)" ?depth 0 "[]"] v st f
    by (simp add: kix_open_def start_shard_workers_ok e_def)
  have len: "length (initial_shards ?n ?recs) = ?n" using initial_shards_nth(1) [OF n] .
  have "engine_index e c = merged_index logs ?cs c" for c
  proof -
    have i: "shard_for c ?n < ?n" by (rule shard_for_less [OF n])
    have "map_of (rev (filter (\<lambda>(c', r). shard_for c' ?n = shard_for c ?n) es)) c = map_of (rev es) c" for es :: entries
      by (induction es) (auto simp: map_add_def split: option.split)
    then show ?thesis
      using i by (simp add: engine_index_def e_def len initial_shards_nth(2) map_of_ShardState_new comp_def
          flip: merged_index_concat)
  qed
  then show thesis
    using that [OF op] drives_hold_reopened [OF h, of ?depth] len by (simp add: e_def fun_eq_iff)
qed

section \<open>The invariant of an engine\<close>

definition on_drive :: "u16 \<Rightarrow> index_map \<Rightarrow> index_map" where
  "on_drive d m = (\<lambda>c. case m c of Some r \<Rightarrow> if drive_id r = d then Some r else None | None \<Rightarrow> None)"

definition shard_ok :: "nat \<Rightarrow> nat \<Rightarrow> entries \<Rightarrow> bool" where
  "shard_ok n s live \<longleftrightarrow> distinct (map fst live) \<and> (\<forall>c. c \<in> fst ` set live \<longrightarrow> shard_for c n = s \<and> chunk_id_ok c)"

definition shards_ok :: "KixEngine \<Rightarrow> bool" where
  "shards_ok e \<longleftrightarrow> ke_shards e \<noteq> []
     \<and> (\<forall>s < length (ke_shards e). shard_ok (length (ke_shards e)) s (ke_shards e ! s))"

lemma shard_okD:
  "shard_ok n s live \<Longrightarrow> distinct (map fst live)" "shard_ok n s live \<Longrightarrow> c \<in> fst ` set live \<Longrightarrow> shard_for c n = s \<and> chunk_id_ok c"
  by (simp_all only: shard_ok_def simp_thms)

lemma shards_okD: "shards_ok e \<Longrightarrow> s < length (ke_shards e) \<Longrightarrow> shard_ok (length (ke_shards e)) s (ke_shards e ! s)"
  by (simp add: shards_ok_def)

lemma shard_ok_apply:
  assumes "shard_ok n (shard_for (de_chunk_id d) n) live" "chunk_id_ok (de_chunk_id d)"
  shows "shard_ok n (shard_for (de_chunk_id d) n) (shard_apply d live)"
proof -
  have "distinct (map fst (shard_apply d live))" using shard_okD(1) [OF assms(1)] by (rule shard.inv_step)
  moreover have "shard_for c n = shard_for (de_chunk_id d) n \<and> chunk_id_ok c" if "c \<in> fst ` set (shard_apply d live)" for c
  proof -
    from that have "c \<in> insert (de_chunk_id d) (fst ` set live)" by (rule subsetD [OF keys_shard_apply])
    then show ?thesis using assms by (elim insertE) (simp_all only: shard_ok_def simp_thms)
  qed
  ultimately show ?thesis unfolding shard_ok_def by (metis (no_types, lifting))
qed

definition engine_holds :: "(u8 list \<Rightarrow> u32) \<Rightarrow> DriveConfig list \<Rightarrow> (u16 \<Rightarrow> log_frame list) \<Rightarrow> KixEngine \<Rightarrow> bool" where
  "engine_holds crc cfgs logs e \<longleftrightarrow>
     shards_ok e \<and> drives_hold crc cfgs logs (ke_drives e)
     \<and> (\<forall>cfg\<in>set cfgs. log_index (logs (dc_id cfg)) = on_drive (dc_id cfg) (engine_index e))
     \<and> (\<forall>c r. engine_index e c = Some r \<longrightarrow> drive_id r \<in> dc_id ` set cfgs)"

lemma merged_index_partition:
  assumes "\<forall>cfg\<in>set cfgs. log_index (logs (dc_id cfg)) = on_drive (dc_id cfg) m"
  shows "merged_index logs cfgs c =
    (case m c of Some r \<Rightarrow> if drive_id r \<in> dc_id ` set cfgs then Some r else None | None \<Rightarrow> None)"
  using assms
proof (induction cfgs)
  case (Cons cfg cfgs)
  then have "log_index (logs (dc_id cfg)) c = on_drive (dc_id cfg) m c" by simp
  with Cons show ?case by (auto simp: map_add_def on_drive_def split: option.split)
qed (simp split: option.split)

lemma merged_index_engine:
  assumes "engine_holds crc cfgs logs e"
  shows "merged_index logs cfgs = engine_index e"
proof
  fix c
  show "merged_index logs cfgs c = engine_index e c"
    using merged_index_partition [of cfgs logs "engine_index e" c] assms
    by (auto simp: engine_holds_def split: option.split)
qed

lemma kix_get_index: "shards_ok e \<Longrightarrow> kix_get c e = Inr (engine_index e c)"
  by (auto simp: shards_ok_def kix_get_def shard_index_for_def engine_index_def shard_get_def Let_def shard_for_less)

section \<open>Changes\<close>

lemma spec_delta_cong:
  "m (de_chunk_id d) = m' (de_chunk_id d) \<Longrightarrow> m c = m' c \<Longrightarrow> spec_delta d m c = spec_delta d m' c"
  by (auto simp: spec_delta.simps spec_upsert.simps split: DeltaOp.split option.split)

lemma spec_delta_other: "c \<noteq> de_chunk_id d \<Longrightarrow> spec_delta d m c = m c"
  by (auto simp: spec_delta.simps spec_upsert.simps split: DeltaOp.split option.split)

text \<open>What a successful change does to the shards.\<close>

definition apply_to_shards :: "DeltaEntry \<Rightarrow> KixEngine \<Rightarrow> entries list" where
  "apply_to_shards d e =
     (let s = shard_for (de_chunk_id d) (length (ke_shards e)) in (ke_shards e)[s := shard_apply d (ke_shards e ! s)])"

lemma apply_to_shards_index:
  assumes "shards_ok e" "ke_shards e' = apply_to_shards d e"
  shows "engine_index e' = spec_delta d (engine_index e)"
proof
  fix c
  let ?n = "length (ke_shards e)" and ?s = "shard_for (de_chunk_id d) (length (ke_shards e))"
  have n: "?s < ?n" "shard_for c ?n < ?n" "length (ke_shards e') = ?n"
    using assms by (auto simp: shards_ok_def shard_for_less apply_to_shards_def Let_def)
  show "engine_index e' c = spec_delta d (engine_index e) c"
  proof (cases "shard_for c ?n = ?s")
    case True
    have "distinct (map fst (ke_shards e ! ?s))" using shard_okD(1) [OF shards_okD [OF assms(1) n(1)]] .
    then have "engine_index e' c = spec_delta d (map_of (ke_shards e ! ?s)) c"
      using n assms(2) True by (simp add: engine_index_def apply_to_shards_def Let_def shard.lookup_step)
    also have "\<dots> = spec_delta d (engine_index e) c"
      using True by (intro spec_delta_cong) (simp_all add: engine_index_def)
    finally show ?thesis .
  next
    case False
    then have "c \<noteq> de_chunk_id d" by auto
    with False show ?thesis
      using n assms(2) by (simp add: engine_index_def apply_to_shards_def Let_def spec_delta_other)
  qed
qed

lemma apply_to_shards_ok:
  assumes "shards_ok e" "ke_shards e' = apply_to_shards d e" "chunk_id_ok (de_chunk_id d)"
  shows "shards_ok e'"
proof -
  let ?n = "length (ke_shards e)" and ?s = "shard_for (de_chunk_id d) (length (ke_shards e))"
  have n: "?s < ?n" "length (ke_shards e') = ?n" "ke_shards e' \<noteq> []"
    using assms(1,2) by (auto simp: shards_ok_def shard_for_less apply_to_shards_def Let_def)
  have "shard_ok ?n s (ke_shards e' ! s)" if "s < ?n" for s
  proof (cases "s = ?s")
    case True
    then show ?thesis using assms n(1) by (simp add: apply_to_shards_def Let_def shards_ok_def shard_ok_apply)
  next
    case False
    then show ?thesis using assms(1,2) that by (simp add: apply_to_shards_def Let_def shards_ok_def)
  qed
  then show ?thesis using n(2,3) by (simp add: shards_ok_def)
qed

text \<open>A change stays on one drive: its record is for the drive, and so is the record it replaces.\<close>

definition stays_on :: "u16 \<Rightarrow> DeltaEntry \<Rightarrow> index_map \<Rightarrow> bool" where
  "stays_on x d m \<longleftrightarrow>
     (\<forall>r. m (de_chunk_id d) = Some r \<longrightarrow> drive_id r = x) \<and> (\<forall>r. de_op d = Upsert \<longrightarrow> de_record d = Some r \<longrightarrow> drive_id r = x)"

lemma on_drive_delta:
  assumes "stays_on x d m"
  shows "on_drive y (spec_delta d m) = (if y = x then spec_delta d (on_drive y m) else on_drive y m)"
proof
  fix c
  show "on_drive y (spec_delta d m) c = (if y = x then spec_delta d (on_drive y m) else on_drive y m) c"
  proof (cases "c = de_chunk_id d")
    case True
    then show ?thesis
      using assms by (auto simp: stays_on_def on_drive_def spec_delta.simps spec_upsert.simps split: DeltaOp.split option.splits)
  next
    case False
    then show ?thesis by (auto simp: on_drive_def spec_delta_other)
  qed
qed

lemma engine_holds_delta:
  assumes h: "engine_holds crc cfgs logs e" and c: "chunk_id_ok (de_chunk_id d)"
    and x: "x \<in> dc_id ` set cfgs" "stays_on x d (engine_index e)"
    and e': "drives_hold crc cfgs (logs(x := logs x @ [DeltaFrame [d]])) (ke_drives e')" "ke_shards e' = apply_to_shards d e"
  shows "engine_holds crc cfgs (logs(x := logs x @ [DeltaFrame [d]])) e'" "engine_index e' = spec_delta d (engine_index e)"
proof -
  have sh: "shards_ok e" using h by (simp add: engine_holds_def)
  show i: "engine_index e' = spec_delta d (engine_index e)" by (rule apply_to_shards_index [OF sh e'(2)])
  have l: "log_index (logs x @ [DeltaFrame [d]]) = spec_delta d (log_index (logs x))"
    by (simp add: log_index_def replay_log_delta)
  have "log_index ((logs(x := logs x @ [DeltaFrame [d]])) (dc_id cfg)) = on_drive (dc_id cfg) (engine_index e')"
    if "cfg \<in> set cfgs" for cfg
    using h that by (auto simp: engine_holds_def i l on_drive_delta [OF x(2)])
  moreover have "drive_id r \<in> dc_id ` set cfgs" if "engine_index e' b = Some r" for b r
  proof (cases "b = de_chunk_id d")
    case True
    then show ?thesis
      using that h x unfolding i
      by (auto simp: engine_holds_def stays_on_def spec_delta.simps spec_upsert.simps split: DeltaOp.splits option.splits if_splits)
  next
    case False
    then show ?thesis using that h by (auto simp: i spec_delta_other engine_holds_def)
  qed
  ultimately show "engine_holds crc cfgs (logs(x := logs x @ [DeltaFrame [d]])) e'"
    using apply_to_shards_ok [OF sh e'(2) c] e'(1) by (simp add: engine_holds_def)
qed

lemma update_inverse_fields [simp]:
  "ke_shards (update_inverse d slot c g e) = ke_shards e" "ke_drives (update_inverse d slot c g e) = ke_drives e"
  by (auto simp: update_inverse_def split: option.split)

lemma shard_index_ok: "shards_ok e \<Longrightarrow> shard_index_for c e = Inr (shard_for c (length (ke_shards e)))"
  by (auto simp: shards_ok_def shard_index_for_def Let_def shard_for_less)

lemma kix_upsert_cases:
  assumes sh: "shards_ok e" and h: "drives_hold crc cfgs logs (ke_drives e)" and run: "kix_upsert crc c slot r e = (res, e')"
  obtains (acked) ws where "drives_append_delta crc (drive_id r) (delta_upsert c r) (ke_drives e) = (Returned (Inr ()), ws)"
      "res = Returned (Inr ())" "ke_drives e' = ws" "ke_shards e' = apply_to_shards (delta_upsert c r) e"
  | (failed) err ws where "drives_append_delta crc (drive_id r) (delta_upsert c r) (ke_drives e) = (Returned (Inl err), ws)"
      "res = Returned (Inl err)" "e' = e\<lparr>ke_drives := ws\<rparr>"
proof -
  obtain q ws where q: "drives_append_delta crc (drive_id r) (delta_upsert c r) (ke_drives e) = (q, ws)" by fastforce
  then have "q \<noteq> Blocked" using drives_append_returns [OF h, of "drive_id r" "delta_upsert c r"] by simp
  then show thesis
    using that q run shard_index_ok [OF sh]
    by (cases q) (auto simp: kix_upsert_def apply_to_shards_def Let_def shard_apply_simps split: sum.splits)
qed

lemma kix_delete_cases:
  assumes sh: "shards_ok e" and h: "drives_hold crc cfgs logs (ke_drives e)" and run: "kix_delete crc c e = (res, e')"
  obtains (absent) "engine_index e c = None" "res = Returned (Inr ())" "e' = e"
  | (acked) r ws where "engine_index e c = Some r" "drives_append_delta crc (drive_id r) (delta_delete c) (ke_drives e) = (Returned (Inr ()), ws)"
      "res = Returned (Inr ())" "ke_drives e' = ws" "ke_shards e' = apply_to_shards (delta_delete c) e"
  | (failed) r :: LocationRecord and err ws where "drives_append_delta crc (drive_id r) (delta_delete c) (ke_drives e) = (Returned (Inl err), ws)"
      "res = Returned (Inl err)" "e' = e\<lparr>ke_drives := ws\<rparr>"
proof (cases "engine_index e c")
  case None
  then show thesis
    using that(1) run shard_index_ok [OF sh, of c] by (auto simp: kix_delete_def drive_id_for_def engine_index_def)
next
  case (Some r)
  obtain q ws where q: "drives_append_delta crc (drive_id r) (delta_delete c) (ke_drives e) = (q, ws)" by fastforce
  then have "q \<noteq> Blocked" using drives_append_returns [OF h, of "drive_id r" "delta_delete c"] by simp
  have "drive_id_for c (ke_shards e ! shard_for c (length (ke_shards e))) = Some (drive_id r)"
    using Some by (simp add: drive_id_for_def engine_index_def)
  then have res: "(res, e') = (case q of
        Returned (Inr _) \<Rightarrow> (Returned (Inr ()), e\<lparr>ke_drives := ws, ke_shards := apply_to_shards (delta_delete c) e\<rparr>)
      | _ \<Rightarrow> (q, e\<lparr>ke_drives := ws\<rparr>))"
    using q run shard_index_ok [OF sh, of c]
    by (simp add: kix_delete_def apply_to_shards_def Let_def shard_apply_simps split: outcome.splits sum.splits)
  show thesis
  proof (cases q)
    case (Returned x)
    show thesis
    proof (cases x)
      case (Inl err)
      with Returned q res show thesis by (intro that(3) [of r err ws]) simp_all
    next
      case (Inr u)
      with Returned q res Some show thesis by (intro that(2) [of r ws]) simp_all
    qed
  qed (use \<open>q \<noteq> Blocked\<close> in simp)
qed

end
