(* ===== verification/Kix_Acked.thy ===== *)
theory Kix_Acked
  imports Kix_Reopen
begin

text \<open>
  Sequences of operations that an engine acknowledged, and the properties of
  \<open>poc/kix/crates/kix/src/engine.rs\<close> as a whole: what is acknowledged is what a reopened engine serves,
  workers answer every request once, batching does not change what is logged, and what happens when a
  chunk moves between drives.
\<close>

section \<open>Checkpoints\<close>

lemma distinct_concat_tagged:
  assumes "\<And>i. i < length xss \<Longrightarrow> distinct (xss ! i)" "\<And>i c. i < length xss \<Longrightarrow> c \<in> set (xss ! i) \<Longrightarrow> tag c = k + i"
  shows "distinct (concat xss) \<and> (\<forall>c \<in> set (concat xss). (k::nat) \<le> tag c)"
  using assms
proof (induction xss arbitrary: k)
  case (Cons xs xss)
  have hd: "distinct xs" "\<forall>c \<in> set xs. tag c = k" using Cons.prems(1) [of 0] Cons.prems(2) [of 0] by auto
  have tl: "distinct (concat xss) \<and> (\<forall>c \<in> set (concat xss). Suc k \<le> tag c)"
  proof (rule Cons.IH)
    show "distinct (xss ! i)" if "i < length xss" for i using Cons.prems(1) [of "Suc i"] that by simp
    show "tag c = Suc k + i" if "i < length xss" "c \<in> set (xss ! i)" for i c using Cons.prems(2) [of "Suc i" c] that by simp
  qed
  have "set xs \<inter> set (concat xss) = {}" using hd(2) tl by fastforce
  moreover have "\<forall>c \<in> set xs \<union> set (concat xss). k \<le> tag c" using hd(2) tl by (metis Suc_leD UnE order_refl)
  ultimately show ?case using hd(1) tl by simp
qed simp

lemma shard_entries:
  assumes "shards_ok e" "s < length (ke_shards e)" "x \<in> set (ke_shards e ! s)"
  shows "shard_for (fst x) (length (ke_shards e)) = s" "entry_ok x"
  using shard_okD(2) [OF shards_okD [OF assms(1,2)] imageI [OF assms(3)]] by simp_all

lemma snapshot_entries_iff:
  assumes "shards_ok e"
  shows "(c, r) \<in> set (snapshot_entries e) \<longleftrightarrow> engine_index e c = Some r"
proof
  assume "engine_index e c = Some r"
  then have "(c, r) \<in> set (ke_shards e ! shard_for c (length (ke_shards e)))" by (auto simp: engine_index_def dest: map_of_SomeD)
  moreover have "shard_for c (length (ke_shards e)) < length (ke_shards e)"
    using assms by (intro shard_for_less) (simp add: shards_ok_def)
  ultimately show "(c, r) \<in> set (snapshot_entries e)" by (auto simp: snapshot_entries_def)
next
  assume "(c, r) \<in> set (snapshot_entries e)"
  then obtain live where "live \<in> set (ke_shards e)" "(c, r) \<in> set live" by (auto simp: snapshot_entries_def)
  then obtain s where s: "s < length (ke_shards e)" "(c, r) \<in> set (ke_shards e ! s)" by (metis in_set_conv_nth)
  then show "engine_index e c = Some r"
    using shard_entries(1) [OF assms s] shard_okD(1) [OF shards_okD [OF assms s(1)]] by (simp add: engine_index_def)
qed

lemma shards_snapshot:
  assumes "shards_ok e"
  shows "distinct (map fst (snapshot_entries e))" "map_of (snapshot_entries e) = engine_index e"
    "list_all entry_ok (snapshot_entries e)"
proof -
  show d: "distinct (map fst (snapshot_entries e))"
  proof -
    have "distinct (concat (map (map fst) (ke_shards e))) \<and> (\<forall>c \<in> set (concat (map (map fst) (ke_shards e))). 0 \<le> shard_for c (length (ke_shards e)))"
    proof (rule distinct_concat_tagged)
      fix i c
      assume i: "i < length (map (map fst) (ke_shards e))"
      then have ok: "shard_ok (length (ke_shards e)) i (ke_shards e ! i)" using shards_okD [OF assms] by simp
      show "distinct (map (map fst) (ke_shards e) ! i)" using shard_okD(1) [OF ok] i by simp
      assume "c \<in> set (map (map fst) (ke_shards e) ! i)"
      then have "c \<in> fst ` set (ke_shards e ! i)" using i by simp
      from shard_okD(2) [OF ok this] show "shard_for c (length (ke_shards e)) = 0 + i" by (simp only: add_0)
    qed
    then show ?thesis by (simp only: snapshot_entries_def map_concat)
  qed
  show "map_of (snapshot_entries e) = engine_index e"
  proof
    fix c
    show "map_of (snapshot_entries e) c = engine_index e c"
      using trans [OF map_of_eq_Some_iff [OF d] snapshot_entries_iff [OF assms]] by (metis option.exhaust)
  qed
  show "list_all entry_ok (snapshot_entries e)"
    unfolding list_all_iff
  proof
    fix x assume "x \<in> set (snapshot_entries e)"
    then obtain live where "live \<in> set (ke_shards e)" "x \<in> set live" by (auto simp: snapshot_entries_def)
    then obtain s where "s < length (ke_shards e)" "x \<in> set (ke_shards e ! s)" by (metis in_set_conv_nth)
    then show "entry_ok x" by (rule shard_entries(2) [OF assms])
  qed
qed

lemma map_of_on_drive:
  "distinct (map fst es) \<Longrightarrow> map_of (filter (\<lambda>(c, r). drive_id r = d) es) = on_drive d (map_of es)"
proof (induction es)
  case (Cons x es)
  obtain c r where x: "x = (c, r)" by fastforce
  have "map_of es c = None" using Cons.prems by (simp add: x map_of_eq_None_iff)
  with Cons show ?case by (simp add: x fun_eq_iff on_drive_def)
qed (simp add: on_drive_def fun_eq_iff)

lemma group_by_drive_lookup:
  "map_of (group_by_drive es) d =
     (if d \<in> (drive_id \<circ> snd) ` set es then Some (filter (\<lambda>(c, r). drive_id r = d) es) else None)"
  by (simp add: group_by_drive_def map_of_map_restrict restrict_map_def)

lemma distinct_groups: "distinct (map fst (group_by_drive es))"
  by (simp add: group_by_drive_def comp_def)

lemma checkpoint_groups_holds:
  assumes "drives_hold crc cfgs logs ws" "\<forall>(d, es)\<in>set gs. distinct (map fst es) \<and> log_frame_ok (CheckpointFrame es)"
    "distinct (map fst gs)" "checkpoint_groups crc gs ws = (Returned (Inr u), ws')"
  shows "\<exists>logs'. drives_hold crc cfgs logs' ws'
    \<and> (\<forall>d. log_index (logs' d) = (case map_of gs d of Some es \<Rightarrow> map_of es | None \<Rightarrow> log_index (logs d)))"
  using assms
proof (induction gs arbitrary: logs ws)
  case (Cons g gs)
  obtain d es where g: "g = (d, es)" by fastforce
  obtain ws1 where c: "drives_write_checkpoint crc d es ws = (Returned (Inr ()), ws1)" "checkpoint_groups crc gs ws1 = (Returned (Inr u), ws')"
    using Cons.prems(4) by (auto simp: g split: prod.splits outcome.splits sum.splits)
  have ok: "log_frame_ok (CheckpointFrame es)" "distinct (map fst es)" using Cons.prems(2) by (auto simp: g)
  obtain logs' where l: "drives_hold crc cfgs logs' ws'"
    "\<forall>d'. log_index (logs' d') = (case map_of gs d' of Some es \<Rightarrow> map_of es | None \<Rightarrow> log_index ((logs(d := logs d @ [CheckpointFrame es])) d'))"
    using Cons.IH [OF drives_checkpoint_ok [OF Cons.prems(1) ok(1) c(1)] _ _ c(2)] Cons.prems(2,3) by auto
  have "map_of gs d = None" using Cons.prems(3) by (simp add: g map_of_eq_None_iff)
  moreover have "log_index (logs d @ [CheckpointFrame es]) = map_of es"
    using ok(2) by (simp add: log_index_def replay_log_checkpoint)
  ultimately show ?case using l by (intro exI [of _ logs']) (auto simp: g split: option.split)
qed (auto intro!: exI)

lemma checkpoint_all_holds:
  assumes h: "engine_holds crc cfgs logs e" and run: "checkpoint_all crc e = (Returned (Inr u), e')"
    and small: "length (snapshot_entries e) < 2 ^ 25"
  shows "\<exists>logs'. engine_holds crc cfgs logs' e'" "engine_index e' = engine_index e"
proof -
  let ?gs = "group_by_drive (snapshot_entries e)"
  have sh: "shards_ok e" and dh: "drives_hold crc cfgs logs (ke_drives e)" using h by (simp_all add: engine_holds_def)
  note snap = shards_snapshot [OF sh]
  obtain ws where ws: "checkpoint_groups crc ?gs (ke_drives e) = (Returned (Inr u), ws)" "e' = e\<lparr>ke_drives := ws\<rparr>"
    using run by (auto simp: checkpoint_all_def split: prod.splits)
  show i: "engine_index e' = engine_index e" by (simp add: fun_eq_iff engine_index_def ws(2))
  have flt: "distinct (map fst (filter P (snapshot_entries e)))" for P using snap(1) by (rule distinct_map_filter)
  have "log_frame_ok (CheckpointFrame (filter P (snapshot_entries e)))" for P
  proof -
    have "length (filter P (snapshot_entries e)) < 2 ^ 25" using small length_filter_le le_less_trans by blast
    then have "4096 + pad (4 + 60 * length (filter P (snapshot_entries e))) < 0x7ffff000"
      using pad_less [of "4 + 60 * length (filter P (snapshot_entries e))"] by simp
    moreover have "list_all entry_ok (filter P (snapshot_entries e))" using snap(3) by (auto simp: list_all_iff)
    ultimately show ?thesis by simp
  qed
  with flt have "\<forall>(d, es)\<in>set ?gs. distinct (map fst es) \<and> log_frame_ok (CheckpointFrame es)"
    by (auto simp: group_by_drive_def simp del: log_frame_ok.simps)
  from checkpoint_groups_holds [OF dh this distinct_groups ws(1)] obtain logs' where
    l: "drives_hold crc cfgs logs' ws"
    "\<forall>d. log_index (logs' d) = (case map_of ?gs d of Some es \<Rightarrow> map_of es | None \<Rightarrow> log_index (logs d))" by blast
  have "log_index (logs' (dc_id cfg)) = on_drive (dc_id cfg) (engine_index e)" if "cfg \<in> set cfgs" for cfg
    using l(2) that h by (auto simp: group_by_drive_lookup map_of_on_drive [OF snap(1)] snap(2) engine_holds_def split: option.split)
  then have "engine_holds crc cfgs logs' e'"
    using h l(1) i sh by (simp add: engine_holds_def ws(2)) (simp add: shards_ok_def)
  then show "\<exists>logs'. engine_holds crc cfgs logs' e'" by blast
qed

section \<open>Sequences of acknowledged operations\<close>

datatype index_op = OpUpsert ChunkId u64 LocationRecord | OpDelete ChunkId | OpCheckpoint

fun run_op :: "(u8 list \<Rightarrow> u32) \<Rightarrow> index_op \<Rightarrow> KixEngine \<Rightarrow> unit outcome \<times> KixEngine" where
  "run_op crc (OpUpsert c slot r) e = kix_upsert crc c slot r e"
| "run_op crc (OpDelete c) e = kix_delete crc c e"
| "run_op crc OpCheckpoint e = checkpoint_all crc e"

fun op_effect :: "index_op \<Rightarrow> index_map \<Rightarrow> index_map" where
  "op_effect (OpUpsert c slot r) m = spec_upsert c r m"
| "op_effect (OpDelete c) m = m(c := None)"
| "op_effect OpCheckpoint m = m"

text \<open>
  What the caller keeps to: chunk ids of 32 bytes, a chunk that is in the index stays on its drive, and a
  checkpoint is taken below \<open>2 ^ 25\<close> entries, so that its frame has a length that fits 32 bits.
\<close>

fun op_ok :: "index_op \<Rightarrow> KixEngine \<Rightarrow> bool" where
  "op_ok (OpUpsert c slot r) e \<longleftrightarrow> chunk_id_ok c \<and> (\<forall>r'. kix_get c e = Inr (Some r') \<longrightarrow> drive_id r' = drive_id r)"
| "op_ok (OpDelete c) e \<longleftrightarrow> True"
| "op_ok OpCheckpoint e \<longleftrightarrow> length (snapshot_entries e) < 2 ^ 25"

inductive acked :: "(u8 list \<Rightarrow> u32) \<Rightarrow> KixEngine \<Rightarrow> index_op list \<Rightarrow> KixEngine \<Rightarrow> bool" for crc where
  acked_none: "acked crc e [] e"
| acked_more: "op_ok op e \<Longrightarrow> run_op crc op e = (Returned (Inr ()), e1) \<Longrightarrow> acked crc e1 ops e2 \<Longrightarrow> acked crc e (op # ops) e2"

inductive_cases acked_ConsE: "acked crc e (op # ops) e2"

lemma kix_upsert_acked:
  assumes "shards_ok e" "drives_hold crc cfgs logs (ke_drives e)" "kix_upsert crc c slot r e = (Returned (Inr ()), e')"
  shows "\<exists>ws. drives_append_delta crc (drive_id r) (delta_upsert c r) (ke_drives e) = (Returned (Inr ()), ws)
    \<and> ke_drives e' = ws \<and> ke_shards e' = apply_to_shards (delta_upsert c r) e"
  using assms
proof (cases rule: kix_upsert_cases)
  case (acked ws)
  then show ?thesis by blast
qed simp

lemma spec_delta_ops:
  "spec_delta (delta_upsert c r) m = spec_upsert c r m" "spec_delta (delta_delete c) m = m(c := None)"
  by (simp_all add: spec_delta.simps)

text \<open>An acknowledged change, in the log of its drive and in the shards, keeps the invariant.\<close>

lemma delta_holds:
  assumes h: "engine_holds crc cfgs logs e" and c: "chunk_id_ok (de_chunk_id d)" "delta_ok d"
    and x: "stays_on x d (engine_index e)"
    and a: "drives_append_delta crc x d (ke_drives e) = (Returned (Inr ()), ke_drives e')" "ke_shards e' = apply_to_shards d e"
  shows "(\<exists>logs'. engine_holds crc cfgs logs' e') \<and> engine_index e' = spec_delta d (engine_index e)"
proof -
  have dh: "drives_hold crc cfgs logs (ke_drives e)" using h by (simp add: engine_holds_def)
  note n = drives_append_ok [OF dh c(2) a(1)]
  show ?thesis using engine_holds_delta [OF h c(1) n(1) x n(2) a(2)] by blast
qed

lemma upsert_holds:
  assumes h: "engine_holds crc cfgs logs e" and ok: "op_ok (OpUpsert c slot r) e"
    and run: "kix_upsert crc c slot r e = (Returned (Inr ()), e')"
  shows "(\<exists>logs'. engine_holds crc cfgs logs' e') \<and> engine_index e' = spec_upsert c r (engine_index e)"
proof -
  have sh: "shards_ok e" and dh: "drives_hold crc cfgs logs (ke_drives e)" using h by (simp_all add: engine_holds_def)
  have c: "chunk_id_ok c" using ok by simp
  have home: "drive_id r' = drive_id r" if "engine_index e c = Some r'" for r'
    using ok that kix_get_index [OF sh, of c] by simp
  have st: "stays_on (drive_id r) (delta_upsert c r) (engine_index e)"
    unfolding stays_on_def by (auto intro: home)
  have d: "chunk_id_ok (de_chunk_id (delta_upsert c r))" "delta_ok (delta_upsert c r)" using c by (simp_all add: delta_ok_def)
  obtain ws where a: "drives_append_delta crc (drive_id r) (delta_upsert c r) (ke_drives e) = (Returned (Inr ()), ws)"
    "ke_drives e' = ws" "ke_shards e' = apply_to_shards (delta_upsert c r) e"
    using kix_upsert_acked [OF sh dh run] by blast
  show ?thesis using delta_holds [OF h d st _ a(3)] a(1) unfolding a(2) spec_delta_ops .
qed

lemma delete_holds:
  assumes h: "engine_holds crc cfgs logs e" and run: "kix_delete crc c e = (Returned (Inr ()), e')"
  shows "(\<exists>logs'. engine_holds crc cfgs logs' e') \<and> engine_index e' = (engine_index e)(c := None)"
proof -
  have sh: "shards_ok e" and dh: "drives_hold crc cfgs logs (ke_drives e)" using h by (simp_all add: engine_holds_def)
  from sh dh run show ?thesis
  proof (cases rule: kix_delete_cases)
    case absent
    then have "(engine_index e)(c := None) = engine_index e" by (simp only: fun_upd_idem)
    with absent(3) h show ?thesis by (metis (no_types))
  next
    case (acked r ws)
    have "(c, r) \<in> set (snapshot_entries e)" using snapshot_entries_iff [OF sh] acked(1) by blast
    with shards_snapshot(3) [OF sh] have c: "chunk_id_ok c" unfolding list_all_iff by (metis fst_conv)
    then have d: "delta_ok (delta_delete c)" "chunk_id_ok (de_chunk_id (delta_delete c))" by (simp_all add: delta_ok_def)
    have "stays_on (drive_id r) (delta_delete c) (engine_index e)" using acked(1) by (simp add: stays_on_def)
    then show ?thesis
      using delta_holds [OF h d(2,1)] acked(2,4,5) unfolding spec_delta_ops by blast
  next
    case (failed r err ws)
    then show ?thesis by simp
  qed
qed

lemma run_op_holds:
  assumes h: "engine_holds crc cfgs logs e" and ok: "op_ok op e" and run: "run_op crc op e = (Returned (Inr ()), e')"
  shows "(\<exists>logs'. engine_holds crc cfgs logs' e') \<and> engine_index e' = op_effect op (engine_index e)"
proof (cases op)
  case (OpUpsert c slot r)
  then show ?thesis using upsert_holds [OF h] ok run by (simp only: run_op.simps op_effect.simps)
next
  case (OpDelete c)
  then show ?thesis using delete_holds [OF h] run by (simp only: run_op.simps op_effect.simps)
next
  case OpCheckpoint
  then show ?thesis using checkpoint_all_holds [OF h, of "()" e'] run ok by (simp only: run_op.simps op_effect.simps op_ok.simps)
qed

lemma acked_holds:
  assumes "acked crc e ops e'" "engine_holds crc cfgs logs e"
  shows "(\<exists>logs'. engine_holds crc cfgs logs' e') \<and> engine_index e' = fold op_effect ops (engine_index e)"
  using assms
proof (induction arbitrary: logs)
  case (acked_more op e e1 ops e2)
  then show ?case using run_op_holds [of crc cfgs logs e op e1] by auto
qed auto

section \<open>A fresh engine\<close>

definition sample_drive :: "u16 \<Rightarrow> DriveConfig" where
  "sample_drive d = sample_config\<lparr>dc_id := d\<rparr>"

definition sample_worker :: "u16 \<Rightarrow> DriveWorker" where
  "sample_worker d =
     new_worker (arena_on (sample_drive d) (Some 1048576) 4096 True (reset_image (sample_drive d) sample_device)) 128 True"

definition sample_engine :: "u16 list \<Rightarrow> KixEngine" where
  "sample_engine ids =
     \<lparr>ke_shards = [[], []], ke_drives = map (\<lambda>d. (d, sample_worker d)) ids,
      ke_inverse = map (\<lambda>d. (d, [])) ids, ke_rebuild_required = []\<rparr>"

definition sample_kix_config :: "u16 list \<Rightarrow> KixConfig" where
  "sample_kix_config ids =
     \<lparr>kc_shard_count = 2, kc_lookup_worker_mode = Interrupt, kc_commit_worker_mode = Interrupt,
      kc_drive_worker_mode = BusyPoll 64, kc_drive_configs = map sample_drive ids, kc_lookup_pin_cores = [],
      kc_commit_pin_cores = [], kc_drive_pin_cores = [], kc_shard_numa_node = None, kc_lookup_queue_depth = 128,
      kc_commit_queue_depth = 128, kc_drive_queue_depth = 128, kc_stats = None\<rparr>"

lemma sample_drive_fields [simp]:
  "dc_id (sample_drive d) = d" "dc_arena_len_bytes (sample_drive d) = Some 1048576" "dc_arena_offset_bytes (sample_drive d) = 8192"
  by (simp_all add: sample_drive_def sample_config_def)

lemma sample_drive_place: "arena_place (sample_drive d) sample_device" "span_of (sample_drive d) sample_device = Some 1048576"
  by (simp_all add: arena_place_def span_of_def sample_device_def validate_io_layout_def is_aligned_u64_def)

lemma sample_worker_ok:
  "drive_ok crc (sample_drive d) [] (sample_worker d)" "quiet (da_file (dw_arena (sample_worker d)))"
proof -
  have q: "quiet sample_device" "dev_block sample_device" by (simp_all add: sample_device_def)
  have "fixed_span_holds crc (sample_drive d) [] (arena_on (sample_drive d) (Some 1048576) 4096 True (reset_image (sample_drive d) sample_device))"
    using reset_holds [OF q(1) sample_drive_place(1) [of d], of crc] sample_drive_place(2) [of d] q(2) by simp
  then show "drive_ok crc (sample_drive d) [] (sample_worker d)"
    using reset_image_body(6) [OF log_body_Nil [OF sample_drive_place(1) [of d]]]
    by (simp add: drive_ok_def sample_worker_def idle_new_worker) (simp add: new_worker_def log_state_def arena_on_def)
  show "quiet (da_file (dw_arena (sample_worker d)))"
    using reset_image_body(4) [OF log_body_Nil [OF sample_drive_place(1) [of d]]] q(1)
    by (simp add: sample_worker_def new_worker_def arena_on_def)
qed

lemma map_of_ids: "map_of (map (\<lambda>d. (d, f d)) ids) d = (if d \<in> set ids then Some (f d) else None)"
  by (simp add: map_of_map_restrict restrict_map_def)

lemma sample_drives_hold:
  "distinct ids \<Longrightarrow> drives_hold crc (map sample_drive ids) (\<lambda>_. []) (ke_drives (sample_engine ids))"
  using sample_worker_ok(1)
  by (auto simp: drives_hold_def sample_engine_def comp_def map_of_ids dom_map_of_conv_image_fst image_image split: if_splits)

lemma sample_shards: "shards_ok (sample_engine ids)" "engine_index (sample_engine ids) = Map.empty"
proof -
  have n: "ke_shards (sample_engine ids) ! s = []" if "s < 2" for s
    using that by (cases s) (auto simp: sample_engine_def)
  then show "shards_ok (sample_engine ids)" by (simp add: shards_ok_def shard_ok_def sample_engine_def)
  show "engine_index (sample_engine ids) = Map.empty"
  proof
    fix c
    show "engine_index (sample_engine ids) c = Map.empty c"
      using n [OF shard_for_less [of 2 c]] by (simp add: engine_index_def) (simp add: sample_engine_def numeral_2_eq_2)
  qed
qed

lemma sample_engine_holds: "distinct ids \<Longrightarrow> engine_holds crc (map sample_drive ids) (\<lambda>_. []) (sample_engine ids)"
  using sample_drives_hold [of ids crc] sample_shards [of ids]
  by (simp add: engine_holds_def log_index_def replay_log_def on_drive_def)

lemma sample_validate: "distinct ids \<Longrightarrow> ids \<noteq> [] \<Longrightarrow> validate None (sample_kix_config ids) = Inr ()"
proof -
  have v: "distinct (seen @ ids) \<Longrightarrow> validate_drive_ids seen (map sample_drive ids) = Inr ()" for seen
    by (induction ids arbitrary: seen) auto
  assume "distinct ids" "ids \<noteq> []"
  with v [of "[]"] show ?thesis by (simp add: validate_def sample_kix_config_def validate_requested_cores_def)
qed

text \<open>On a quiet device with room, an append is acknowledged.\<close>

lemma worker_append_acks:
  assumes "drive_ok crc cfg fs w" "quiet (da_file (dw_arena w))" "delta_ok delta"
    "log_fits cfg (fs @ [DeltaFrame [delta]]) (da_file (dw_arena w))"
  shows "\<exists>w'. worker_call crc (ReqAppend delta) w = (Returned (Inr ()), w') \<and> quiet (da_file (dw_arena w'))"
proof -
  have f: "log_frame_ok (DeltaFrame [delta])" using assms(3) by (simp add: pad_def)
  have "arena_holds crc cfg fs (dw_arena w)" using assms(1) by (simp add: drive_ok_def log_state_def fixed_span_holds_def)
  from append_frame_quiet [OF this f assms(4,2)] obtain a where
    a: "append_delta_batch crc [delta] (dw_arena w) = (Inr (), a)" "quiet (da_file a)" by (auto simp: append_delta_batch_def)
  have "idle w" using assms(1) by (simp add: drive_ok_def)
  from worker_call_append [OF this a(1)] a(2) show ?thesis by (simp add: reply_result_def)
qed

lemma sample_fits:
  "length fs \<le> 2 \<Longrightarrow> \<forall>f\<in>set fs. log_size f = 8192 \<Longrightarrow> log_fits (sample_drive d) fs dev"
  using le_less_trans [of "log_len fs" 16384 1000000]
  by (cases fs; cases "tl fs") (auto simp: log_fits_def span_of_def head_of_def)

lemma sample_frame_size: "delta_ok delta \<Longrightarrow> log_size (DeltaFrame [delta]) = 8192"
  by (simp add: log_size_def length_delta_payload pad_def)

lemma drives_append_acks:
  assumes h: "drives_hold crc (map sample_drive ids) logs ws" and d: "map_of ws d = Some w"
    and q: "quiet (da_file (dw_arena w))" and ok: "delta_ok delta" and len: "length (logs d) \<le> 1" "\<forall>f\<in>set (logs d). log_size f = 8192"
  shows "\<exists>w'. drives_append_delta crc d delta ws = (Returned (Inr ()), AList.update d w' ws) \<and> quiet (da_file (dw_arena w'))"
proof -
  obtain cfg where cfg: "cfg \<in> set (map sample_drive ids)" "dc_id cfg = d" "drive_ok crc cfg (logs d) w"
    using drives_hold_worker [OF h d] .
  then have "cfg = sample_drive d" by auto
  with cfg have "drive_ok crc (sample_drive d) (logs d) w" by simp
  from worker_append_acks [OF this q ok sample_fits] len obtain w' where
    "worker_call crc (ReqAppend delta) w = (Returned (Inr ()), w')" "quiet (da_file (dw_arena w'))"
    using ok by (auto simp: sample_frame_size)
  then show ?thesis using d by (intro exI [of _ w']) (simp add: drives_append_delta_def drive_call_def)
qed

lemma kix_upsert_via:
  assumes "shards_ok e" "drives_append_delta crc (drive_id r) (delta_upsert c r) (ke_drives e) = (Returned (Inr ()), ws)"
  shows "\<exists>e'. kix_upsert crc c slot r e = (Returned (Inr ()), e') \<and> ke_drives e' = ws \<and> ke_shards e' = apply_to_shards (delta_upsert c r) e"
  using assms shard_index_ok [OF assms(1), of c]
  by (simp add: kix_upsert_def apply_to_shards_def Let_def shard_apply_simps)

definition sample_id :: ChunkId where
  "sample_id = ChunkId (replicate 32 7)"

definition sample_at :: "u16 \<Rightarrow> u32 \<Rightarrow> LocationRecord" where
  "sample_at d g = extent_record d 8192 100 4096 g 0"

lemma sample_delta_ok: "delta_ok (delta_upsert sample_id r)" "chunk_id_ok sample_id"
  by (simp_all add: delta_ok_def sample_id_def chunk_id_ok_def)

lemma sample_at_fields [simp]: "drive_id (sample_at d g) = d" "generation (sample_at d g) = g"
  by (simp_all add: sample_at_def extent_record_def)

text \<open>The first upsert into a fresh engine.\<close>

lemma sample_first_upsert:
  assumes "distinct ids" "d \<in> set ids"
  shows "\<exists>w' e'. kix_upsert crc sample_id 0 (sample_at d g) (sample_engine ids) = (Returned (Inr ()), e')
    \<and> ke_drives e' = AList.update d w' (ke_drives (sample_engine ids)) \<and> quiet (da_file (dw_arena w'))
    \<and> ke_shards e' = apply_to_shards (delta_upsert sample_id (sample_at d g)) (sample_engine ids)"
proof -
  have m: "map_of (ke_drives (sample_engine ids)) d = Some (sample_worker d)"
    using assms(2) by (simp add: sample_engine_def map_of_ids)
  obtain w' where w': "drives_append_delta crc d (delta_upsert sample_id (sample_at d g)) (ke_drives (sample_engine ids))
      = (Returned (Inr ()), AList.update d w' (ke_drives (sample_engine ids)))" "quiet (da_file (dw_arena w'))"
    using drives_append_acks [OF sample_drives_hold [OF assms(1)] m sample_worker_ok(2) sample_delta_ok(1)] by auto
  from kix_upsert_via [OF sample_shards(1), of crc "sample_at d g" sample_id ids] w' show ?thesis by fastforce
qed

section \<open>Properties of the engine\<close>

text \<open>
  C4. Acknowledged changes are what a reopened engine serves. From an engine whose memory and logs agree
  (a fresh one, for instance), take any sequence of upserts, deletes and checkpoints that were all
  acknowledged and in which no chunk changes its drive while it is in the index. Cut the power: the
  devices keep what was durable. Then \<open>open\<close> succeeds, no drive asks for a rebuild, and \<open>get\<close> gives for
  every chunk the record that applying the operations one by one to the original map gives: the newest
  generation of an upsert wins, a delete removes.
\<close>

theorem acknowledged_index_survives:
  assumes "engine_holds crc (kc_drive_configs config) logs e" "acked crc e ops e'"
    "validate core_ids config = Inr ()" "\<forall>r. startup r = Inr ()"
  shows "\<exists>e''. kix_open crc core_ids startup config
        (map (\<lambda>cfg. (True, cycled_device (ke_drives e') cfg)) (kc_drive_configs config)) = Inr e''
    \<and> rebuild_required_drives e'' = []
    \<and> (\<forall>c. kix_get c e'' = Inr (fold op_effect ops (engine_index e) c))
    \<and> (\<forall>c. kix_get c e' = kix_get c e'')"
proof -
  obtain logs' where h: "engine_holds crc (kc_drive_configs config) logs' e'"
    and i: "engine_index e' = fold op_effect ops (engine_index e)" using acked_holds [OF assms(2,1)] by blast
  have dh: "drives_hold crc (kc_drive_configs config) logs' (ke_drives e')" "shards_ok e'" using h by (simp_all add: engine_holds_def)
  obtain e'' where o: "kix_open crc core_ids startup config
      (map (\<lambda>cfg. (True, cycled_device (ke_drives e') cfg)) (kc_drive_configs config)) = Inr e''"
    "engine_index e'' = merged_index logs' (kc_drive_configs config)" "length (ke_shards e'') = kc_shard_count config"
    "ke_rebuild_required e'' = []"
    using kix_open_cycled [OF dh(1) assms(3,4)] by blast
  have "0 < kc_shard_count config" using assms(3) by (auto simp: validate_def guard_r_def split: if_splits)
  then have g: "kix_get c e'' = Inr (engine_index e'' c)" for c
    using o(3) by (simp add: kix_get_def shard_index_for_def Let_def shard_for_less engine_index_def shard_get_def)
  show ?thesis
    using o(1,2,4) g kix_get_index [OF dh(2)] merged_index_engine [OF h] i
    by (simp add: rebuild_required_drives_def)
qed

theorem acknowledged_index_survives_witness:
  "\<exists>e'. engine_holds sample_crc (kc_drive_configs (sample_kix_config [3])) (\<lambda>_. []) (sample_engine [3])
    \<and> acked sample_crc (sample_engine [3]) [OpUpsert sample_id 0 (sample_at 3 5)] e'
    \<and> (\<exists>e''. kix_open sample_crc None (\<lambda>_. Inr ()) (sample_kix_config [3])
          (map (\<lambda>cfg. (True, cycled_device (ke_drives e') cfg)) (kc_drive_configs (sample_kix_config [3]))) = Inr e''
        \<and> kix_get sample_id e'' = Inr (Some (sample_at 3 5)))"
proof -
  have h: "engine_holds sample_crc (kc_drive_configs (sample_kix_config [3])) (\<lambda>_. []) (sample_engine [3])"
    using sample_engine_holds [of "[3]" sample_crc] by (simp add: sample_kix_config_def)
  obtain e' where e': "kix_upsert sample_crc sample_id 0 (sample_at 3 5) (sample_engine [3]) = (Returned (Inr ()), e')"
    using sample_first_upsert [of "[3]" 3] by auto
  have "op_ok (OpUpsert sample_id 0 (sample_at 3 5)) (sample_engine [3])"
    using sample_delta_ok(2) kix_get_index [OF sample_shards(1) [of "[3]"]] by (simp add: sample_shards(2))
  then have a: "acked sample_crc (sample_engine [3]) [OpUpsert sample_id 0 (sample_at 3 5)] e'"
    using e' by (intro acked_more [OF _ _ acked_none]) simp_all
  have v: "validate None (sample_kix_config [3]) = Inr ()" by (rule sample_validate) simp_all
  have "spec_upsert sample_id (sample_at 3 5) Map.empty sample_id = Some (sample_at 3 5)" by (simp add: spec_upsert.simps)
  with acknowledged_index_survives [OF h a v, of "\<lambda>_. Inr ()"] h a show ?thesis
    by (intro exI [of _ e']) (auto simp: sample_shards(2))
qed

text \<open>
  C12. A worker answers every request exactly once. Take a worker that runs, with any requests in its
  queue, its batch and its deferred slot, none of them a stop. Left alone it comes to rest with nothing
  pending, and the replies it has then given are those it had given before plus one for each request,
  whatever the arena answered.
\<close>

theorem worker_answers_every_request:
  assumes "serving w"
  shows "requests (drive_run crc w) = []
    \<and> mset (answered (drive_run crc w)) = mset (answered w) + mset (owed w) \<and> serving (drive_run crc w)"
proof -
  let ?P = "\<lambda>w'. serving w' \<and> mset (owed w') + mset (answered w') = mset (owed w) + mset (answered w)"
  have r: "?P (drive_run crc w) \<and> drive_step crc (drive_run crc w) = None"
  proof (rule drive_run_invariant)
    show "?P w" using assms by simp
    show "?P w2" if "?P w1" "drive_step crc w1 = Some w2" for w1 w2
      using that drive_step_account [OF that(2)] drive_step_serving [OF that(2)] by simp
  qed
  then have "requests (drive_run crc w) = []" by (intro drive_step_done) auto
  with r show ?thesis by (simp add: owed_def union_commute)
qed

definition sample_busy :: DriveWorker where
  "sample_busy = (sample_worker 3)\<lparr>dw_queue := \<lparr>wq_capacity = 8,
     wq_items = [ReqAppend (delta_delete sample_id) 1, ReqCheckpoint [] 2, ReqAppend (delta_delete sample_id) 3], wq_alive = True\<rparr>\<rparr>"

lemma sample_busy_fields:
  "serving sample_busy" "answered sample_busy = []" "dw_batch sample_busy = []" "dw_replies sample_busy = []"
  "requests sample_busy = [ReqAppend (delta_delete sample_id) 1, ReqCheckpoint [] 2, ReqAppend (delta_delete sample_id) 3]"
  "dw_arena sample_busy = dw_arena (sample_worker 3)"
  by (simp_all add: sample_busy_def sample_worker_def new_worker_def serving_def requests_def answered_def)

theorem worker_answers_every_request_witness:
  "serving sample_busy \<and> mset (answered (drive_run sample_crc sample_busy)) = {#1, 2, 3#}"
  using worker_answers_every_request [OF sample_busy_fields(1), of sample_crc]
  by (simp add: sample_busy_fields owed_def)

text \<open>
  C13. Batching does not change what is logged. A worker that starts with the log \<open>fs\<close> and an empty batch
  and whose replies are all successes comes to rest with a durable log; replaying it gives the index that
  applying the requests one by one, in the order of the queue, to the index of \<open>fs\<close> gives. So how the
  requests fall into frames of up to 128 deltas, and how often the worker polled in vain, cannot be told
  from the log.
\<close>

theorem group_commit_keeps_order:
  assumes "serving w" "log_state crc cfg fs (dw_arena w)" "list_all request_ok (requests w)"
    "dw_batch w = []" "list_all (\<lambda>(t, r). r = Inr ()) (dw_replies (drive_run crc w))"
  shows "\<exists>gs. log_state crc cfg gs (dw_arena (drive_run crc w))
    \<and> log_index gs = fold request_effect (requests w) (log_index fs)"
proof -
  let ?m = "fold request_effect (requests w) (log_index fs)"
  have w: "worker_to crc cfg ?m w" unfolding worker_to_def using assms(2-4) by auto
  have "(serving (drive_run crc w) \<and> worker_to crc cfg ?m (drive_run crc w)) \<and> drive_step crc (drive_run crc w) = None"
  proof (rule drive_run_invariant)
    show "serving w \<and> worker_to crc cfg ?m w" using assms(1) w by simp
    show "serving w2 \<and> worker_to crc cfg ?m w2" if "serving w1 \<and> worker_to crc cfg ?m w1" "drive_step crc w1 = Some w2" for w1 w2
      using that drive_step_serving worker_to_step by blast
  qed
  moreover from this have "requests (drive_run crc w) = []" by (intro drive_step_done) auto
  ultimately show ?thesis using assms(5) by (auto simp: worker_to_def)
qed

theorem group_commit_keeps_order_witness:
  "\<exists>w gs. requests w = [ReqAppend (delta_delete sample_id) 9]
    \<and> list_all (\<lambda>(t, r). r = Inr ()) (dw_replies (drive_run sample_crc w)) \<and> dw_replies (drive_run sample_crc w) \<noteq> []
    \<and> log_state sample_crc (sample_drive 3) gs (dw_arena (drive_run sample_crc w)) \<and> log_index gs = Map.empty"
proof -
  let ?delta = "delta_delete sample_id" and ?v = "sample_worker 3"
  let ?w = "?v\<lparr>dw_queue := (dw_queue ?v)\<lparr>wq_items := [ReqAppend (delta_delete sample_id) 9]\<rparr>\<rparr>"
  have d: "delta_ok ?delta" using sample_delta_ok(2) by (simp add: delta_ok_def)
  have v: "idle ?v" "log_state sample_crc (sample_drive 3) [] (dw_arena ?v)" "dw_arena ?w = dw_arena ?v" "dw_batch ?w = []"
    using sample_worker_ok(1) [of sample_crc 3] by (simp_all add: drive_ok_def idle_def)
  have rq: "requests ?w = [ReqAppend ?delta 9]" "serving ?w" using v(1) by (simp_all add: idle_def requests_def serving_def)
  have "arena_holds sample_crc (sample_drive 3) [] (dw_arena ?v)" using v(2) by (simp add: log_state_def fixed_span_holds_def)
  from append_frame_quiet [OF this, of "DeltaFrame [?delta]"] obtain a where
    a: "append_delta_batch sample_crc [?delta] (dw_arena ?v) = (Inr (), a)"
    using d sample_worker_ok(2) [of 3] sample_fits [of "[DeltaFrame [?delta]]" 3] sample_frame_size [OF d]
    by (auto simp: append_delta_batch_def pad_def)
  have r: "dw_replies (drive_run sample_crc ?w) = [(9, Inr ())]" using drive_run_append [OF v(1) a, of 9] by simp
  have "log_index [] = Map.empty" by (simp add: log_index_def replay_log_def)
  with group_commit_keeps_order [OF rq(2) _ _ v(4), of sample_crc "sample_drive 3" "[]"] v(2,3) rq(1) d r show ?thesis
    by (intro exI [of _ ?w]) (auto simp: spec_delta.simps)
qed

text \<open>
  C31. The generation of a record decides in memory, but not when an engine is opened. With two drives,
  upsert a chunk on the second drive with generation 1, then on the first with generation 2: both are
  acknowledged and \<open>get\<close> gives the record of generation 2. Cut the power and reopen: \<open>get\<close> gives the
  record of generation 1, because \<open>ShardState::new\<close> inserts the entries of the drives in the order of
  the configuration without comparing generations, and the log of the second drive never heard of the
  move.
\<close>

theorem moved_chunk_served_stale:
  "\<exists>e1 e2 e3. kix_upsert sample_crc sample_id 0 (sample_at 1 1) (sample_engine [0, 1]) = (Returned (Inr ()), e1)
    \<and> kix_upsert sample_crc sample_id 0 (sample_at 0 2) e1 = (Returned (Inr ()), e2)
    \<and> kix_get sample_id e2 = Inr (Some (sample_at 0 2))
    \<and> kix_open sample_crc None (\<lambda>_. Inr ()) (sample_kix_config [0, 1])
        (map (\<lambda>cfg. (True, cycled_device (ke_drives e2) cfg)) (kc_drive_configs (sample_kix_config [0, 1]))) = Inr e3
    \<and> kix_get sample_id e3 = Inr (Some (sample_at 1 1))"
proof -
  let ?d1 = "delta_upsert sample_id (sample_at 1 1)" and ?d2 = "delta_upsert sample_id (sample_at 0 2)"
  let ?e = "sample_engine [0, 1]" and ?logs = "(\<lambda>_. [])(1 := [DeltaFrame [delta_upsert sample_id (sample_at 1 1)]])"
  let ?cs = "map sample_drive [0, 1]"
  have dis: "distinct [0, 1 :: u16]" by simp
  obtain w e1 where e1: "kix_upsert sample_crc sample_id 0 (sample_at 1 1) ?e = (Returned (Inr ()), e1)"
    "ke_drives e1 = AList.update 1 w (ke_drives ?e)" "ke_shards e1 = apply_to_shards ?d1 ?e"
    using sample_first_upsert [OF dis, of 1 sample_crc 1] by auto
  from kix_upsert_acked [OF sample_shards(1) sample_drives_hold [OF dis] e1(1)]
  have "drives_append_delta sample_crc 1 ?d1 (ke_drives ?e) = (Returned (Inr ()), ke_drives e1)" by auto
  from drives_append_ok(2) [OF sample_drives_hold [OF dis] sample_delta_ok(1) this]
  have h1: "drives_hold sample_crc ?cs ?logs (ke_drives e1)" by simp
  have s1: "shards_ok e1" using apply_to_shards_ok [OF sample_shards(1) e1(3)] sample_delta_ok(2) by simp
  have i1: "engine_index e1 = spec_delta ?d1 Map.empty" using apply_to_shards_index [OF sample_shards(1) e1(3)] by (simp add: sample_shards(2))
  have m: "map_of (ke_drives e1) 0 = Some (sample_worker 0)" by (simp add: e1(2) AList.update_conv' sample_engine_def)
  obtain ws where ap: "drives_append_delta sample_crc 0 ?d2 (ke_drives e1) = (Returned (Inr ()), ws)"
    using drives_append_acks [OF h1 m sample_worker_ok(2) sample_delta_ok(1)] by auto
  obtain e2 where e2: "kix_upsert sample_crc sample_id 0 (sample_at 0 2) e1 = (Returned (Inr ()), e2)"
    "ke_drives e2 = ws" "ke_shards e2 = apply_to_shards ?d2 e1"
    using kix_upsert_via [OF s1, of sample_crc "sample_at 0 2" sample_id ws] ap by auto
  have h2: "drives_hold sample_crc (kc_drive_configs (sample_kix_config [0, 1])) (?logs(0 := [DeltaFrame [?d2]])) (ke_drives e2)"
    using drives_append_ok(2) [OF h1 sample_delta_ok(1) ap] by (simp add: e2(2) sample_kix_config_def)
  have s2: "shards_ok e2" using apply_to_shards_ok [OF s1 e2(3)] sample_delta_ok(2) by simp
  have i2: "engine_index e2 sample_id = Some (sample_at 0 2)"
    using apply_to_shards_index [OF s1 e2(3)] by (simp add: i1 spec_delta.simps spec_upsert.simps)
  obtain e3 where e3: "kix_open sample_crc None (\<lambda>_. Inr ()) (sample_kix_config [0, 1])
        (map (\<lambda>cfg. (True, cycled_device (ke_drives e2) cfg)) (kc_drive_configs (sample_kix_config [0, 1]))) = Inr e3"
    "engine_index e3 = merged_index (?logs(0 := [DeltaFrame [?d2]])) (kc_drive_configs (sample_kix_config [0, 1]))"
    "length (ke_shards e3) = kc_shard_count (sample_kix_config [0, 1])"
    by (rule kix_open_cycled [OF h2 sample_validate [OF dis], where startup = "\<lambda>_. Inr ()"]) auto
  have "log_index [DeltaFrame [d]] = spec_delta d Map.empty" for d
    using replay_log_delta [of "[]" "[d]"] by (simp add: log_index_def) (simp add: replay_log_def)
  then have "engine_index e3 sample_id = Some (sample_at 1 1)"
    by (simp add: e3(2)) (simp add: sample_kix_config_def spec_delta.simps spec_upsert.simps)
  then have "kix_get sample_id e3 = Inr (Some (sample_at 1 1))"
    using e3(3) by (simp add: kix_get_def shard_index_for_def Let_def shard_for_less engine_index_def shard_get_def sample_kix_config_def)
  with e1(1) e2(1) e3(1) i2 kix_get_index [OF s2] show ?thesis by metis
qed

end
