(* ===== verification/Kix_Inverse.thy ===== *)
theory Kix_Inverse
  imports Kix_Acked
begin

text \<open>
  The granule inverse of \<open>engine.rs\<close> (which chunk owns a slot of a drive) and the invariant that every
  operation of the client keeps, whatever the drives answer.
\<close>

section \<open>The inverse\<close>

definition inverse_ok :: "KixEngine \<Rightarrow> bool" where
  "inverse_ok e \<longleftrightarrow> distinct (map fst (ke_inverse e)) \<and> (\<forall>d owners. map_of (ke_inverse e) d = Some owners \<longrightarrow> distinct (map fst owners))"

definition engine_inv :: "KixEngine \<Rightarrow> bool" where
  "engine_inv e \<longleftrightarrow> shards_ok e \<and> inverse_ok e"

lemma distinct_fenced_owner: "distinct (map fst owners) \<Longrightarrow> distinct (map fst (fenced_owner slot c g owners))"
  by (auto simp: fenced_owner_def Let_def AList.distinct_update split: option.split)

lemma inverse_ok_put:
  assumes "inverse_ok e" "map_of (ke_inverse e) d = Some owners" "distinct (map fst owners')"
  shows "inverse_ok (e\<lparr>ke_inverse := AList.update d owners' (ke_inverse e)\<rparr>)"
  using assms by (auto simp: inverse_ok_def AList.distinct_update AList.update_conv' split: if_splits)

lemma inverse_ok_update_inverse: "inverse_ok e \<Longrightarrow> inverse_ok (update_inverse d slot c g e)"
  by (auto simp: update_inverse_def split: option.split intro!: inverse_ok_put distinct_fenced_owner) (auto simp: inverse_ok_def)

lemma inverse_ok_clear: "inverse_ok e \<Longrightarrow> inverse_ok (clear_granule_inverse d slot e)"
  by (auto simp: clear_granule_inverse_def split: option.split intro!: inverse_ok_put AList.distinct_delete) (auto simp: inverse_ok_def)

lemma inverse_ok_cong: "inverse_ok e \<Longrightarrow> ke_inverse e' = ke_inverse e \<Longrightarrow> inverse_ok e'"
  by (simp add: inverse_ok_def)

lemma shards_ok_cong: "shards_ok e \<Longrightarrow> ke_shards e' = ke_shards e \<Longrightarrow> shards_ok e'"
  by (simp add: shards_ok_def)

lemma engine_index_cong: "ke_shards e' = ke_shards e \<Longrightarrow> engine_index e' = engine_index e"
  by (simp add: fun_eq_iff engine_index_def)

text \<open>A client operation changes the shards by one delta or not at all.\<close>

lemma kix_upsert_shape:
  assumes "shards_ok e" "kix_upsert crc c slot r e = (res, e')"
  shows "(\<exists>ws. res = Returned (Inr ()) \<and> e' = update_inverse (drive_id r) slot c (generation r)
             (e\<lparr>ke_drives := ws, ke_shards := apply_to_shards (delta_upsert c r) e\<rparr>))
    \<or> (\<exists>ws. res \<noteq> Returned (Inr ()) \<and> e' = e\<lparr>ke_drives := ws\<rparr>)"
  using assms(2) shard_index_ok [OF assms(1), of c]
  by (auto simp: kix_upsert_def apply_to_shards_def Let_def shard_apply_simps split: prod.splits outcome.splits sum.splits)

lemma kix_delete_shape:
  assumes "shards_ok e" "kix_delete crc c e = (res, e')"
  shows "(\<exists>ws. res = Returned (Inr ()) \<and> engine_index e c \<noteq> None \<and> e' = e\<lparr>ke_drives := ws, ke_shards := apply_to_shards (delta_delete c) e\<rparr>)
    \<or> (res = Returned (Inr ()) \<and> engine_index e c = None \<and> e' = e)
    \<or> (\<exists>ws. res \<noteq> Returned (Inr ()) \<and> e' = e\<lparr>ke_drives := ws\<rparr>)"
  using assms(2) shard_index_ok [OF assms(1), of c]
  by (auto simp: kix_delete_def apply_to_shards_def Let_def shard_apply_simps drive_id_for_def engine_index_def
      split: prod.splits outcome.splits sum.splits option.splits)

lemma index_chunk_ok:
  assumes "shards_ok e" "engine_index e c = Some r"
  shows "chunk_id_ok c"
proof -
  have n: "shard_for c (length (ke_shards e)) < length (ke_shards e)"
    using assms(1) by (intro shard_for_less) (simp add: shards_ok_def)
  have "(c, r) \<in> set (ke_shards e ! shard_for c (length (ke_shards e)))" using assms(2) by (auto simp: engine_index_def dest: map_of_SomeD)
  then have "c \<in> fst ` set (ke_shards e ! shard_for c (length (ke_shards e)))" by (rule image_eqI [rotated]) simp
  from shard_okD(2) [OF shards_okD [OF assms(1) n] this] show ?thesis by (rule conjunct2)
qed

lemma upsert_inv:
  assumes "engine_inv e" "chunk_id_ok c" "kix_upsert crc c slot r e = (res, e')"
  shows "engine_inv e' \<and> engine_index e' = (if res = Returned (Inr ()) then spec_upsert c r (engine_index e) else engine_index e)"
proof -
  have sh: "shards_ok e" and iv: "inverse_ok e" using assms(1) by (simp_all add: engine_inv_def)
  from kix_upsert_shape [OF sh assms(3)] show ?thesis
  proof (elim disjE exE conjE)
    fix ws
    assume ok: "res = Returned (Inr ())"
      and e': "e' = update_inverse (drive_id r) slot c (generation r) (e\<lparr>ke_drives := ws, ke_shards := apply_to_shards (delta_upsert c r) e\<rparr>)"
    have s: "ke_shards e' = apply_to_shards (delta_upsert c r) e" by (simp add: e')
    have "inverse_ok e'" unfolding e' by (intro inverse_ok_update_inverse inverse_ok_cong [OF iv]) simp
    then show ?thesis
      using apply_to_shards_ok [OF sh s] apply_to_shards_index [OF sh s] assms(2) ok
      by (simp add: engine_inv_def spec_delta.simps)
  next
    fix ws
    assume "res \<noteq> Returned (Inr ())" and e': "e' = e\<lparr>ke_drives := ws\<rparr>"
    moreover have "engine_inv e'" using shards_ok_cong [OF sh, of e'] inverse_ok_cong [OF iv, of e'] by (simp add: engine_inv_def e')
    ultimately show ?thesis using engine_index_cong [of e' e] by simp
  qed
qed

lemma delete_inv:
  assumes "engine_inv e" "kix_delete crc c e = (res, e')"
  shows "engine_inv e' \<and> engine_index e' = (if res = Returned (Inr ()) then (engine_index e)(c := None) else engine_index e)"
proof -
  have sh: "shards_ok e" and iv: "inverse_ok e" using assms(1) by (simp_all add: engine_inv_def)
  from kix_delete_shape [OF sh assms(2)] show ?thesis
  proof (elim disjE exE conjE)
    fix ws
    assume ok: "res = Returned (Inr ())" "engine_index e c \<noteq> None"
      and e': "e' = e\<lparr>ke_drives := ws, ke_shards := apply_to_shards (delta_delete c) e\<rparr>"
    have s: "ke_shards e' = apply_to_shards (delta_delete c) e" by (simp add: e')
    have c: "chunk_id_ok (de_chunk_id (delta_delete c))" using index_chunk_ok [OF sh] ok(2) by auto
    show ?thesis
      using apply_to_shards_ok [OF sh s c] apply_to_shards_index [OF sh s] inverse_ok_cong [OF iv, of e'] ok(1)
      by (simp add: engine_inv_def spec_delta.simps) (simp add: e')
  next
    assume "res = Returned (Inr ())" "engine_index e c = None" "e' = e"
    moreover from this have "(engine_index e)(c := None) = engine_index e" by (simp only: fun_upd_idem)
    ultimately show ?thesis using assms(1) by simp
  next
    fix ws
    assume "res \<noteq> Returned (Inr ())" and e': "e' = e\<lparr>ke_drives := ws\<rparr>"
    moreover have "engine_inv e'" using shards_ok_cong [OF sh, of e'] inverse_ok_cong [OF iv, of e'] by (simp add: engine_inv_def e')
    ultimately show ?thesis using engine_index_cong [of e' e] by simp
  qed
qed

section \<open>Properties\<close>

text \<open>
  C14. Every operation of the client keeps the invariant of the engine (each chunk in the shard that its
  id selects and at most once, each slot with at most one owner), whatever the drives answer. An
  operation that does not report success leaves the index as it was; one that does changes it as the
  specification says.
\<close>

theorem client_operations_keep_invariant:
  assumes "engine_inv e" "chunk_id_ok c"
  shows "(case kix_upsert crc c slot r e of (res, e') \<Rightarrow>
        engine_inv e' \<and> engine_index e' = (if res = Returned (Inr ()) then spec_upsert c r (engine_index e) else engine_index e))
    \<and> (case kix_delete crc c e of (res, e') \<Rightarrow>
        engine_inv e' \<and> engine_index e' = (if res = Returned (Inr ()) then (engine_index e)(c := None) else engine_index e))
    \<and> (case checkpoint_all crc e of (res, e') \<Rightarrow> engine_inv e' \<and> engine_index e' = engine_index e)
    \<and> engine_inv (seed_inverse d slot c g e) \<and> engine_inv (clear_granule_inverse d slot e)"
proof -
  have sh: "shards_ok e" and iv: "inverse_ok e" using assms(1) by (simp_all add: engine_inv_def)
  have cp: "engine_inv (e\<lparr>ke_drives := ws\<rparr>) \<and> engine_index (e\<lparr>ke_drives := ws\<rparr>) = engine_index e" for ws
    using shards_ok_cong [OF sh, of "e\<lparr>ke_drives := ws\<rparr>"] inverse_ok_cong [OF iv, of "e\<lparr>ke_drives := ws\<rparr>"]
      engine_index_cong [of "e\<lparr>ke_drives := ws\<rparr>" e] by (simp add: engine_inv_def)
  have "engine_inv (seed_inverse d slot c g e)"
    using shards_ok_cong [OF sh, of "update_inverse d slot c g e"] inverse_ok_update_inverse [OF iv]
    by (simp add: engine_inv_def seed_inverse_def)
  moreover have "ke_shards (clear_granule_inverse d slot e) = ke_shards e"
    by (simp add: clear_granule_inverse_def split: option.split)
  then have "engine_inv (clear_granule_inverse d slot e)"
    using shards_ok_cong [OF sh] inverse_ok_clear [OF iv] by (simp add: engine_inv_def)
  ultimately show ?thesis
    using upsert_inv [OF assms] delete_inv [OF assms(1)] cp by (auto simp: checkpoint_all_def split: prod.split)
qed

theorem client_operations_keep_invariant_witness:
  "engine_inv (sample_engine [3]) \<and> engine_inv (snd (kix_upsert sample_crc sample_id 0 (sample_at 3 5) (sample_engine [3])))"
proof -
  have "inverse_ok (sample_engine [3])" by (simp add: inverse_ok_def sample_engine_def)
  then have i: "engine_inv (sample_engine [3])" using sample_shards(1) by (simp add: engine_inv_def)
  show ?thesis
    using client_operations_keep_invariant [OF i sample_delta_ok(2), where crc = sample_crc and slot = 0 and r = "sample_at 3 5"] i
    by (simp add: split_beta)
qed

text \<open>
  C30. The granules of a drive that the inverse shows occupied: the list is strictly sorted by slot, so a
  caller can page through it with a cursor, and it contains a slot with a chunk and a generation exactly
  if \<open>lookup_granule_chunk\<close> answers with them. After an update of a slot, the lookup of that slot gives
  the new owner unless the old one has a higher generation, every other slot is as before, and clearing a
  slot frees exactly that slot.
\<close>

theorem occupied_granules_exact:
  assumes "inverse_ok e" "map_of (ke_inverse e) d = Some owners"
  shows "sorted_wrt (<) (map fst (occupied_granules d e))
    \<and> ((slot, c, g) \<in> set (occupied_granules d e) \<longleftrightarrow> lookup_granule_chunk d slot e = Some (c, g))
    \<and> lookup_granule_chunk d slot (update_inverse d slot' c' g' e) =
        (if slot = slot'
         then (case lookup_granule_chunk d slot e of
                 Some (c, g) \<Rightarrow> if g' < g then Some (c, g) else Some (c', g')
               | None \<Rightarrow> Some (c', g'))
         else lookup_granule_chunk d slot e)
    \<and> lookup_granule_chunk d slot (clear_granule_inverse d slot' e) =
        (if slot = slot' then None else lookup_granule_chunk d slot e)"
proof -
  have d: "distinct (map fst owners)" using assms by (simp add: inverse_ok_def)
  let ?rows = "map (\<lambda>(slot, owner). (slot, go_chunk_id owner, go_generation owner)) owners"
  have k: "map fst ?rows = map fst owners" by (simp add: comp_def split_beta)
  have o: "occupied_granules d e = sort_key fst ?rows" by (simp add: occupied_granules_def assms(2))
  have "mset (map fst (sort_key fst ?rows)) = mset (map fst owners)" unfolding k [symmetric] by (simp only: mset_map mset_sort)
  then have "distinct (map fst (sort_key fst ?rows))" using d mset_eq_imp_distinct_iff by blast
  then have "sorted_wrt (<) (map fst (occupied_granules d e))"
    using sorted_sort_key [of fst ?rows] unfolding o by (simp add: strict_sorted_iff)
  moreover have "(slot, c, g) \<in> set (occupied_granules d e) \<longleftrightarrow> lookup_granule_chunk d slot e = Some (c, g)"
  proof -
    have "(slot, c, g) \<in> set ?rows \<longleftrightarrow> (\<exists>owner. (slot, owner) \<in> set owners \<and> go_chunk_id owner = c \<and> go_generation owner = g)" by force
    also have "\<dots> \<longleftrightarrow> (\<exists>owner. map_of owners slot = Some owner \<and> go_chunk_id owner = c \<and> go_generation owner = g)"
      by (simp add: map_of_eq_Some_iff [OF d])
    finally show ?thesis by (simp add: o lookup_granule_chunk_def assms(2))
  qed
  ultimately show ?thesis
    using assms(2)
    by (auto simp: lookup_granule_chunk_def update_inverse_def clear_granule_inverse_def fenced_owner_def Let_def
        AList.update_conv' AList.delete_conv' split: option.split)
qed

theorem occupied_granules_exact_witness:
  "\<exists>e owners. inverse_ok e \<and> map_of (ke_inverse e) 3 = Some owners
    \<and> lookup_granule_chunk 3 7 (update_inverse 3 7 sample_id 2 e) = Some (sample_id, 2)"
proof -
  have i: "inverse_ok (sample_engine [3])" "map_of (ke_inverse (sample_engine [3])) 3 = Some []"
    by (simp_all add: inverse_ok_def sample_engine_def)
  have "lookup_granule_chunk 3 7 (sample_engine [3]) = None" by (simp add: lookup_granule_chunk_def sample_engine_def)
  with occupied_granules_exact [OF i, of 7 sample_id 2 7 sample_id 2] i show ?thesis by (intro exI [of _ "sample_engine [3]"]) auto
qed

end
