(* ===== verification/Kp2_Codec.thy ===== *)
theory Kp2_Codec
  imports Kix_Types
begin

text \<open>
  The KP2 wire format (\<open>poc/kp2/src/lib.rs\<close>): packed write requests, read queries, read responses and
  write replies, each a common header, a table of fixed-width descriptors and a payload region.

  Positions are natural numbers. \<open>usize\<close> has 64 bits, a body is shorter than \<open>2 ^ 63\<close> bytes and a table
  shorter than \<open>2 ^ 40\<close>, so the cursor additions cannot overflow; where the source uses a checked
  addition and then compares with the body's length, both failures give the same error and the
  comparison alone is modelled. A \<open>String\<close> is the list of its UTF-8 bytes. The \<open>ChunkId\<close> of this crate
  wraps \<open>[u8; 32]\<close> like the one of KIX, and the same type is used.
\<close>

section \<open>Messages\<close>

definition KP2_VERSION :: u16 where "KP2_VERSION = 1"
definition MAX_PACK_PAYLOAD_BYTES :: nat where "MAX_PACK_PAYLOAD_BYTES = 16 * 1024 * 1024"
definition FLAG_QUERY_RANGED :: u16 where "FLAG_QUERY_RANGED = 1"
definition MAGIC_WRITE :: "u8 list" where "MAGIC_WRITE = [0x4B, 0x50, 0x32, 0x57]"
definition MAGIC_QUERY :: "u8 list" where "MAGIC_QUERY = [0x4B, 0x50, 0x32, 0x51]"
definition MAGIC_READ :: "u8 list" where "MAGIC_READ = [0x4B, 0x50, 0x32, 0x52]"
definition MAGIC_ACK :: "u8 list" where "MAGIC_ACK = [0x4B, 0x50, 0x32, 0x41]"
definition COMMON_HEADER_BYTES :: nat where "COMMON_HEADER_BYTES = 24"
definition WRITE_ENTRY_BYTES :: nat where "WRITE_ENTRY_BYTES = 58"
definition QUERY_ENTRY_BYTES :: nat where "QUERY_ENTRY_BYTES = 32"
definition QUERY_ENTRY_RANGED_BYTES :: nat where "QUERY_ENTRY_RANGED_BYTES = 48"
definition READ_ENTRY_BYTES :: nat where "READ_ENTRY_BYTES = 80"
definition ACK_ENTRY_BYTES :: nat where "ACK_ENTRY_BYTES = 80"
definition GRANULE_ALLOCATE :: u64 where "GRANULE_ALLOCATE = 0xFFFFFFFFFFFFFFFF"

lemmas kp2_consts [simp] =
  MAX_PACK_PAYLOAD_BYTES_def COMMON_HEADER_BYTES_def WRITE_ENTRY_BYTES_def QUERY_ENTRY_BYTES_def
  QUERY_ENTRY_RANGED_BYTES_def READ_ENTRY_BYTES_def ACK_ENTRY_BYTES_def

datatype LocationKindCode = LkNone | LkExtent | LkPackedContainer

fun location_code :: "LocationKindCode \<Rightarrow> u16" where
  "location_code LkNone = 0"
| "location_code LkExtent = 1"
| "location_code LkPackedContainer = 2"

definition location_kind_from_u16 :: "u16 \<Rightarrow> LocationKindCode io_result" where
  "location_kind_from_u16 v =
     (if v = 0 then Inr LkNone else if v = 1 then Inr LkExtent else if v = 2 then Inr LkPackedContainer else Inl InvalidData)"

definition location_kind_from_name :: "string \<Rightarrow> LocationKindCode io_result" where
  "location_kind_from_name v =
     (if v = ''extent'' then Inr LkExtent else if v = ''packed-container'' then Inr LkPackedContainer
      else if v = ''none'' then Inr LkNone else Inl InvalidData)"

fun location_kind_as_name :: "LocationKindCode \<Rightarrow> string" where
  "location_kind_as_name LkNone = ''none''"
| "location_kind_as_name LkExtent = ''extent''"
| "location_kind_as_name LkPackedContainer = ''packed-container''"

record WriteIdentity =
  wi_object_id :: u32
  wi_object_version :: u16
  wi_stripe :: u16
  wi_frag :: u16

record PackedWriteEntry =
  we_chunk_id :: ChunkId
  we_slot_index :: u64
  we_generation :: u32
  we_identity :: WriteIdentity
  we_payload :: "u8 list"

record ChunkRange =
  cr_offset :: u64
  cr_length :: u32

record PackedReadQuery =
  rq_chunk_ids :: "ChunkId list"
  rq_ranges :: "ChunkRange list option"

record PackedReadLocation =
  pl_drive_id :: u16
  pl_location_kind :: LocationKindCode
  pl_physical_offset :: u64
  pl_logical_length :: u32
  pl_stored_length :: u32
  pl_generation :: u32
  pl_checksum :: u32
  pl_slot_index :: u64

type_synonym PackedWriteLocation = PackedReadLocation

record PackedReadEntry =
  re_chunk_id :: ChunkId
  re_status_code :: u16
  re_location :: "PackedReadLocation option"
  re_payload :: "u8 list"

record PackedWriteReplyEntry =
  ra_chunk_id :: ChunkId
  ra_slot_index :: u64
  ra_requested_generation :: u32
  ra_status_code :: u16
  ra_location :: "PackedWriteLocation option"
  ra_error :: "u8 list option"

definition reply_success :: "PackedWriteReplyEntry \<Rightarrow> bool" where
  "reply_success e \<longleftrightarrow> 200 \<le> ra_status_code e \<and> ra_status_code e < 300"

section \<open>Fragment ids\<close>

text \<open>The hash is SHA-256 of another crate, the parameter \<open>sha256\<close>; what is hashed is written out.\<close>

definition CHUNK_ID_DOMAIN :: "u8 list" where
  "CHUNK_ID_DOMAIN = map (\<lambda>c. of_nat (of_char c)) ''keinfs/chunk-id/v1''"

definition chunk_id_preimage :: "u8 list \<Rightarrow> u32 \<Rightarrow> u16 \<Rightarrow> u16 \<Rightarrow> u16 \<Rightarrow> u8 list" where
  "chunk_id_preimage salt object_id object_version stripe frag =
     CHUNK_ID_DOMAIN @ le_bytes 4 (of_nat (length salt) :: u32) @ salt @ le_bytes 4 object_id
     @ le_bytes 2 object_version @ le_bytes 2 stripe @ le_bytes 2 frag"

definition for_fragment :: "(u8 list \<Rightarrow> u8 list) \<Rightarrow> u8 list \<Rightarrow> u32 \<Rightarrow> u16 \<Rightarrow> u16 \<Rightarrow> u16 \<Rightarrow> ChunkId" where
  "for_fragment sha256 salt object_id object_version stripe frag =
     ChunkId (sha256 (chunk_id_preimage salt object_id object_version stripe frag))"

definition for_identity :: "(u8 list \<Rightarrow> u8 list) \<Rightarrow> u8 list \<Rightarrow> WriteIdentity \<Rightarrow> ChunkId" where
  "for_identity sha256 salt i = for_fragment sha256 salt (wi_object_id i) (wi_object_version i) (wi_stripe i) (wi_frag i)"

section \<open>Reading fields\<close>

definition get_range :: "u8 list \<Rightarrow> nat \<Rightarrow> nat \<Rightarrow> u8 list io_result" where
  "get_range body off n = (if off + n \<le> length body then Inr (subslice body off (off + n)) else Inl InvalidData)"

definition read_chunk_id :: "u8 list \<Rightarrow> nat \<Rightarrow> ChunkId io_result" where
  "read_chunk_id body off = bind_r (get_range body off 32) (\<lambda>s. Inr (ChunkId s))"

definition read_u16 :: "u8 list \<Rightarrow> nat \<Rightarrow> u16 io_result" where
  "read_u16 body off = bind_r (get_range body off 2) (\<lambda>s. Inr (le_word s))"

definition read_u32 :: "u8 list \<Rightarrow> nat \<Rightarrow> u32 io_result" where
  "read_u32 body off = bind_r (get_range body off 4) (\<lambda>s. Inr (le_word s))"

definition read_u64 :: "u8 list \<Rightarrow> nat \<Rightarrow> u64 io_result" where
  "read_u64 body off = bind_r (get_range body off 8) (\<lambda>s. Inr (le_word s))"

section \<open>Common header\<close>

definition body_too_large :: "nat \<Rightarrow> unit io_result" where
  "body_too_large bytes = (if bytes > MAX_PACK_PAYLOAD_BYTES then Inl InvalidInput else Inr ())"

definition encode_common_header_with_flags :: "u8 list \<Rightarrow> u16 \<Rightarrow> u32 \<Rightarrow> u32 \<Rightarrow> u32 \<Rightarrow> u8 list" where
  "encode_common_header_with_flags magic flags chunk_count total_payload_bytes entry_table_bytes =
     magic @ le_bytes 2 KP2_VERSION @ le_bytes 2 flags @ le_bytes 4 chunk_count @ le_bytes 4 total_payload_bytes
     @ le_bytes 4 entry_table_bytes @ le_bytes 4 (0 :: u32)"

definition encode_common_header :: "u8 list \<Rightarrow> u32 \<Rightarrow> u32 \<Rightarrow> u32 \<Rightarrow> u8 list" where
  "encode_common_header magic chunk_count total_payload_bytes entry_table_bytes =
     encode_common_header_with_flags magic 0 chunk_count total_payload_bytes entry_table_bytes"

record CommonHeader =
  ch_flags :: u16
  ch_chunk_count :: u32
  ch_total_payload_bytes :: u32
  ch_entry_table_bytes :: u32

definition decode_common_header_with_flags :: "u8 list \<Rightarrow> u8 list \<Rightarrow> u16 \<Rightarrow> CommonHeader io_result" where
  "decode_common_header_with_flags body expected_magic allowed_flags =
     (if length body < COMMON_HEADER_BYTES then Inl InvalidData
      else if subslice body 0 4 \<noteq> expected_magic then Inl InvalidData
      else
        bind_r (read_u16 body 4) (\<lambda>version.
        if version \<noteq> KP2_VERSION then Inl InvalidInput
        else
          bind_r (read_u16 body 6) (\<lambda>flags.
          if flags AND NOT allowed_flags \<noteq> 0 then Inl InvalidData
          else
            bind_r (read_u32 body 8) (\<lambda>chunk_count.
            if chunk_count = 0 then Inl InvalidInput
            else
              bind_r (read_u32 body 12) (\<lambda>total_payload_bytes.
              bind_r (body_too_large (unat total_payload_bytes)) (\<lambda>_.
              bind_r (read_u32 body 16) (\<lambda>entry_table_bytes.
              bind_r (read_u32 body 20) (\<lambda>reserved.
              if reserved \<noteq> 0 then Inl InvalidData
              else Inr \<lparr>ch_flags = flags, ch_chunk_count = chunk_count, ch_total_payload_bytes = total_payload_bytes,
                        ch_entry_table_bytes = entry_table_bytes\<rparr>))))))))"

definition decode_common_header :: "u8 list \<Rightarrow> u8 list \<Rightarrow> CommonHeader io_result" where
  "decode_common_header body expected_magic = decode_common_header_with_flags body expected_magic 0"

section \<open>Decoding a packed body\<close>

text \<open>
  The three decoders of bodies with a payload region share their shape: header, size of the table, the
  loop over the descriptors with a cursor into the payload region, and the two checks at the end. A
  descriptor gives the length of its payload run and the entry built from that run.
\<close>

fun decode_entries :: "(nat \<Rightarrow> (nat \<times> (u8 list \<Rightarrow> 'e io_result)) io_result) \<Rightarrow> u8 list \<Rightarrow> nat list \<Rightarrow> nat \<Rightarrow> ('e list \<times> nat) io_result" where
  "decode_entries descriptor body [] payload_cursor = Inr ([], payload_cursor)"
| "decode_entries descriptor body (index # rest) payload_cursor =
     bind_r (descriptor index) (\<lambda>(payload_bytes, build).
     let payload_end = payload_cursor + payload_bytes in
     if payload_end > length body then Inl InvalidData
     else
       bind_r (build (subslice body payload_cursor payload_end)) (\<lambda>entry.
       bind_r (decode_entries descriptor body rest payload_end) (\<lambda>(entries, cursor).
       Inr (entry # entries, cursor))))"

definition decode_packed :: "u8 list \<Rightarrow> nat \<Rightarrow> (u8 list \<Rightarrow> nat \<Rightarrow> (nat \<times> (u8 list \<Rightarrow> 'e io_result)) io_result) \<Rightarrow> u8 list \<Rightarrow> 'e list io_result" where
  "decode_packed magic entry_bytes descriptor body =
     bind_r (decode_common_header body magic) (\<lambda>header.
     let entry_table_bytes = unat (ch_entry_table_bytes header);
         count = unat (ch_chunk_count header)
     in if entry_table_bytes \<noteq> count * entry_bytes then Inl InvalidData
        else
          let payload_region_offset = COMMON_HEADER_BYTES + entry_table_bytes in
          if length body < payload_region_offset then Inl InvalidData
          else
            bind_r (decode_entries (\<lambda>index. descriptor body (COMMON_HEADER_BYTES + index * entry_bytes)) body [0..<count] payload_region_offset)
              (\<lambda>(entries, payload_cursor).
              if payload_cursor - payload_region_offset \<noteq> unat (ch_total_payload_bytes header) then Inl InvalidData
              else if payload_cursor \<noteq> length body then Inl InvalidData
              else Inr entries))"

section \<open>Write requests\<close>

definition encoded_write_request_len :: "nat \<Rightarrow> nat \<Rightarrow> nat io_result" where
  "encoded_write_request_len chunk_count total_payload_bytes =
     bind_r (body_too_large total_payload_bytes) (\<lambda>_.
     let entry_table_bytes = chunk_count * WRITE_ENTRY_BYTES in
     if entry_table_bytes \<ge> 2 ^ 64 then Inl InvalidInput
     else if COMMON_HEADER_BYTES + entry_table_bytes + total_payload_bytes \<ge> 2 ^ 64 then Inl InvalidInput
     else Inr (COMMON_HEADER_BYTES + entry_table_bytes + total_payload_bytes))"

definition max_encoded_write_request_bytes :: "nat \<Rightarrow> nat io_result" where
  "max_encoded_write_request_bytes min_payload_bytes =
     (if min_payload_bytes = 0 then Inl InvalidInput
      else
        let max_entry_count = (MAX_PACK_PAYLOAD_BYTES + min_payload_bytes - 1) div min_payload_bytes in
        encoded_write_request_len max_entry_count MAX_PACK_PAYLOAD_BYTES)"

definition encode_write_entry :: "PackedWriteEntry \<Rightarrow> u8 list" where
  "encode_write_entry e =
     chunk_bytes (we_chunk_id e) @ le_bytes 8 (we_slot_index e) @ le_bytes 4 (we_generation e)
     @ le_bytes 4 (of_nat (length (we_payload e)) :: u32) @ le_bytes 4 (wi_object_id (we_identity e))
     @ le_bytes 2 (wi_object_version (we_identity e)) @ le_bytes 2 (wi_stripe (we_identity e)) @ le_bytes 2 (wi_frag (we_identity e))"

definition encode_write_request_header :: "PackedWriteEntry list \<Rightarrow> u8 list io_result" where
  "encode_write_request_header entries =
     (if entries = [] then Inl InvalidInput
      else
        let total_payload_bytes = sum_list (map (\<lambda>e. length (we_payload e)) entries) in
        bind_r (body_too_large total_payload_bytes) (\<lambda>_.
        let entry_table_bytes = length entries * WRITE_ENTRY_BYTES in
        if \<exists>e \<in> set entries. length (we_payload e) \<ge> 2 ^ 32 then Inl InvalidInput
        else Inr (encode_common_header MAGIC_WRITE (of_nat (length entries)) (of_nat total_payload_bytes) (of_nat entry_table_bytes)
                  @ concat (map encode_write_entry entries))))"

definition encode_write_request :: "PackedWriteEntry list \<Rightarrow> u8 list io_result" where
  "encode_write_request entries =
     (let total_payload_bytes = sum_list (map (\<lambda>e. length (we_payload e)) entries) in
      bind_r (encoded_write_request_len (length entries) total_payload_bytes) (\<lambda>_.
      bind_r (encode_write_request_header entries) (\<lambda>out.
      Inr (out @ concat (map we_payload entries)))))"

definition write_descriptor :: "u8 list \<Rightarrow> nat \<Rightarrow> (nat \<times> (u8 list \<Rightarrow> PackedWriteEntry io_result)) io_result" where
  "write_descriptor body base =
     bind_r (read_chunk_id body base) (\<lambda>chunk_id.
     bind_r (read_u64 body (base + 32)) (\<lambda>slot_index.
     bind_r (read_u32 body (base + 40)) (\<lambda>gen.
     bind_r (read_u32 body (base + 44)) (\<lambda>payload_bytes.
     bind_r (read_u32 body (base + 48)) (\<lambda>object_id.
     bind_r (read_u16 body (base + 52)) (\<lambda>object_version.
     bind_r (read_u16 body (base + 54)) (\<lambda>stripe.
     bind_r (read_u16 body (base + 56)) (\<lambda>frag.
     Inr (unat payload_bytes, \<lambda>payload. Inr
       \<lparr>we_chunk_id = chunk_id, we_slot_index = slot_index, we_generation = gen,
        we_identity = \<lparr>wi_object_id = object_id, wi_object_version = object_version, wi_stripe = stripe, wi_frag = frag\<rparr>,
        we_payload = payload\<rparr>)))))))))"

definition decode_write_request :: "u8 list \<Rightarrow> PackedWriteEntry list io_result" where
  "decode_write_request body = decode_packed MAGIC_WRITE WRITE_ENTRY_BYTES write_descriptor body"

section \<open>Read queries\<close>

definition encode_query_entry :: "ChunkId \<Rightarrow> ChunkRange option \<Rightarrow> u8 list" where
  "encode_query_entry c rng =
     chunk_bytes c @ (case rng of None \<Rightarrow> [] | Some r \<Rightarrow> le_bytes 8 (cr_offset r) @ le_bytes 4 (cr_length r) @ le_bytes 4 (0 :: u32))"

definition encode_read_query :: "PackedReadQuery \<Rightarrow> u8 list io_result" where
  "encode_read_query q =
     (let n = length (rq_chunk_ids q) in
      if rq_chunk_ids q = [] then Inl InvalidInput
      else
        bind_r (case rq_ranges q of
            Some ranges \<Rightarrow> if length ranges \<noteq> n then Inl InvalidInput else Inr True
          | None \<Rightarrow> Inr False) (\<lambda>ranged.
        let entry_bytes = (if ranged then QUERY_ENTRY_RANGED_BYTES else QUERY_ENTRY_BYTES);
            entry_table_bytes = n * entry_bytes
        in if entry_table_bytes \<ge> 2 ^ 64 then Inl InvalidInput
           else
             let flags = (if ranged then FLAG_QUERY_RANGED else 0);
                 ranges = (case rq_ranges q of Some rs \<Rightarrow> map Some rs | None \<Rightarrow> replicate n None)
             in Inr (encode_common_header_with_flags MAGIC_QUERY flags (of_nat n) 0 (of_nat entry_table_bytes)
                     @ concat (map2 encode_query_entry (rq_chunk_ids q) ranges))))"

fun decode_query_entries :: "u8 list \<Rightarrow> bool \<Rightarrow> nat list \<Rightarrow> (ChunkId list \<times> ChunkRange list) io_result" where
  "decode_query_entries body ranged [] = Inr ([], [])"
| "decode_query_entries body ranged (index # rest) =
     (let base = COMMON_HEADER_BYTES + index * (if ranged then QUERY_ENTRY_RANGED_BYTES else QUERY_ENTRY_BYTES) in
      bind_r (read_chunk_id body base) (\<lambda>chunk_id.
      bind_r (if ranged
              then bind_r (read_u64 body (base + 32)) (\<lambda>off.
                   bind_r (read_u32 body (base + 40)) (\<lambda>len. Inr [\<lparr>cr_offset = off, cr_length = len\<rparr>]))
              else Inr []) (\<lambda>rng.
      bind_r (decode_query_entries body ranged rest) (\<lambda>(chunk_ids, ranges).
      Inr (chunk_id # chunk_ids, rng @ ranges)))))"

definition decode_read_query :: "u8 list \<Rightarrow> PackedReadQuery io_result" where
  "decode_read_query body =
     bind_r (decode_common_header_with_flags body MAGIC_QUERY FLAG_QUERY_RANGED) (\<lambda>header.
     let ranged = (ch_flags header AND FLAG_QUERY_RANGED \<noteq> 0);
         entry_bytes = (if ranged then QUERY_ENTRY_RANGED_BYTES else QUERY_ENTRY_BYTES);
         entry_table_bytes = unat (ch_entry_table_bytes header)
     in if entry_table_bytes \<noteq> unat (ch_chunk_count header) * entry_bytes then Inl InvalidData
        else if length body \<noteq> COMMON_HEADER_BYTES + entry_table_bytes then Inl InvalidData
        else
          bind_r (decode_query_entries body ranged [0..<unat (ch_chunk_count header)]) (\<lambda>(chunk_ids, ranges).
          Inr \<lparr>rq_chunk_ids = chunk_ids, rq_ranges = (if ranged then Some ranges else None)\<rparr>))"

section \<open>Read responses and write replies\<close>

text \<open>The descriptor up to the last two fields, which the two messages use differently.\<close>

definition encode_location_fields :: "ChunkId \<Rightarrow> u16 \<Rightarrow> PackedReadLocation option \<Rightarrow> u64 \<Rightarrow> u8 list" where
  "encode_location_fields c status loc no_location_slot =
     chunk_bytes c @ le_bytes 2 status
     @ (case loc of
          Some l \<Rightarrow>
            le_bytes 2 (location_code (pl_location_kind l)) @ le_bytes 2 (pl_drive_id l) @ le_bytes 2 (0 :: u16)
            @ le_bytes 8 (pl_physical_offset l) @ le_bytes 4 (pl_logical_length l) @ le_bytes 4 (pl_stored_length l)
            @ le_bytes 4 (pl_generation l) @ le_bytes 4 (pl_checksum l) @ le_bytes 8 (pl_slot_index l)
        | None \<Rightarrow>
            le_bytes 2 (location_code LkNone) @ le_bytes 2 (0 :: u16) @ le_bytes 2 (0 :: u16)
            @ le_bytes 8 (0 :: u64) @ le_bytes 4 (0 :: u32) @ le_bytes 4 (0 :: u32)
            @ le_bytes 4 (0 :: u32) @ le_bytes 4 (0 :: u32) @ le_bytes 8 no_location_slot)"

definition encode_read_entry :: "PackedReadEntry \<Rightarrow> u8 list" where
  "encode_read_entry e =
     encode_location_fields (re_chunk_id e) (re_status_code e) (re_location e) 0
     @ le_bytes 4 (of_nat (length (re_payload e)) :: u32) @ le_bytes 4 (0 :: u32)"

definition encode_read_response :: "PackedReadEntry list \<Rightarrow> u8 list io_result" where
  "encode_read_response entries =
     (if entries = [] then Inl InvalidInput
      else
        let total_payload_bytes = sum_list (map (\<lambda>e. length (re_payload e)) entries) in
        bind_r (body_too_large total_payload_bytes) (\<lambda>_.
        let entry_table_bytes = length entries * READ_ENTRY_BYTES in
        if entry_table_bytes \<ge> 2 ^ 64 then Inl InvalidInput
        else Inr (encode_common_header MAGIC_READ (of_nat (length entries)) (of_nat total_payload_bytes) (of_nat entry_table_bytes)
                  @ concat (map encode_read_entry entries) @ concat (map re_payload entries))))"

definition location_of_fields :: "LocationKindCode \<Rightarrow> PackedReadLocation \<Rightarrow> PackedReadLocation option" where
  "location_of_fields kind l = (if kind = LkNone then None else Some l)"

text \<open>The fields from the status code to the slot index; the reserved field must be zero.\<close>

definition read_location_fields :: "u8 list \<Rightarrow> nat \<Rightarrow> (ChunkId \<times> u16 \<times> PackedReadLocation) io_result" where
  "read_location_fields body base =
     bind_r (read_chunk_id body base) (\<lambda>chunk_id.
     bind_r (read_u16 body (base + 32)) (\<lambda>status_code.
     bind_r (bind_r (read_u16 body (base + 34)) location_kind_from_u16) (\<lambda>kind.
     bind_r (read_u16 body (base + 36)) (\<lambda>drive.
     bind_r (read_u16 body (base + 38)) (\<lambda>reserved.
     if reserved \<noteq> 0 then Inl InvalidData
     else
       bind_r (read_u64 body (base + 40)) (\<lambda>off.
       bind_r (read_u32 body (base + 48)) (\<lambda>logical.
       bind_r (read_u32 body (base + 52)) (\<lambda>stored.
       bind_r (read_u32 body (base + 56)) (\<lambda>gen.
       bind_r (read_u32 body (base + 60)) (\<lambda>csum.
       bind_r (read_u64 body (base + 64)) (\<lambda>slot.
       Inr (chunk_id, status_code,
         \<lparr>pl_drive_id = drive, pl_location_kind = kind, pl_physical_offset = off, pl_logical_length = logical,
          pl_stored_length = stored, pl_generation = gen, pl_checksum = csum, pl_slot_index = slot\<rparr>))))))))))))"

definition read_descriptor :: "u8 list \<Rightarrow> nat \<Rightarrow> (nat \<times> (u8 list \<Rightarrow> PackedReadEntry io_result)) io_result" where
  "read_descriptor body base =
     bind_r (read_location_fields body base) (\<lambda>(chunk_id, status_code, l).
     bind_r (read_u32 body (base + 72)) (\<lambda>payload_bytes.
     bind_r (read_u32 body (base + 76)) (\<lambda>reserved_2.
     if reserved_2 \<noteq> 0 then Inl InvalidData
     else Inr (unat payload_bytes, \<lambda>payload. Inr
       \<lparr>re_chunk_id = chunk_id, re_status_code = status_code, re_location = location_of_fields (pl_location_kind l) l,
        re_payload = payload\<rparr>))))"

definition decode_read_response :: "u8 list \<Rightarrow> PackedReadEntry list io_result" where
  "decode_read_response body = decode_packed MAGIC_READ READ_ENTRY_BYTES read_descriptor body"

definition error_bytes :: "PackedWriteReplyEntry \<Rightarrow> u8 list" where
  "error_bytes e = (case ra_error e of None \<Rightarrow> [] | Some s \<Rightarrow> s)"

definition encode_ack_entry :: "PackedWriteReplyEntry \<Rightarrow> u8 list" where
  "encode_ack_entry e =
     encode_location_fields (ra_chunk_id e) (ra_status_code e) (ra_location e) (ra_slot_index e)
     @ le_bytes 4 (ra_requested_generation e) @ le_bytes 4 (of_nat (length (error_bytes e)) :: u32)"

definition encode_write_reply :: "PackedWriteReplyEntry list \<Rightarrow> u8 list io_result" where
  "encode_write_reply entries =
     (if entries = [] then Inl InvalidInput
      else
        let total_error_bytes = sum_list (map (\<lambda>e. length (error_bytes e)) entries) in
        bind_r (body_too_large total_error_bytes) (\<lambda>_.
        let entry_table_bytes = length entries * ACK_ENTRY_BYTES in
        if entry_table_bytes \<ge> 2 ^ 64 then Inl InvalidInput
        else Inr (encode_common_header MAGIC_ACK (of_nat (length entries)) (of_nat total_error_bytes) (of_nat entry_table_bytes)
                  @ concat (map encode_ack_entry entries) @ concat (map error_bytes entries))))"

text \<open>\<open>std::str::from_utf8\<close>: the well-formed byte sequences of the Unicode standard.\<close>

definition utf8_tail :: "u8 \<Rightarrow> bool" where
  "utf8_tail b \<longleftrightarrow> 0x80 \<le> b \<and> b \<le> 0xBF"

fun is_utf8 :: "u8 list \<Rightarrow> bool" where
  "is_utf8 [] = True"
| "is_utf8 (a # bs) =
     (if a \<le> 0x7F then is_utf8 bs
      else case bs of
        [] \<Rightarrow> False
      | b # cs \<Rightarrow>
          if 0xC2 \<le> a \<and> a \<le> 0xDF then utf8_tail b \<and> is_utf8 cs
          else (case cs of
            [] \<Rightarrow> False
          | c # ds \<Rightarrow>
              if 0xE0 \<le> a \<and> a \<le> 0xEF then
                (if a = 0xE0 then 0xA0 \<le> b \<and> b \<le> 0xBF else if a = 0xED then 0x80 \<le> b \<and> b \<le> 0x9F else utf8_tail b)
                \<and> utf8_tail c \<and> is_utf8 ds
              else (case ds of
                [] \<Rightarrow> False
              | d # es \<Rightarrow>
                  0xF0 \<le> a \<and> a \<le> 0xF4
                  \<and> (if a = 0xF0 then 0x90 \<le> b \<and> b \<le> 0xBF else if a = 0xF4 then 0x80 \<le> b \<and> b \<le> 0x8F else utf8_tail b)
                  \<and> utf8_tail c \<and> utf8_tail d \<and> is_utf8 es)))"

definition ack_descriptor :: "u8 list \<Rightarrow> nat \<Rightarrow> (nat \<times> (u8 list \<Rightarrow> PackedWriteReplyEntry io_result)) io_result" where
  "ack_descriptor body base =
     bind_r (read_location_fields body base) (\<lambda>(chunk_id, status_code, l).
     bind_r (read_u32 body (base + 72)) (\<lambda>requested_generation.
     bind_r (read_u32 body (base + 76)) (\<lambda>len.
     Inr (unat len, \<lambda>text.
       bind_r (if len = 0 then Inr None else if is_utf8 text then Inr (Some text) else Inl InvalidData) (\<lambda>error.
       Inr \<lparr>ra_chunk_id = chunk_id, ra_slot_index = pl_slot_index l, ra_requested_generation = requested_generation,
            ra_status_code = status_code, ra_location = location_of_fields (pl_location_kind l) l, ra_error = error\<rparr>)))))"

definition decode_write_reply :: "u8 list \<Rightarrow> PackedWriteReplyEntry list io_result" where
  "decode_write_reply body = decode_packed MAGIC_ACK ACK_ENTRY_BYTES ack_descriptor body"

end
