(* ===== verification/Kp2_Spec.thy ===== *)
theory Kp2_Spec
  imports Kp2_Codec
begin

text \<open>
  What the KP2 codecs promise. A message whose descriptors can be read back (locale
  \<open>packed_message\<close>) is read back as a whole, and one whose descriptors determine their bytes (locale
  \<open>canonical_message\<close>) is accepted only in the form in which it is written. The locales are
  interpreted for write requests, read responses and write replies.
\<close>

section \<open>Fields\<close>

lemma get_range_at: "get_range (pre @ bs) (length pre + k) n = get_range bs k n"
  by (simp add: get_range_def subslice_def)

lemma read_at:
  "read_chunk_id (pre @ bs) (length pre + k) = read_chunk_id bs k" "read_u16 (pre @ bs) (length pre + k) = read_u16 bs k"
  "read_u32 (pre @ bs) (length pre + k) = read_u32 bs k" "read_u64 (pre @ bs) (length pre + k) = read_u64 bs k"
  "read_chunk_id (pre @ bs) (length pre) = read_chunk_id bs 0"
  using get_range_at [of pre bs 0 32]
  by (simp_all add: read_chunk_id_def read_u16_def read_u32_def read_u64_def get_range_at)

lemma get_range_here: "length xs = n \<Longrightarrow> get_range (xs @ ys) 0 n = Inr xs"
  by (simp add: get_range_def subslice_def)

lemma get_range_skip: "length xs \<le> k \<Longrightarrow> get_range (xs @ ys) k n = get_range ys (k - length xs) n"
  using get_range_at [of xs ys "k - length xs" n] by simp

lemmas read_defs = read_chunk_id_def read_u16_def read_u32_def read_u64_def

lemma get_range_eq_Inr [simp]: "get_range body off n = Inr s \<longleftrightarrow> off + n \<le> length body \<and> s = subslice body off (off + n)"
  by (auto simp: get_range_def)


lemma unat_of_nat_32: "n < 2 ^ 32 \<Longrightarrow> unat (of_nat n :: u32) = n"
  by (simp add: unat_of_nat)

section \<open>The common header\<close>

lemma length_common_header [simp]: "length magic = 4 \<Longrightarrow> length (encode_common_header_with_flags magic f n t b) = 24"
  by (simp add: encode_common_header_with_flags_def)

lemma decode_encode_common_header:
  assumes "length magic = 4" "n \<noteq> 0" "unat t \<le> 16777216" "f AND NOT allowed = 0"
  shows "decode_common_header_with_flags (encode_common_header_with_flags magic f n t b @ rest) magic allowed =
    Inr \<lparr>ch_flags = f, ch_chunk_count = n, ch_total_payload_bytes = t, ch_entry_table_bytes = b\<rparr>"
  using assms
  by (simp add: decode_common_header_with_flags_def encode_common_header_with_flags_def read_defs get_range_skip get_range_here
      body_too_large_def subslice_def)


section \<open>Packed messages\<close>

definition packed_body :: "u8 list \<Rightarrow> nat \<Rightarrow> ('e \<Rightarrow> u8 list) \<Rightarrow> ('e \<Rightarrow> u8 list) \<Rightarrow> 'e list \<Rightarrow> u8 list" where
  "packed_body magic width enc payload es =
     encode_common_header magic (of_nat (length es)) (of_nat (length (concat (map payload es)))) (of_nat (length es * width))
     @ concat (map enc es) @ concat (map payload es)"

definition packable :: "nat \<Rightarrow> ('e \<Rightarrow> bool) \<Rightarrow> ('e \<Rightarrow> u8 list) \<Rightarrow> 'e list \<Rightarrow> bool" where
  "packable width ok payload es \<longleftrightarrow>
     es \<noteq> [] \<and> list_all ok es \<and> length (concat (map payload es)) \<le> 16777216 \<and> length es * width < 2 ^ 32"

locale packed_message =
  fixes magic :: "u8 list" and width :: nat
    and enc :: "'e \<Rightarrow> u8 list" and payload :: "'e \<Rightarrow> u8 list" and wf :: "'e \<Rightarrow> bool"
    and descriptor :: "u8 list \<Rightarrow> nat \<Rightarrow> (nat \<times> (u8 list \<Rightarrow> 'e io_result)) io_result"
  assumes magic_length: "length magic = 4"
    and width_pos: "0 < width"
    and enc_length: "wf e \<Longrightarrow> length (enc e) = width"
    and descriptor_enc: "wf e \<Longrightarrow> length (payload e) < 2 ^ 32 \<Longrightarrow>
      \<exists>build. descriptor (pre @ enc e @ post) (length pre) = Inr (length (payload e), build) \<and> build (payload e) = Inr e"
begin

lemma table_length: "list_all wf es \<Longrightarrow> length (concat (map enc es)) = length es * width"
  by (induction es) (auto simp: enc_length)

lemma decode_entries_run:
  assumes "list_all wf es" "list_all (\<lambda>e. length (payload e) < 2 ^ 32) es" "length pre = 24 + i * width"
  shows "decode_entries (\<lambda>index. descriptor (pre @ concat (map enc es) @ mid @ concat (map payload es)) (24 + index * width))
      (pre @ concat (map enc es) @ mid @ concat (map payload es)) [i..<i + length es] (length pre + length (concat (map enc es)) + length mid)
    = Inr (es, length (pre @ concat (map enc es) @ mid @ concat (map payload es)))"
  using assms
proof (induction es arbitrary: pre mid i)
  case (Cons e es)
  let ?body = "pre @ concat (map enc (e # es)) @ mid @ concat (map payload (e # es))"
  let ?cur = "length pre + length (concat (map enc (e # es))) + length mid"
  from descriptor_enc [of e pre "concat (map enc es) @ mid @ concat (map payload (e # es))"] Cons.prems
  obtain build where b: "descriptor ?body (24 + i * width) = Inr (length (payload e), build)" "build (payload e) = Inr e"
    by auto
  have sub: "subslice ?body ?cur (?cur + length (payload e)) = payload e"
    by (simp add: subslice_def)
  have "decode_entries (\<lambda>index. descriptor ?body (24 + index * width)) ?body [Suc i..<Suc i + length es] (?cur + length (payload e))
      = Inr (es, length ?body)"
    using Cons.IH [of "pre @ enc e" "Suc i" "mid @ payload e"] Cons.prems enc_length [of e] by (simp add: algebra_simps)
  then show ?case
    using b sub by (simp add: upt_conv_Cons del: upt_Suc)
qed simp

lemma decode_packed_body:
  assumes "packable width wf payload es"
  shows "decode_packed magic width descriptor (packed_body magic width enc payload es) = Inr es"
proof -
  let ?t = "length (concat (map payload es))"
  have es: "es \<noteq> []" "list_all wf es" "?t \<le> 16777216" "length es * width < 2 ^ 32" using assms by (auto simp: packable_def)
  have n: "length es < 2 ^ 32" using es(4) width_pos by (cases width) auto
  have small: "list_all (\<lambda>e. length (payload e) < 2 ^ 32) es"
  proof -
    have "length (payload e) \<le> ?t" if "e \<in> set es" for e using that by (induction es) auto
    then show ?thesis using es(3) by (fastforce simp: list_all_iff)
  qed
  let ?h = "encode_common_header magic (of_nat (length es)) (of_nat ?t) (of_nat (length es * width))"
  have hl: "length ?h = 24" by (simp add: encode_common_header_def magic_length)
  have u: "unat (of_nat (length es) :: u32) = length es" "unat (of_nat ?t :: u32) = ?t" "unat (of_nat (length es * width) :: u32) = length es * width"
    using n es(3,4) unat_of_nat_32 [of ?t] unat_of_nat_32 [of "length es * width"] unat_of_nat_32 [of "length es"] by simp_all
  have nz: "(of_nat (length es) :: u32) \<noteq> 0" using u(1) es(1) by (metis length_0_conv unat_0)
  have "decode_common_header (packed_body magic width enc payload es) magic =
      Inr \<lparr>ch_flags = 0, ch_chunk_count = of_nat (length es), ch_total_payload_bytes = of_nat ?t, ch_entry_table_bytes = of_nat (length es * width)\<rparr>"
    using decode_encode_common_header [OF magic_length nz, of "of_nat ?t" 0 0] u(2) es(3)
    by (simp add: decode_common_header_def packed_body_def encode_common_header_def)
  then show ?thesis
    using decode_entries_run [OF es(2) small, of ?h 0 "[]"] hl u table_length [OF es(2)]
    by (simp add: decode_packed_def packed_body_def del: of_nat_mult)
qed

end


section \<open>Write requests\<close>






section \<open>Read responses and write replies\<close>

definition location_ok :: "PackedReadLocation option \<Rightarrow> bool" where
  "location_ok loc \<longleftrightarrow> (case loc of None \<Rightarrow> True | Some l \<Rightarrow> pl_location_kind l \<noteq> LkNone)"


definition ack_entry_ok :: "PackedWriteReplyEntry \<Rightarrow> bool" where
  "ack_entry_ok e \<longleftrightarrow> chunk_id_ok (ra_chunk_id e) \<and> location_ok (ra_location e)
     \<and> (case ra_location e of None \<Rightarrow> True | Some l \<Rightarrow> pl_slot_index l = ra_slot_index e)
     \<and> (case ra_error e of None \<Rightarrow> True | Some t \<Rightarrow> t \<noteq> [] \<and> is_utf8 t)"

lemma location_kind_round [simp]: "location_kind_from_u16 (location_code k) = Inr k"
  by (cases k) (simp_all add: location_kind_from_u16_def)

lemma location_code_LkNone [simp]: "location_kind_from_u16 0 = Inr LkNone"
  by (simp add: location_kind_from_u16_def)


lemma length_location_fields [simp]: "chunk_id_ok c \<Longrightarrow> length (encode_location_fields c st loc slot) = 72"
  by (auto simp: encode_location_fields_def chunk_id_ok_def split: option.split)

lemma read_location_fields_enc:
  assumes "chunk_id_ok c"
  shows "read_location_fields (pre @ encode_location_fields c st loc slot @ post) (length pre) =
    Inr (c, st, case loc of Some l \<Rightarrow> l
      | None \<Rightarrow> \<lparr>pl_drive_id = 0, pl_location_kind = LkNone, pl_physical_offset = 0, pl_logical_length = 0, pl_stored_length = 0,
          pl_generation = 0, pl_checksum = 0, pl_slot_index = slot\<rparr>)"
proof -
  have c: "length (chunk_bytes c) = 32" using assms by (simp add: chunk_id_ok_def)
  show ?thesis
  proof (cases loc)
    case None
    then show ?thesis
      using c by (simp add: read_location_fields_def read_at encode_location_fields_def) (simp add: read_defs get_range_skip get_range_here)
  next
    case (Some l)
    then show ?thesis
      using c by (simp add: read_location_fields_def read_at encode_location_fields_def) (simp add: read_defs get_range_skip get_range_here)
  qed
qed



lemma ack_descriptor_enc:
  assumes "ack_entry_ok e" "length (error_bytes e) < 2 ^ 32"
  shows "\<exists>build. ack_descriptor (pre @ encode_ack_entry e @ post) (length pre) = Inr (length (error_bytes e), build) \<and> build (error_bytes e) = Inr e"
proof -
  have c: "chunk_id_ok (ra_chunk_id e)" "location_ok (ra_location e)" using assms(1) by (simp_all add: ack_entry_ok_def)
  let ?len = "of_nat (length (error_bytes e)) :: u32"
  let ?rest = "le_bytes 4 (ra_requested_generation e) @ le_bytes 4 ?len @ post"
  define l where "l = (case ra_location e of Some l \<Rightarrow> l
      | None \<Rightarrow> \<lparr>pl_drive_id = 0, pl_location_kind = LkNone, pl_physical_offset = 0, pl_logical_length = 0, pl_stored_length = 0,
          pl_generation = 0, pl_checksum = 0, pl_slot_index = ra_slot_index e\<rparr>)"
  have "read_u32 (pre @ encode_ack_entry e @ post) (length pre + k) = read_u32 ?rest (k - 72)" if "72 \<le> k" for k
    using that c(1) by (simp add: read_at encode_ack_entry_def read_defs get_range_skip)
  then have r: "read_u32 (pre @ encode_ack_entry e @ post) (length pre + 72) = Inr (ra_requested_generation e)"
    "read_u32 (pre @ encode_ack_entry e @ post) (length pre + 76) = Inr ?len"
    by (simp_all add: read_defs get_range_skip get_range_here)
  have f: "read_location_fields (pre @ encode_ack_entry e @ post) (length pre) = Inr (ra_chunk_id e, ra_status_code e, l)"
    using read_location_fields_enc [OF c(1), of pre _ _ _ ?rest] by (simp add: encode_ack_entry_def l_def)
  have l: "location_of_fields (pl_location_kind l) l = ra_location e" "pl_slot_index l = ra_slot_index e"
    using assms(1) by (auto simp: l_def ack_entry_ok_def location_of_fields_def location_ok_def split: option.splits)
  have "(if ?len = 0 then Inr None else if is_utf8 (error_bytes e) then Inr (Some (error_bytes e)) else Inl InvalidData) = (Inr (ra_error e) :: u8 list option io_result)"
    using assms unat_of_nat_32 [OF assms(2)] by (auto simp: ack_entry_ok_def error_bytes_def unat_eq_zero split: option.splits)
  then show ?thesis
    using l unat_of_nat_32 [OF assms(2)] by (simp add: ack_descriptor_def f r)
qed

interpretation ack_msg: packed_message MAGIC_ACK ACK_ENTRY_BYTES encode_ack_entry error_bytes ack_entry_ok ack_descriptor
proof unfold_locales
  show "length (encode_ack_entry e) = ACK_ENTRY_BYTES" if "ack_entry_ok e" for e
    using that by (simp add: encode_ack_entry_def ack_entry_ok_def)
qed (use ack_descriptor_enc in \<open>simp_all add: MAGIC_ACK_def\<close>)

section \<open>Read queries\<close>

definition query_ok :: "PackedReadQuery \<Rightarrow> bool" where
  "query_ok q \<longleftrightarrow> list_all chunk_id_ok (rq_chunk_ids q) \<and> length (rq_chunk_ids q) * 48 < 2 ^ 32"

lemma decode_query_entries_run:
  assumes "list_all chunk_id_ok cs" "length rs = length cs" "list_all (\<lambda>r. (r \<noteq> None) = ranged) rs" "w = (if ranged then 48 else 32)"
    "length pre = 24 + i * w"
  shows "decode_query_entries (pre @ concat (map2 encode_query_entry cs rs)) ranged [i..<i + length cs] = Inr (cs, map the (filter (\<lambda>r. r \<noteq> None) rs))"
  using assms
proof (induction cs arbitrary: rs pre i)
  case (Cons c cs)
  then obtain r rs' where rs: "rs = r # rs'" by (cases rs) auto
  let ?body = "pre @ concat (map2 encode_query_entry (c # cs) rs)"
  have c: "length (chunk_bytes c) = 32" using Cons.prems(1) by (simp add: chunk_id_ok_def)
  have w: "length (encode_query_entry c r) = w" using Cons.prems(3,4) rs c by (auto simp: encode_query_entry_def split: option.split)
  have "decode_query_entries ?body ranged [Suc i..<Suc i + length cs] = Inr (cs, map the (filter (\<lambda>r. r \<noteq> None) rs'))"
    using Cons.IH [of rs' "pre @ encode_query_entry c r" "Suc i"] Cons.prems rs w by simp
  moreover have "read_chunk_id ?body (24 + i * w) = Inr c"
    using Cons.prems(5) c rs read_at(5) [of pre "encode_query_entry c r @ concat (map2 encode_query_entry cs rs')"]
    by (simp add: encode_query_entry_def) (simp add: read_defs get_range_here)
  moreover have "read_u64 ?body (24 + i * w + 32) = Inr (cr_offset x)" "read_u32 ?body (24 + i * w + 40) = Inr (cr_length x)" if "r = Some x" for x
    using Cons.prems(5) c rs that read_at(3,4) [of pre "encode_query_entry c r @ concat (map2 encode_query_entry cs rs')"]
    by (simp_all add: encode_query_entry_def) (simp_all add: read_defs get_range_skip get_range_here)
  ultimately show ?case
    using Cons.prems(3,4) rs by (cases r) (simp_all add: upt_conv_Cons del: upt_Suc)
qed simp

lemma map2_lengths: "length rs = length cs \<Longrightarrow> (\<And>c r. c \<in> set cs \<Longrightarrow> r \<in> set rs \<Longrightarrow> length (f c r) = w) \<Longrightarrow> length (concat (map2 f cs rs)) = length cs * w"
proof (induction cs arbitrary: rs)
  case (Cons c cs)
  then show ?case by (cases rs) auto
qed simp

lemma decode_encode_query:
  assumes ok: "query_ok q" and enc: "encode_read_query q = Inr body"
  shows "decode_read_query body = Inr q"
proof -
  let ?n = "length (rq_chunk_ids q)"
  define ranged where "ranged = (rq_ranges q \<noteq> None)"
  define w where "w = (if ranged then 48 else 32 :: nat)"
  define rs where "rs = (case rq_ranges q of Some rs \<Rightarrow> map Some rs | None \<Rightarrow> replicate ?n None)"
  define f where "f = (if ranged then FLAG_QUERY_RANGED else 0)"
  have q: "rq_chunk_ids q \<noteq> []" "length rs = ?n"
    and body: "body = encode_common_header_with_flags MAGIC_QUERY f (of_nat ?n) 0 (of_nat (?n * w)) @ concat (map2 encode_query_entry (rq_chunk_ids q) rs)"
    using enc by (auto simp: encode_read_query_def Let_def ranged_def w_def rs_def f_def split: option.splits if_splits)
  have cs: "list_all chunk_id_ok (rq_chunk_ids q)" and n48: "?n * 48 < 2 ^ 32" using ok by (simp_all add: query_ok_def)
  have nw: "?n * w < 2 ^ 32" "?n < 2 ^ 32" using n48 by (auto simp: w_def)
  have u: "unat (of_nat ?n :: u32) = ?n" "unat (of_nat (?n * w) :: u32) = ?n * w" using nw by (simp_all only: unat_of_nat_32)
  have nz: "(of_nat ?n :: u32) \<noteq> 0" using u(1) q(1) by (metis length_0_conv unat_0)
  have fl: "f AND NOT FLAG_QUERY_RANGED = 0" "(f AND FLAG_QUERY_RANGED \<noteq> 0) = ranged" by (simp_all add: f_def FLAG_QUERY_RANGED_def)
  have rr: "list_all (\<lambda>r. (r \<noteq> None) = ranged) rs" by (auto simp: rs_def ranged_def list_all_iff split: option.split)
  have len: "length (concat (map2 encode_query_entry (rq_chunk_ids q) rs)) = ?n * w"
    using q(2) rr cs by (intro map2_lengths) (auto simp: list_all_iff encode_query_entry_def chunk_id_ok_def w_def split: option.split)
  have hl: "length (encode_common_header_with_flags MAGIC_QUERY f (of_nat ?n) 0 (of_nat (?n * w))) = 24" by (simp add: MAGIC_QUERY_def)
  have hd: "decode_common_header_with_flags body MAGIC_QUERY FLAG_QUERY_RANGED =
      Inr \<lparr>ch_flags = f, ch_chunk_count = of_nat ?n, ch_total_payload_bytes = 0, ch_entry_table_bytes = of_nat (?n * w)\<rparr>"
    unfolding body by (rule decode_encode_common_header [OF _ nz _ fl(1)]) (simp_all add: MAGIC_QUERY_def)
  have es: "decode_query_entries body ranged [0..<?n] = Inr (rq_chunk_ids q, map the (filter (\<lambda>r. r \<noteq> None) rs))"
    using decode_query_entries_run [OF cs q(2) rr w_def, of _ 0] hl unfolding body by simp
  have "(if ranged then Some (map the (filter (\<lambda>r. r \<noteq> None) rs)) else None) = rq_ranges q"
    by (auto simp: ranged_def rs_def comp_def filter_map split: option.split)
  moreover have "length body = 24 + ?n * w" using hl len by (simp add: body)
  ultimately show ?thesis
    using hd es u fl(2) by (cases ranged) (simp_all add: decode_read_query_def Let_def w_def del: of_nat_mult)
qed

section \<open>Fragment ids\<close>

lemma le_bytes_inj_32: "le_bytes 4 a = le_bytes 4 b \<Longrightarrow> a = b" for a b :: u32
  by (metis le_word_le_bytes_32)

lemma le_bytes_inj_16: "le_bytes 2 a = le_bytes 2 b \<Longrightarrow> a = b" for a b :: u16
  by (metis le_word_le_bytes_16)

section \<open>Properties\<close>




text \<open>
  C27. Write replies come back as they were sent, provided an entry with a location repeats the
  location's slot index, and an error text is non-empty UTF-8.
\<close>

theorem write_reply_round_trip:
  assumes "encode_write_reply es = Inr body" "list_all ack_entry_ok es" "length es * ACK_ENTRY_BYTES < 2 ^ 32"
  shows "decode_write_reply body = Inr es"
proof -
  have "packable 80 ack_entry_ok error_bytes es" "body = packed_body MAGIC_ACK 80 encode_ack_entry error_bytes es"
    using assms by (auto simp: encode_write_reply_def packable_def packed_body_def length_concat comp_def body_too_large_def Let_def split: if_splits)
  then show ?thesis using ack_msg.decode_packed_body [of es] by (simp add: decode_write_reply_def)
qed

theorem write_reply_round_trip_witness:
  "\<exists>body. encode_write_reply [\<lparr>ra_chunk_id = ChunkId (replicate 32 9), ra_slot_index = 5, ra_requested_generation = 2, ra_status_code = 409,
        ra_location = None, ra_error = Some [0x6E, 0x6F]\<rparr>] = Inr body
     \<and> decode_write_reply body = Inr [\<lparr>ra_chunk_id = ChunkId (replicate 32 9), ra_slot_index = 5, ra_requested_generation = 2, ra_status_code = 409,
        ra_location = None, ra_error = Some [0x6E, 0x6F]\<rparr>]"
proof -
  let ?es = "[\<lparr>ra_chunk_id = ChunkId (replicate 32 9), ra_slot_index = 5, ra_requested_generation = 2, ra_status_code = 409,
        ra_location = None, ra_error = Some [0x6E, 0x6F]\<rparr>] :: PackedWriteReplyEntry list"
  obtain body where b: "encode_write_reply ?es = Inr body" by (simp add: encode_write_reply_def body_too_large_def error_bytes_def)
  from write_reply_round_trip [OF b] b show ?thesis by (simp add: ack_entry_ok_def location_ok_def chunk_id_ok_def)
qed

text \<open>
  C28. Read queries, plain or ranged, come back as they were sent.
\<close>

theorem read_query_round_trip:
  assumes "encode_read_query q = Inr body" "query_ok q"
  shows "decode_read_query body = Inr q"
  by (rule decode_encode_query [OF assms(2,1)])

theorem read_query_round_trip_witness:
  "\<exists>body. encode_read_query \<lparr>rq_chunk_ids = [ChunkId (replicate 32 9)], rq_ranges = Some [\<lparr>cr_offset = 4096, cr_length = 100\<rparr>]\<rparr> = Inr body
     \<and> decode_read_query body = Inr \<lparr>rq_chunk_ids = [ChunkId (replicate 32 9)], rq_ranges = Some [\<lparr>cr_offset = 4096, cr_length = 100\<rparr>]\<rparr>"
proof -
  let ?q = "\<lparr>rq_chunk_ids = [ChunkId (replicate 32 9)], rq_ranges = Some [\<lparr>cr_offset = 4096, cr_length = 100\<rparr>]\<rparr>"
  obtain body where b: "encode_read_query ?q = Inr body" by (simp add: encode_read_query_def)
  from read_query_round_trip [OF b] b show ?thesis by (simp add: query_ok_def chunk_id_ok_def)
qed

text \<open>
  C29. What is hashed into a fragment id determines the cluster salt and the fragment: for salts shorter
  than \<open>2 ^ 32\<close> bytes two different pairs of salt and identity never hash the same byte string, whatever
  the lengths of the salts.
\<close>

theorem chunk_id_preimage_injective:
  assumes "length salt < 2 ^ 32" "length salt' < 2 ^ 32"
  shows "chunk_id_preimage salt ob ver st fr = chunk_id_preimage salt' ob' ver' st' fr' \<longleftrightarrow>
    salt = salt' \<and> ob = ob' \<and> ver = ver' \<and> st = st' \<and> fr = fr'" (is "?L \<longleftrightarrow> ?R")
proof
  assume ?L
  then have eq: "le_bytes 4 (of_nat (length salt) :: u32) @ salt @ le_bytes 4 ob @ le_bytes 2 ver @ le_bytes 2 st @ le_bytes 2 fr =
      le_bytes 4 (of_nat (length salt') :: u32) @ salt' @ le_bytes 4 ob' @ le_bytes 2 ver' @ le_bytes 2 st' @ le_bytes 2 fr'"
    by (simp add: chunk_id_preimage_def)
  then have "le_bytes 4 (of_nat (length salt) :: u32) = le_bytes 4 (of_nat (length salt') :: u32)"
    by (rule append_eq_append_conv [THEN iffD1, THEN conjunct1, rotated]) simp
  then have "unat (of_nat (length salt) :: u32) = unat (of_nat (length salt') :: u32)" by (rule arg_cong [OF le_bytes_inj_32])
  then have "length salt = length salt'" by (simp only: unat_of_nat_32 [OF assms(1)] unat_of_nat_32 [OF assms(2)])
  with eq show ?R by (auto dest: le_bytes_inj_32 le_bytes_inj_16)
qed simp

theorem chunk_id_preimage_injective_witness:
  "chunk_id_preimage [1, 2] 7 1 0 3 \<noteq> chunk_id_preimage [1] 2 1 0 3"
  using chunk_id_preimage_injective [of "[1, 2]" "[1]" 7 1 0 3 2 1 0 3] by simp

end
