(* ===== verification/Kst_Slots.thy ===== *)
theory Kst_Slots
  imports Kix_Engine Kix_Media
begin

text \<open>
  \<open>poc/kst/src/service.rs\<close>, the parts of a storage target that decide who may write where: the granule
  allocator, and the publication state of a slot, which lets one write or delete at a time through and
  chooses the lane that does not hold the published copy. Both sit behind a mutex whose critical sections
  are the operations below; none of them panics, so the mutexes are never poisoned.
\<close>

section \<open>Errors\<close>

abbreviation BAD_REQUEST :: u16 where "BAD_REQUEST \<equiv> 400"
abbreviation NOT_FOUND :: u16 where "NOT_FOUND \<equiv> 404"
abbreviation METHOD_NOT_ALLOWED :: u16 where "METHOD_NOT_ALLOWED \<equiv> 405"
abbreviation CONFLICT :: u16 where "CONFLICT \<equiv> 409"
abbreviation PRECONDITION_FAILED :: u16 where "PRECONDITION_FAILED \<equiv> 412"
abbreviation TOO_MANY_REQUESTS :: u16 where "TOO_MANY_REQUESTS \<equiv> 429"
abbreviation INTERNAL_SERVER_ERROR :: u16 where "INTERNAL_SERVER_ERROR \<equiv> 500"
abbreviation INSUFFICIENT_STORAGE :: u16 where "INSUFFICIENT_STORAGE \<equiv> 507"

record ServiceError =
  se_status :: u16
  se_count_as_error :: bool

text \<open>
  Why an operation gives no result: it is refused with an error (messages are left out), or its caller
  waits for something that another request has to do.
\<close>

datatype fault = Refused ServiceError | Waiting

definition service_error :: "u16 \<Rightarrow> bool \<Rightarrow> fault" where
  "service_error status count = Refused \<lparr>se_status = status, se_count_as_error = count\<rparr>"

definition media_status :: "io_error \<Rightarrow> u16" where
  "media_status e =
     (case e of InvalidInput \<Rightarrow> BAD_REQUEST | NotFound \<Rightarrow> NOT_FOUND | InvalidData \<Rightarrow> PRECONDITION_FAILED
      | _ \<Rightarrow> INTERNAL_SERVER_ERROR)"

definition map_media_error :: "io_error \<Rightarrow> fault" where
  "map_media_error e = service_error (media_status e) (media_status e \<noteq> NOT_FOUND)"

definition publication_retryable :: "io_error \<Rightarrow> bool" where
  "publication_retryable e \<longleftrightarrow> e = InvalidData \<or> e = NotFound"

section \<open>The granule allocator\<close>

record GranuleAllocator =
  ga_key_slots :: u64
  ga_cursor :: u64
  ga_pending :: "u64 set"

definition GranuleAllocator_new :: "u64 \<Rightarrow> GranuleAllocator" where
  "GranuleAllocator_new n = \<lparr>ga_key_slots = n, ga_cursor = 0, ga_pending = {}\<rparr>"

fun allocate_scan :: "nat \<Rightarrow> (u64 \<Rightarrow> bool) \<Rightarrow> GranuleAllocator \<Rightarrow> u64 option \<times> GranuleAllocator" where
  "allocate_scan 0 is_occupied a = (None, a)"
| "allocate_scan (Suc n) is_occupied a =
     (let slot = ga_cursor a;
          a = a\<lparr>ga_cursor := (ga_cursor a + 1) mod ga_key_slots a\<rparr>
      in if slot \<notin> ga_pending a \<and> \<not> is_occupied slot
         then (Some slot, a\<lparr>ga_pending := insert slot (ga_pending a)\<rparr>)
         else allocate_scan n is_occupied a)"

definition allocate :: "(u64 \<Rightarrow> bool) \<Rightarrow> GranuleAllocator \<Rightarrow> u64 option \<times> GranuleAllocator" where
  "allocate is_occupied a =
     (if ga_key_slots a = 0 then (None, a) else allocate_scan (unat (ga_key_slots a)) is_occupied a)"

definition release :: "u64 \<Rightarrow> GranuleAllocator \<Rightarrow> GranuleAllocator" where
  "release slot a = a\<lparr>ga_pending := ga_pending a - {slot}\<rparr>"

section \<open>The publication state of a slot\<close>

record PublishedSlotOwner =
  po_chunk_id :: ChunkId
  po_record :: LocationRecord

record SlotPublicationState =
  sp_current :: "PublishedSlotOwner option"
  sp_busy :: bool

record SlotPublicationReservation =
  rv_lane :: u64
  rv_current :: "PublishedSlotOwner option"

definition default_state :: SlotPublicationState where
  "default_state = \<lparr>sp_current = None, sp_busy = False\<rparr>"

definition reserve :: "(LocationRecord option \<Rightarrow> fault + u64) \<Rightarrow> (SlotPublicationState, fault, SlotPublicationReservation) st" where
  "reserve fresh_lane state =
     (if sp_busy state then (Inl Waiting, state)
      else case fresh_lane (map_option po_record (sp_current state)) of
        Inl e \<Rightarrow> (Inl e, state)
      | Inr lane \<Rightarrow> (Inr \<lparr>rv_lane = lane, rv_current = sp_current state\<rparr>, state\<lparr>sp_busy := True\<rparr>))"

definition commit :: "PublishedSlotOwner \<Rightarrow> SlotPublicationState \<Rightarrow> SlotPublicationState" where
  "commit owner state =
     (let install = (case sp_current state of
            Some existing \<Rightarrow> generation (po_record existing) \<le> generation (po_record owner)
          | None \<Rightarrow> True);
          state = (if install then state\<lparr>sp_current := Some owner\<rparr> else state)
      in state\<lparr>sp_busy := False\<rparr>)"

definition rollback :: "SlotPublicationState \<Rightarrow> SlotPublicationState" where
  "rollback state = state\<lparr>sp_busy := False\<rparr>"

definition begin_delete :: "(SlotPublicationState, fault, PublishedSlotOwner option) st" where
  "begin_delete state =
     (if sp_busy state then (Inl Waiting, state) else (Inr (sp_current state), state\<lparr>sp_busy := True\<rparr>))"

definition finish_delete :: "bool \<Rightarrow> SlotPublicationState \<Rightarrow> SlotPublicationState" where
  "finish_delete cleared state =
     (let state = (if cleared then state\<lparr>sp_current := None\<rparr> else state) in state\<lparr>sp_busy := False\<rparr>)"

section \<open>Recovering the slots\<close>

text \<open>
  One turn of the loop of \<open>build_slot_publications\<close>, on the states and the engine whose inverse it seeds.
\<close>

definition publish_recovered :: "ChunkMediaLayoutSpec \<Rightarrow> ChunkId \<times> LocationRecord
    \<Rightarrow> (KixEngine \<times> SlotPublicationState list, io_error, unit) st" where
  "publish_recovered layout = (\<lambda>(c, r) (e, slots).
     case chunk_media_slot_index_for_record layout r of
       Inl _ \<Rightarrow> (Inl InvalidData, (e, slots))
     | Inr slot \<Rightarrow>
         let e = seed_inverse (drive_id r) slot c (generation r) e; i = unat slot in
         if i \<ge> length slots then (Inl InvalidData, (e, slots))
         else
           let candidate = \<lparr>po_chunk_id = c, po_record = r\<rparr>;
               installed = slots[i := (slots ! i)\<lparr>sp_current := Some candidate\<rparr>]
           in case sp_current (slots ! i) of
                Some existing \<Rightarrow>
                  if po_chunk_id existing \<noteq> c then (Inl InvalidData, (e, slots))
                  else if generation (po_record existing) \<le> generation r then (Inr (), (e, installed))
                  else (Inr (), (e, slots))
              | None \<Rightarrow> (Inr (), (e, installed)))"

fun publish_all :: "ChunkMediaLayoutSpec \<Rightarrow> entries \<Rightarrow> (KixEngine \<times> SlotPublicationState list, io_error, unit) st" where
  "publish_all layout [] = st_ret ()"
| "publish_all layout (x # xs) = st_bind (publish_recovered layout x) (\<lambda>_. publish_all layout xs)"

definition build_slot_publications :: "ChunkMediaLayoutSpec \<Rightarrow> u64 \<Rightarrow> entries \<Rightarrow> KixEngine
    \<Rightarrow> io_error + KixEngine \<times> SlotPublicationState list" where
  "build_slot_publications layout n es e =
     (case publish_all layout es (e, replicate (unat (max n 1)) default_state) of
        (Inl err, _) \<Rightarrow> Inl err
      | (Inr _, result) \<Rightarrow> Inr result)"

section \<open>The allocator hands out free granules\<close>

definition allocator_ok :: "GranuleAllocator \<Rightarrow> bool" where
  "allocator_ok a \<longleftrightarrow> ga_key_slots a = 0 \<or> ga_cursor a < ga_key_slots a"

lemma allocator_new_ok: "allocator_ok (GranuleAllocator_new n)"
  by (auto simp: allocator_ok_def GranuleAllocator_new_def word_gt_0)

lemma release_ok [simp]: "allocator_ok (release slot a) = allocator_ok a"
  by (simp add: allocator_ok_def release_def)

lemma cursor_next:
  fixes c n :: u64
  assumes "c < n"
  shows "unat ((c + 1) mod n) = Suc (unat c) mod unat n"
proof -
  have "unat c + 1 < 2 ^ 64" using assms unsigned_less [of n, where ?'a = nat] by (simp add: word_less_nat_alt)
  then show ?thesis by (simp add: unat_mod_distrib unat_add_no_wrap)
qed

text \<open>The scan visits the slots in the order of the cursor and takes the first free one.\<close>

definition visited :: "GranuleAllocator \<Rightarrow> nat \<Rightarrow> nat" where
  "visited a i = (unat (ga_cursor a) + i) mod unat (ga_key_slots a)"

lemma allocate_scan_cases:
  assumes "ga_cursor a < ga_key_slots a" "allocate_scan n occ a = (res, a')"
  shows "ga_cursor a' < ga_key_slots a' \<and> ga_key_slots a' = ga_key_slots a
    \<and> (case res of
         None \<Rightarrow> ga_pending a' = ga_pending a \<and> (\<forall>i < n. of_nat (visited a i) \<in> ga_pending a \<or> occ (of_nat (visited a i)))
       | Some slot \<Rightarrow> slot < ga_key_slots a \<and> slot \<notin> ga_pending a \<and> \<not> occ slot \<and> ga_pending a' = insert slot (ga_pending a))"
  using assms
proof (induction n arbitrary: a)
  case (Suc n)
  let ?b = "a\<lparr>ga_cursor := (ga_cursor a + 1) mod ga_key_slots a\<rparr>"
  have pos: "0 < unat (ga_key_slots a)" using Suc.prems(1) by (simp add: word_less_nat_alt)
  have b: "ga_cursor ?b < ga_key_slots ?b" using Suc.prems(1) pos by (simp add: word_less_nat_alt cursor_next)
  have step: "visited ?b i = visited a (Suc i)" for i
    using Suc.prems(1) by (simp add: visited_def cursor_next mod_simps)
  have here: "of_nat (visited a 0) = ga_cursor a" using Suc.prems(1) by (simp add: visited_def word_less_nat_alt)
  show ?case
  proof (cases "ga_cursor a \<notin> ga_pending a \<and> \<not> occ (ga_cursor a)")
    case True
    then show ?thesis using Suc.prems b by (auto simp: Let_def)
  next
    case False
    then have "allocate_scan n occ ?b = (res, a')" using Suc.prems(2) by (auto simp: Let_def)
    from Suc.IH [OF b this] show ?thesis
      using False here by (auto simp: step less_Suc_eq_0_disj split: option.splits)
  qed
qed simp

lemma visited_all:
  assumes "ga_cursor a < ga_key_slots a" "s < ga_key_slots a"
  shows "\<exists>i < unat (ga_key_slots a). of_nat (visited a i) = s"
proof -
  let ?n = "unat (ga_key_slots a)" and ?c = "unat (ga_cursor a)" and ?s = "unat s"
  have lt: "?c < ?n" "?s < ?n" using assms by (simp_all add: word_less_nat_alt)
  have "(?c + (?s + (?n - ?c)) mod ?n) mod ?n = ?s" using lt by (simp add: mod_simps)
  then have "visited a ((?s + (?n - ?c)) mod ?n) = ?s" by (simp add: visited_def)
  then show ?thesis using lt by (intro exI [of _ "(?s + (?n - ?c)) mod ?n"]) simp
qed

text \<open>
  C33. The allocator hands out a granule exactly if there is one: what it returns is inside the drive, holds no
  published chunk and is not handed out already; it is pending afterwards. When it returns nothing, every
  granule of the drive is occupied or pending, and nothing has changed but the cursor.
\<close>

theorem allocate_finds_free:
  assumes "allocator_ok a" "allocate is_occupied a = (res, a')"
  shows "allocator_ok a' \<and> ga_key_slots a' = ga_key_slots a
    \<and> (case res of
         Some slot \<Rightarrow> slot < ga_key_slots a \<and> slot \<notin> ga_pending a \<and> \<not> is_occupied slot \<and> ga_pending a' = insert slot (ga_pending a)
       | None \<Rightarrow> ga_pending a' = ga_pending a \<and> (\<forall>slot < ga_key_slots a. slot \<in> ga_pending a \<or> is_occupied slot))"
proof (cases "ga_key_slots a = 0")
  case True
  then show ?thesis using assms by (auto simp: allocate_def)
next
  case False
  then have c: "ga_cursor a < ga_key_slots a" using assms(1) by (simp add: allocator_ok_def)
  have "allocate_scan (unat (ga_key_slots a)) is_occupied a = (res, a')" using assms(2) False by (simp add: allocate_def)
  note scan = allocate_scan_cases [OF c this]
  show ?thesis
  proof (cases res)
    case None
    have "slot \<in> ga_pending a \<or> is_occupied slot" if "slot < ga_key_slots a" for slot
      using visited_all [OF c that] scan None by auto
    then show ?thesis using scan None by (auto simp: allocator_ok_def)
  next
    case (Some slot)
    then show ?thesis using scan by (auto simp: allocator_ok_def)
  qed
qed

theorem allocate_finds_free_witness:
  "allocate (\<lambda>s. s = 0 \<or> s = 3) \<lparr>ga_key_slots = 4, ga_cursor = 3, ga_pending = {1}\<rparr> =
     (Some 2, \<lparr>ga_key_slots = 4, ga_cursor = 3, ga_pending = {1, 2}\<rparr>)
   \<and> allocator_ok \<lparr>ga_key_slots = 4, ga_cursor = 3, ga_pending = {1, 2}\<rparr>"
proof -
  let ?occ = "\<lambda>s :: u64. s = 0 \<or> s = 3" and ?a = "\<lparr>ga_key_slots = 4, ga_cursor = 3, ga_pending = {1}\<rparr>"
  have "allocate_scan (Suc (Suc (Suc (Suc 0)))) ?occ ?a = (Some 2, \<lparr>ga_key_slots = 4, ga_cursor = 3, ga_pending = {1, 2}\<rparr>)"
    by (simp add: Let_def insert_commute)
  moreover have "unat (ga_key_slots ?a) = Suc (Suc (Suc (Suc 0)))" by simp
  ultimately have run: "allocate ?occ ?a = (Some 2, \<lparr>ga_key_slots = 4, ga_cursor = 3, ga_pending = {1, 2}\<rparr>)"
    unfolding allocate_def by (simp only:) simp
  with allocate_finds_free [OF _ run] show ?thesis by (simp add: allocator_ok_def)
qed

end
