(* ===== verification/Kein_Text.thy ===== *)
theory Kein_Text
  imports Kein_Base
begin

text \<open>
  What the servers use of Rust's strings: splitting on a character, and printing and parsing of unsigned
  integers. A string is a list of characters.
\<close>

section \<open>Splitting\<close>

text \<open>\<open>str::split\<close> on one character: the pieces between its occurrences, one more than there are.\<close>

fun split_on :: "char \<Rightarrow> string \<Rightarrow> string list" where
  "split_on sep [] = [[]]"
| "split_on sep (c # cs) =
     (if c = sep then [] # split_on sep cs
      else case split_on sep cs of [] \<Rightarrow> [[c]] | piece # pieces \<Rightarrow> (c # piece) # pieces)"

text \<open>\<open>str::split_once\<close>: what is before and after the first occurrence.\<close>

fun split_once :: "char \<Rightarrow> string \<Rightarrow> (string \<times> string) option" where
  "split_once sep [] = None"
| "split_once sep (c # cs) =
     (if c = sep then Some ([], cs) else map_option (\<lambda>(before, after). (c # before, after)) (split_once sep cs))"

text \<open>\<open>str::strip_prefix\<close>.\<close>

definition strip_prefix :: "string \<Rightarrow> string \<Rightarrow> string option" where
  "strip_prefix p s = (if take (length p) s = p then Some (drop (length p) s) else None)"

definition starts_with :: "string \<Rightarrow> string \<Rightarrow> bool" where
  "starts_with p s \<longleftrightarrow> take (length p) s = p"

lemma split_on_free: "sep \<notin> set s \<Longrightarrow> split_on sep s = [s]"
  by (induction s) auto

lemma split_on_append: "sep \<notin> set s \<Longrightarrow> split_on sep (s @ sep # t) = s # split_on sep t"
  by (induction s) auto

lemma split_once_append: "sep \<notin> set s \<Longrightarrow> split_once sep (s @ sep # t) = Some (s, t)"
  by (induction s) auto

lemma strip_prefix_append [simp]: "strip_prefix p (p @ s) = Some s"
  by (simp add: strip_prefix_def)

section \<open>Unsigned integers in decimal\<close>

definition digit_of :: "char \<Rightarrow> nat option" where
  "digit_of c = (let n = of_char c in if 48 \<le> n \<and> n \<le> (57 :: nat) then Some (n - 48) else None)"

definition char_of_digit :: "nat \<Rightarrow> char" where
  "char_of_digit d = char_of (48 + d)"

text \<open>
  \<open>parse\<close> of an unsigned type of the given width: an optional plus sign, then at least one digit, and
  a value that fits.
\<close>

fun parse_digits :: "nat \<Rightarrow> nat \<Rightarrow> string \<Rightarrow> nat option" where
  "parse_digits bits acc [] = Some acc"
| "parse_digits bits acc (c # cs) =
     (case digit_of c of
        None \<Rightarrow> None
      | Some d \<Rightarrow> if acc * 10 + d < 2 ^ bits then parse_digits bits (acc * 10 + d) cs else None)"

definition parse_unsigned :: "nat \<Rightarrow> string \<Rightarrow> nat option" where
  "parse_unsigned bits s =
     (let digits = (if s \<noteq> [] \<and> hd s = CHR ''+'' then tl s else s) in
      if digits = [] then None else parse_digits bits 0 digits)"

fun decimal :: "nat \<Rightarrow> string" where
  "decimal n = (if n < 10 then [char_of_digit n] else decimal (n div 10) @ [char_of_digit (n mod 10)])"

declare decimal.simps [simp del]

lemma digit_of_char [simp]: "d < 10 \<Longrightarrow> digit_of (char_of_digit d) = Some d"
  by (simp add: digit_of_def char_of_digit_def of_char_of)

lemma char_of_digit_sign [simp]: "d < 10 \<Longrightarrow> char_of_digit d \<noteq> CHR ''+''"
proof
  assume "d < 10" "char_of_digit d = CHR ''+''"
  then have "digit_of CHR ''+'' = Some d" using digit_of_char [of d] by simp
  then show False by (simp add: digit_of_def)
qed

lemma parse_digits_append:
  "parse_digits bits acc (s @ t) = (case parse_digits bits acc s of None \<Rightarrow> None | Some a \<Rightarrow> parse_digits bits a t)"
  by (induction s arbitrary: acc) (auto split: option.split)

lemma parse_digits_decimal: "n < 2 ^ bits \<Longrightarrow> parse_digits bits 0 (decimal n) = Some n"
proof (induction n rule: decimal.induct)
  case (1 n)
  show ?case
  proof (cases "n < 10")
    case True
    then show ?thesis using 1(2) by (simp add: decimal.simps [of n])
  next
    case False
    have "n div 10 < 2 ^ bits" using 1(2) by (meson div_le_dividend le_less_trans)
    then have "parse_digits bits 0 (decimal (n div 10)) = Some (n div 10)" using 1(1) False by blast
    moreover have "n div 10 * 10 + n mod 10 = n" by simp
    ultimately show ?thesis using 1(2) False by (simp add: decimal.simps [of n] parse_digits_append)
  qed
qed

lemma decimal_shape: "\<exists>c cs. decimal n = c # cs \<and> c \<noteq> CHR ''+''"
proof (induction n rule: decimal.induct)
  case (1 n)
  then show ?case by (cases "n < 10") (auto simp: decimal.simps [of n])
qed

lemma parse_unsigned_decimal: "n < 2 ^ bits \<Longrightarrow> parse_unsigned bits (decimal n) = Some n"
  using decimal_shape [of n] parse_digits_decimal [of n bits] by (auto simp: parse_unsigned_def)

lemma parse_digits_bound: "parse_digits bits acc s = Some n \<Longrightarrow> acc < 2 ^ bits \<Longrightarrow> n < 2 ^ bits"
  by (induction s arbitrary: acc) (auto split: option.splits if_splits)

lemma parse_unsigned_bound: "parse_unsigned bits s = Some n \<Longrightarrow> n < 2 ^ bits"
  using parse_digits_bound [of bits 0] by (auto simp: parse_unsigned_def Let_def split: if_splits)

end
