(* ===== verification/Kp2_Headers.thy ===== *)
theory Kp2_Headers
  imports Kp2_Codec Kein_Text
begin

text \<open>
  The HTTP side of KP2, \<open>poc/kp2/src/lib.rs\<close>: which headers a packed request and its reply carry. The header
  map is a type of the \<open>http\<close> crate. Two things are used of it: looking a name up and reading the value as a
  string, the argument \<open>headers\<close> (\<open>None\<close>: there is no such header, \<open>Some None\<close>: its value is not a string), and
  whether a string is a header value, the argument \<open>value_ok\<close>.
\<close>

section \<open>Names\<close>

definition HEADER_PROTOCOL :: string where "HEADER_PROTOCOL = ''x-kp2-protocol''"
definition HEADER_TRANSFER :: string where "HEADER_TRANSFER = ''x-kp2-transfer''"
definition HEADER_KIND :: string where "HEADER_KIND = ''x-kp2-kind''"
definition HEADER_CHUNK_COUNT :: string where "HEADER_CHUNK_COUNT = ''x-kp2-chunk-count''"
definition HEADER_TOTAL_PAYLOAD_BYTES :: string where "HEADER_TOTAL_PAYLOAD_BYTES = ''x-kp2-total-payload-bytes''"
definition HEADER_LIMIT_SCOPE :: string where "HEADER_LIMIT_SCOPE = ''x-kp2-limit-scope''"
definition HEADER_LIMIT_CLASS :: string where "HEADER_LIMIT_CLASS = ''x-kp2-limit-class''"
definition HEADER_LIMIT_CURRENT_IN_FLIGHT :: string where
  "HEADER_LIMIT_CURRENT_IN_FLIGHT = ''x-kp2-limit-current-in-flight''"
definition HEADER_LIMIT_MAX_IN_FLIGHT :: string where "HEADER_LIMIT_MAX_IN_FLIGHT = ''x-kp2-limit-max-in-flight''"
definition HEADER_RETRY_AFTER_MS :: string where "HEADER_RETRY_AFTER_MS = ''x-kp2-retry-after-ms''"
definition PROTOCOL_NAME :: string where "PROTOCOL_NAME = ''kp2''"
definition TRANSFER_PACKED :: string where "TRANSFER_PACKED = ''packed''"
definition KIND_WRITE :: string where "KIND_WRITE = ''write''"
definition KIND_QUERY :: string where "KIND_QUERY = ''query''"
definition KIND_READ :: string where "KIND_READ = ''read''"

lemmas header_names =
  HEADER_PROTOCOL_def HEADER_TRANSFER_def HEADER_KIND_def HEADER_CHUNK_COUNT_def HEADER_TOTAL_PAYLOAD_BYTES_def

type_synonym header_view = "string \<Rightarrow> string option option"

section \<open>Reading and checking headers\<close>

definition header_string :: "header_view \<Rightarrow> string \<Rightarrow> string io_result" where
  "header_string headers name = bind_r (ok_or InvalidInput (headers name)) (\<lambda>value. ok_or InvalidInput value)"

definition header_u64 :: "header_view \<Rightarrow> string \<Rightarrow> u64 io_result" where
  "header_u64 headers name =
     bind_r (header_string headers name) (\<lambda>value.
     bind_r (ok_or InvalidInput (parse_unsigned 64 value)) (\<lambda>n. Inr (of_nat n)))"

definition validate_packed_headers :: "header_view \<Rightarrow> string \<Rightarrow> unit io_result" where
  "validate_packed_headers headers expected_kind =
     bind_r (header_string headers HEADER_PROTOCOL) (\<lambda>protocol.
     if protocol \<noteq> PROTOCOL_NAME then Inl InvalidInput
     else
       bind_r (header_string headers HEADER_TRANSFER) (\<lambda>transfer.
       if transfer \<noteq> TRANSFER_PACKED then Inl InvalidInput
       else
         bind_r (header_string headers HEADER_KIND) (\<lambda>kind.
         if kind \<noteq> expected_kind then Inl InvalidInput else Inr ())))"

definition validate_request_headers :: "header_view \<Rightarrow> string \<Rightarrow> unit io_result" where
  "validate_request_headers headers expected_kind = validate_packed_headers headers expected_kind"

definition validate_declared_counts :: "header_view \<Rightarrow> nat \<Rightarrow> nat \<Rightarrow> unit io_result" where
  "validate_declared_counts headers chunk_count total_payload_bytes =
     bind_r (header_u64 headers HEADER_CHUNK_COUNT) (\<lambda>declared_chunk_count.
     if unat declared_chunk_count \<noteq> chunk_count then Inl InvalidInput
     else
       bind_r (header_u64 headers HEADER_TOTAL_PAYLOAD_BYTES) (\<lambda>declared_payload_bytes.
       if unat declared_payload_bytes \<noteq> total_payload_bytes then Inl InvalidInput else Inr ()))"

section \<open>Writing headers\<close>

text \<open>\<open>insert\<close> replaces the value a name had; a value from a string constant is always one.\<close>

type_synonym header_list = "(string \<times> string) list"

definition insert_header :: "(string \<Rightarrow> bool) \<Rightarrow> string \<Rightarrow> string \<Rightarrow> header_list \<Rightarrow> header_list io_result" where
  "insert_header value_ok name value headers =
     (if value_ok value then Inr (AList.update name value headers) else Inl InvalidInput)"

definition apply_packed_headers :: "(string \<Rightarrow> bool) \<Rightarrow> string \<Rightarrow> nat \<Rightarrow> nat \<Rightarrow> header_list \<Rightarrow> header_list io_result" where
  "apply_packed_headers value_ok kind chunk_count total_payload_bytes headers =
     (let headers = AList.update HEADER_PROTOCOL PROTOCOL_NAME headers;
          headers = AList.update HEADER_TRANSFER TRANSFER_PACKED headers
      in bind_r (insert_header value_ok HEADER_KIND kind headers) (\<lambda>headers.
         bind_r (insert_header value_ok HEADER_CHUNK_COUNT (decimal chunk_count) headers) (\<lambda>headers.
         insert_header value_ok HEADER_TOTAL_PAYLOAD_BYTES (decimal total_payload_bytes) headers)))"

definition apply_rate_limit_headers :: "(string \<Rightarrow> bool) \<Rightarrow> string \<Rightarrow> string \<Rightarrow> nat \<Rightarrow> nat \<Rightarrow> u64 \<Rightarrow> header_list \<Rightarrow> header_list io_result" where
  "apply_rate_limit_headers value_ok scope limit_class current_in_flight max_in_flight retry_after_ms headers =
     bind_r (insert_header value_ok HEADER_LIMIT_SCOPE scope headers) (\<lambda>headers.
     bind_r (insert_header value_ok HEADER_LIMIT_CLASS limit_class headers) (\<lambda>headers.
     bind_r (insert_header value_ok HEADER_LIMIT_CURRENT_IN_FLIGHT (decimal current_in_flight) headers) (\<lambda>headers.
     bind_r (insert_header value_ok HEADER_LIMIT_MAX_IN_FLIGHT (decimal max_in_flight) headers) (\<lambda>headers.
     insert_header value_ok HEADER_RETRY_AFTER_MS (decimal (unat retry_after_ms)) headers))))"

section \<open>Round trip\<close>

text \<open>How a list of headers is seen by the other side, where every value is a string.\<close>

definition view_of :: "header_list \<Rightarrow> header_view" where
  "view_of headers name = map_option Some (map_of headers name)"

lemma applied_headers:
  assumes "apply_packed_headers value_ok kind n m headers = Inr out"
  shows "map_of out = (map_of headers)(HEADER_PROTOCOL \<mapsto> PROTOCOL_NAME, HEADER_TRANSFER \<mapsto> TRANSFER_PACKED, HEADER_KIND \<mapsto> kind,
    HEADER_CHUNK_COUNT \<mapsto> decimal n, HEADER_TOTAL_PAYLOAD_BYTES \<mapsto> decimal m)"
  using assms by (auto simp: apply_packed_headers_def insert_header_def AList.update_conv' bind_r_eq_Inr split: if_splits)

lemma header_string_view [simp]: "header_string (view_of headers) name = ok_or InvalidInput (map_of headers name)"
  by (cases "map_of headers name") (simp_all add: header_string_def view_of_def)

lemma header_u64_view: "n < 2 ^ 64 \<Longrightarrow> map_of headers name = Some (decimal n) \<Longrightarrow> header_u64 (view_of headers) name = Inr (of_nat n)"
  by (simp add: header_u64_def parse_unsigned_decimal)

text \<open>
  C34. What one side declares, the other side accepts, and nothing else: the headers that a sender puts on a packed body
  pass the checks for exactly its kind and exactly its counts.
\<close>

theorem applied_headers_validate:
  assumes "apply_packed_headers value_ok kind n m headers = Inr out" "n < 2 ^ 64" "m < 2 ^ 64"
  shows "(validate_request_headers (view_of out) kind' = Inr () \<longleftrightarrow> kind' = kind)
    \<and> (validate_declared_counts (view_of out) n' m' = Inr () \<longleftrightarrow> n' = n \<and> m' = m)"
proof (intro conjI)
  note look = applied_headers [OF assms(1)]
  show "validate_request_headers (view_of out) kind' = Inr () \<longleftrightarrow> kind' = kind"
    by (auto simp: validate_request_headers_def validate_packed_headers_def look header_names)
  have "header_u64 (view_of out) HEADER_CHUNK_COUNT = Inr (of_nat n)" "header_u64 (view_of out) HEADER_TOTAL_PAYLOAD_BYTES = Inr (of_nat m)"
    by (simp_all add: header_u64_view [OF assms(2)] header_u64_view [OF assms(3)] look header_names)
  then show "validate_declared_counts (view_of out) n' m' = Inr () \<longleftrightarrow> n' = n \<and> m' = m"
    using assms(2,3) by (auto simp: validate_declared_counts_def unat_of_nat)
qed

theorem applied_headers_validate_witness:
  "\<exists>out. apply_packed_headers (\<lambda>_. True) KIND_WRITE 2 4096 [] = Inr out
     \<and> validate_request_headers (view_of out) KIND_WRITE = Inr () \<and> validate_declared_counts (view_of out) 2 4096 = Inr ()"
proof -
  obtain out where "apply_packed_headers (\<lambda>_. True) KIND_WRITE 2 4096 [] = Inr out"
    by (simp add: apply_packed_headers_def insert_header_def Let_def)
  with applied_headers_validate [OF this, of KIND_WRITE 2 4096] show ?thesis by simp
qed

end
