(* ===== verification/Kst_Router.thy ===== *)
theory Kst_Router
  imports Kst_Slots Kp2_Headers
begin

text \<open>
  \<open>poc/kst/src/service.rs\<close>: the request router of a storage target. Its state has the KIX engine, the
  chunk-media handle with its device, the publication state of every slot and the allocator. A handler runs
  in \<open>kst\<close>, the state-and-error monad over that state; the error \<open>Waiting\<close> is a request that waits for a
  slot that is busy or for a drive worker that does not answer, and nothing after it happens.

  JSON documents stand for their encoding, messages are left out or a parameter (\<open>error_text\<close>), and what the
  statistics record is not modelled. Of other crates, \<open>hex::decode\<close> is the parameter \<open>hex_decode\<close> and
  \<open>HeaderValue::from_str\<close> the parameter \<open>value_ok\<close>.
\<close>

section \<open>Requests\<close>

datatype Method = GET | HEAD | PUT | POST | DELETE | OTHER_METHOD

fun find_pair :: "string \<Rightarrow> string list \<Rightarrow> string option" where
  "find_pair key [] = None"
| "find_pair key (pair # rest) =
     (case split_once CHR ''='' pair of
        None \<Rightarrow> find_pair key rest
      | Some (name, value) \<Rightarrow> if name = key then Some value else find_pair key rest)"

definition parse_query_value :: "string option \<Rightarrow> string \<Rightarrow> fault + string" where
  "parse_query_value query key =
     bind_r (ok_or (service_error BAD_REQUEST True) query) (\<lambda>q.
     ok_or (service_error BAD_REQUEST True) (find_pair key (split_on CHR ''&'' q)))"

definition parse_query_granule_index :: "string option \<Rightarrow> fault + u64" where
  "parse_query_granule_index query =
     bind_r (case parse_query_value query ''granule'' of Inr v \<Rightarrow> Inr v | Inl _ \<Rightarrow> parse_query_value query ''slot'') (\<lambda>v.
     bind_r (ok_or (service_error BAD_REQUEST True) (parse_unsigned 64 v)) (\<lambda>n. Inr (of_nat n)))"

definition parse_query_u32 :: "string option \<Rightarrow> string \<Rightarrow> fault + u32" where
  "parse_query_u32 query key =
     bind_r (parse_query_value query key) (\<lambda>v.
     bind_r (ok_or (service_error BAD_REQUEST True) (parse_unsigned 32 v)) (\<lambda>n. Inr (of_nat n)))"

definition parse_query_u32_present :: "string option \<Rightarrow> string \<Rightarrow> u32 option" where
  "parse_query_u32_present query key =
     (case parse_query_value query key of Inl _ \<Rightarrow> None | Inr v \<Rightarrow> map_option of_nat (parse_unsigned 32 v))"

definition parse_query_u32_opt :: "string option \<Rightarrow> string \<Rightarrow> u32" where
  "parse_query_u32_opt query key =
     (case (case parse_query_value query key of Inl _ \<Rightarrow> None | Inr v \<Rightarrow> map_option of_nat (parse_unsigned 32 v)) of
        None \<Rightarrow> 0 | Some n \<Rightarrow> n)"

definition parse_query_u64_present :: "string option \<Rightarrow> string \<Rightarrow> u64 option" where
  "parse_query_u64_present query key =
     (case parse_query_value query key of Inl _ \<Rightarrow> None | Inr v \<Rightarrow> map_option of_nat (parse_unsigned 64 v))"

definition parse_chunk_id_from_path :: "(string \<Rightarrow> u8 list option) \<Rightarrow> string \<Rightarrow> fault + ChunkId" where
  "parse_chunk_id_from_path hex_decode path =
     bind_r (ok_or (service_error NOT_FOUND True) (strip_prefix ''/v1/chunk/'' path)) (\<lambda>encoded.
     bind_r (ok_or (service_error BAD_REQUEST True) (hex_decode encoded)) (\<lambda>raw.
     if length raw \<noteq> 32 then Inl (service_error BAD_REQUEST True) else Inr (ChunkId raw)))"

section \<open>Responses\<close>

record LocationRecordDocument =
  ld_drive_id :: u16
  ld_location_kind :: string
  ld_physical_offset :: u64
  ld_logical_length :: u32
  ld_stored_length :: u32
  ld_generation :: u32
  ld_checksum :: u32
  ld_granule_index :: u64
  ld_slot_index :: u64

definition document_from_record :: "LocationRecord \<Rightarrow> u64 \<Rightarrow> LocationRecordDocument" where
  "document_from_record r slot =
     \<lparr>ld_drive_id = drive_id r,
      ld_location_kind = (case location_kind r of Extent \<Rightarrow> ''extent'' | PackedContainer \<Rightarrow> ''packed-container''),
      ld_physical_offset = physical_offset r, ld_logical_length = logical_length r, ld_stored_length = stored_length r,
      ld_generation = generation r, ld_checksum = checksum r, ld_granule_index = slot, ld_slot_index = slot\<rparr>"

text \<open>\<open>None\<close> is the panic on a kind without a KP2 code, which a document of a record does not have.\<close>

definition document_location :: "LocationRecordDocument \<Rightarrow> PackedWriteLocation option" where
  "document_location d =
     (case location_kind_from_name (ld_location_kind d) of
        Inl _ \<Rightarrow> None
      | Inr kind \<Rightarrow> Some
          \<lparr>pl_drive_id = ld_drive_id d, pl_location_kind = kind, pl_physical_offset = ld_physical_offset d,
           pl_logical_length = ld_logical_length d, pl_stored_length = ld_stored_length d, pl_generation = ld_generation d,
           pl_checksum = ld_checksum d, pl_slot_index = ld_granule_index d\<rparr>)"

record OccupiedGranuleDocument =
  og_slot :: u64
  og_chunk_id :: ChunkId
  og_generation :: u32
  og_object_id :: u32
  og_object_version :: u32
  og_stripe :: u32
  og_frag :: u32

datatype ServiceBody =
  NoBody
| Octets "u8 list"
| InfoDocument
| StatsDocument
| DeleteChunkDocument bool u32
| OccupiedGranulesPage "OccupiedGranuleDocument list" "u64 option"

record ServiceResponse =
  sr_status :: u16
  sr_body :: ServiceBody
  sr_content_type :: "string option"
  sr_location :: "LocationRecordDocument option"
  sr_extra_headers :: header_list
  sr_accounted_payload_bytes :: u64

definition response_empty :: "u16 \<Rightarrow> ServiceResponse" where
  "response_empty status =
     \<lparr>sr_status = status, sr_body = NoBody, sr_content_type = None, sr_location = None, sr_extra_headers = [],
      sr_accounted_payload_bytes = 0\<rparr>"

definition response_json :: "u16 \<Rightarrow> ServiceBody \<Rightarrow> ServiceResponse" where
  "response_json status body =
     \<lparr>sr_status = status, sr_body = body, sr_content_type = Some ''application/json'', sr_location = None,
      sr_extra_headers = [], sr_accounted_payload_bytes = 0\<rparr>"

definition with_location_headers_and_accounted_bytes :: "u16 \<Rightarrow> LocationRecordDocument \<Rightarrow> u64 \<Rightarrow> ServiceResponse" where
  "with_location_headers_and_accounted_bytes status location accounted =
     \<lparr>sr_status = status, sr_body = NoBody, sr_content_type = None, sr_location = Some location,
      sr_extra_headers = [], sr_accounted_payload_bytes = accounted\<rparr>"

definition with_location_headers :: "u16 \<Rightarrow> LocationRecordDocument \<Rightarrow> ServiceResponse" where
  "with_location_headers status location = with_location_headers_and_accounted_bytes status location 0"

definition response_octets :: "u16 \<Rightarrow> LocationRecordDocument \<Rightarrow> u8 list \<Rightarrow> ServiceResponse" where
  "response_octets status location body =
     \<lparr>sr_status = status, sr_body = Octets body, sr_content_type = Some ''application/octet-stream'',
      sr_location = Some location, sr_extra_headers = [], sr_accounted_payload_bytes = of_nat (length body)\<rparr>"

definition bytes_with_headers :: "u16 \<Rightarrow> string \<Rightarrow> u8 list \<Rightarrow> u64 \<Rightarrow> header_list \<Rightarrow> ServiceResponse" where
  "bytes_with_headers status content_type body accounted headers =
     \<lparr>sr_status = status, sr_body = Octets body, sr_content_type = Some content_type, sr_location = None,
      sr_extra_headers = headers, sr_accounted_payload_bytes = accounted\<rparr>"

section \<open>The router\<close>

record TargetRouter =
  tr_engine :: KixEngine
  tr_media :: ChunkMediaHandle
  tr_device :: device
  tr_slots :: "SlotPublicationState list"
  tr_allocator :: GranuleAllocator

type_synonym 'a kst = "(TargetRouter, fault, 'a) st"

definition on_media :: "(device, io_error, 'a) st \<Rightarrow> (TargetRouter, io_error, 'a) st" where
  "on_media = st_zoom tr_device (\<lambda>d t. t\<lparr>tr_device := d\<rparr>)"

definition modify_slot :: "u64 \<Rightarrow> (SlotPublicationState \<Rightarrow> SlotPublicationState) \<Rightarrow> TargetRouter \<Rightarrow> TargetRouter" where
  "modify_slot slot f t = t\<lparr>tr_slots := (tr_slots t)[unat slot := f (tr_slots t ! unat slot)]\<rparr>"

definition on_slot :: "u64 \<Rightarrow> (SlotPublicationState, fault, 'a) st \<Rightarrow> 'a kst" where
  "on_slot slot = st_zoom (\<lambda>t. tr_slots t ! unat slot) (\<lambda>s. modify_slot slot (\<lambda>_. s))"

definition router_drive :: "TargetRouter \<Rightarrow> u16" where
  "router_drive t = cfg_drive_id (h_config (tr_media t))"

definition kix_lookup :: "ChunkId \<Rightarrow> LocationRecord option kst" where
  "kix_lookup c t =
     (case kix_get c (tr_engine t) of Inl _ \<Rightarrow> (Inl (service_error INTERNAL_SERVER_ERROR True), t) | Inr r \<Rightarrow> (Inr r, t))"

text \<open>A call that changes the index, with its error already mapped to the status that the handlers give it.\<close>

definition client_call :: "(KixEngine \<Rightarrow> unit outcome \<times> KixEngine) \<Rightarrow> unit kst" where
  "client_call call t =
     (case call (tr_engine t) of
        (Returned (Inr _), e) \<Rightarrow> (Inr (), t\<lparr>tr_engine := e\<rparr>)
      | (Returned (Inl _), e) \<Rightarrow> (Inl (service_error INTERNAL_SERVER_ERROR True), t\<lparr>tr_engine := e\<rparr>)
      | (Blocked, e) \<Rightarrow> (Inl Waiting, t\<lparr>tr_engine := e\<rparr>))"

definition slot_publication :: "u64 \<Rightarrow> unit kst" where
  "slot_publication slot t =
     (if unat slot < length (tr_slots t) then (Inr (), t) else (Inl (service_error BAD_REQUEST True), t))"

definition location_document :: "LocationRecord \<Rightarrow> TargetRouter \<Rightarrow> fault + LocationRecordDocument" where
  "location_document r t =
     (case chunk_media_slot_index_for_record (handle_layout (tr_media t)) r of
        Inl _ \<Rightarrow> Inl (service_error PRECONDITION_FAILED True)
      | Inr slot \<Rightarrow> Inr (document_from_record r slot))"

definition fresh_publication_lane :: "ChunkMediaHandle \<Rightarrow> u64 \<Rightarrow> LocationRecord option \<Rightarrow> fault + u64" where
  "fresh_publication_lane h slot current =
     (case next_publication_lane_for_slot h slot current of
        Inl _ \<Rightarrow> Inl (service_error PRECONDITION_FAILED True) | Inr lane \<Rightarrow> Inr lane)"

section \<open>Writing one chunk\<close>

definition allocate_granule :: "TargetRouter \<Rightarrow> u64 option \<times> TargetRouter" where
  "allocate_granule t =
     (case allocate (\<lambda>slot. lookup_granule_chunk (router_drive t) slot (tr_engine t) \<noteq> None) (tr_allocator t) of
        (slot, a) \<Rightarrow> (slot, t\<lparr>tr_allocator := a\<rparr>))"

definition baseline :: "ChunkMediaHandle \<Rightarrow> u64 \<Rightarrow> LocationRecord option \<Rightarrow> LocationRecord option \<Rightarrow> LocationRecord option" where
  "baseline h slot current_record current_slot_record =
     (case current_slot_record of
        Some r \<Rightarrow> Some r
      | None \<Rightarrow>
          (case current_record of
             Some r \<Rightarrow> if chunk_media_slot_index_for_record (handle_layout h) r = Inr slot then Some r else None
           | None \<Rightarrow> None))"

text \<open>The reservation, with the record of the chunk that was looked up before it.\<close>

definition reserve_with :: "u64 \<Rightarrow> LocationRecord option \<Rightarrow> SlotPublicationReservation kst" where
  "reserve_with slot current_record t =
     on_slot slot (reserve (\<lambda>cur. fresh_publication_lane (tr_media t) slot (baseline (tr_media t) slot current_record cur))) t"

text \<open>The slot, the lookup and the reservation: the start of \<open>write_chunk_to_slot\<close> and of every packed entry.\<close>

definition reserve_lane :: "ChunkId \<Rightarrow> u64 \<Rightarrow> SlotPublicationReservation kst" where
  "reserve_lane c slot =
     st_bind (slot_publication slot) (\<lambda>_.
     st_bind (kix_lookup c) (\<lambda>current_record.
     reserve_with slot current_record))"

text \<open>Guard D, on the owner of the slot and on the inverse of KIX.\<close>

definition owner_conflict :: "ChunkId \<Rightarrow> SlotPublicationReservation \<Rightarrow> bool" where
  "owner_conflict c reservation =
     (case rv_current reservation of Some owner \<Rightarrow> po_chunk_id owner \<noteq> c | None \<Rightarrow> False)"

definition inverse_conflict :: "ChunkId \<Rightarrow> u64 \<Rightarrow> TargetRouter \<Rightarrow> bool" where
  "inverse_conflict c slot t =
     (case lookup_granule_chunk (router_drive t) slot (tr_engine t) of
        Some (owner_chunk, _) \<Rightarrow>
          owner_chunk \<noteq> c \<and> (case kix_get owner_chunk (tr_engine t) of Inr (Some _) \<Rightarrow> True | _ \<Rightarrow> False)
      | None \<Rightarrow> False)"

definition write_lane :: "(u8 list \<Rightarrow> u32) \<Rightarrow> u64 \<Rightarrow> u64 \<Rightarrow> ChunkId \<Rightarrow> u32 \<Rightarrow> ChunkSelfDescribingIdentity \<Rightarrow> u8 list
    \<Rightarrow> (TargetRouter, io_error, LocationRecord) st" where
  "write_lane crc slot lane c gen ident body t =
     on_media (write_payload_to_lane_unsynced crc (tr_media t) slot lane c gen ident body) t"

definition retire_superseded :: "(u8 list \<Rightarrow> u32) \<Rightarrow> ChunkId \<Rightarrow> SlotPublicationReservation \<Rightarrow> unit kst" where
  "retire_superseded crc c reservation =
     (case rv_current reservation of
        Some owner \<Rightarrow> if po_chunk_id owner \<noteq> c then client_call (kix_delete crc (po_chunk_id owner)) else st_ret ()
      | None \<Rightarrow> st_ret ())"

definition publish_reserved :: "(u8 list \<Rightarrow> u32) \<Rightarrow> ChunkId \<Rightarrow> u64 \<Rightarrow> u32 \<Rightarrow> ChunkSelfDescribingIdentity \<Rightarrow> u8 list
    \<Rightarrow> SlotPublicationReservation \<Rightarrow> LocationRecord kst" where
  "publish_reserved crc c slot gen ident body reservation =
     st_bind (st_map_err map_media_error (write_lane crc slot (rv_lane reservation) c gen ident body)) (\<lambda>r.
     st_bind (st_map_err map_media_error (on_media handle_fdatasync)) (\<lambda>_.
     st_bind (client_call (kix_upsert crc c slot r)) (\<lambda>_.
     st_bind (retire_superseded crc c reservation) (\<lambda>_.
     st_ret r))))"

definition write_chunk_to_slot :: "(u8 list \<Rightarrow> u32) \<Rightarrow> ChunkId \<Rightarrow> u64 \<Rightarrow> u32 \<Rightarrow> ChunkSelfDescribingIdentity \<Rightarrow> u8 list
    \<Rightarrow> ServiceResponse kst" where
  "write_chunk_to_slot crc c slot gen ident body =
     st_bind (reserve_lane c slot) (\<lambda>reservation. \<lambda>t.
     if owner_conflict c reservation \<or> inverse_conflict c slot t
     then (Inl (service_error CONFLICT False), modify_slot slot rollback t)
     else case publish_reserved crc c slot gen ident body reservation t of
       (Inr r, t') \<Rightarrow>
         (Inr (with_location_headers_and_accounted_bytes 201 (document_from_record r slot) (ucast (stored_length r))),
          modify_slot slot (commit \<lparr>po_chunk_id = c, po_record = r\<rparr>) t')
     | (Inl Waiting, t') \<Rightarrow> (Inl Waiting, t')
     | (Inl (Refused e), t') \<Rightarrow> (Inl (Refused e), modify_slot slot rollback t'))"

definition release_granules :: "u64 list \<Rightarrow> TargetRouter \<Rightarrow> TargetRouter" where
  "release_granules slots t = t\<lparr>tr_allocator := fold release slots (tr_allocator t)\<rparr>"

definition write_chunk_with_payload :: "(u8 list \<Rightarrow> u32) \<Rightarrow> ChunkId \<Rightarrow> u64 \<Rightarrow> u32 \<Rightarrow> ChunkSelfDescribingIdentity \<Rightarrow> u8 list
    \<Rightarrow> ServiceResponse kst" where
  "write_chunk_with_payload crc c slot gen ident body t =
     (if slot = GRANULE_ALLOCATE
      then case allocate_granule t of
          (None, t') \<Rightarrow> (Inl (service_error INSUFFICIENT_STORAGE True), t')
        | (Some chosen, t') \<Rightarrow>
            (case write_chunk_to_slot crc c chosen gen ident body t' of
               (Inl Waiting, t'') \<Rightarrow> (Inl Waiting, t'')
             | (result, t'') \<Rightarrow> (result, release_granules [chosen] t''))
      else write_chunk_to_slot crc c slot gen ident body t)"

definition query_identity :: "string option \<Rightarrow> ChunkSelfDescribingIdentity" where
  "query_identity query =
     \<lparr>id_stripe = ucast (parse_query_u32_opt query ''stripe''), id_object_id = parse_query_u32_opt query ''object_id'',
      id_object_version = ucast (parse_query_u32_opt query ''object_version''), id_frag = ucast (parse_query_u32_opt query ''frag'')\<rparr>"

definition handle_write :: "(u8 list \<Rightarrow> u32) \<Rightarrow> ChunkId \<Rightarrow> string option \<Rightarrow> u8 list \<Rightarrow> ServiceResponse kst" where
  "handle_write crc c query body =
     st_bind (st_lift (parse_query_granule_index query)) (\<lambda>slot.
     st_bind (st_lift (parse_query_u32 query ''generation'')) (\<lambda>gen.
     write_chunk_with_payload crc c slot gen (query_identity query) body))"

definition handle_direct_chunk_write :: "(u8 list \<Rightarrow> u32) \<Rightarrow> ChunkId \<Rightarrow> u64 \<Rightarrow> u32 \<Rightarrow> ChunkSelfDescribingIdentity \<Rightarrow> u8 list
    \<Rightarrow> ServiceResponse kst" where
  "handle_direct_chunk_write crc c slot gen ident body = write_chunk_with_payload crc c slot gen ident body"

section \<open>Reading\<close>

definition PUBLICATION_RETRY_LIMIT :: nat where
  "PUBLICATION_RETRY_LIMIT = 2"

text \<open>
  The loop that \<open>resolve_published_record_for_head\<close> and \<open>read_published_payload\<close> share: access the media at the
  record; if what is there is not the record, look the chunk up again and retry while that gives another record.
\<close>

fun publication_loop :: "(LocationRecord \<Rightarrow> (TargetRouter, io_error, 'a) st) \<Rightarrow> ChunkId \<Rightarrow> nat list \<Rightarrow> LocationRecord
    \<Rightarrow> (LocationRecord \<times> 'a) option kst" where
  "publication_loop access c [] r = st_err (service_error CONFLICT True)"
| "publication_loop access c (attempt # rest) r = (\<lambda>t.
     case access r t of
       (Inr x, t') \<Rightarrow> (Inr (Some (r, x)), t')
     | (Inl err, t') \<Rightarrow>
         if publication_retryable err \<and> attempt < PUBLICATION_RETRY_LIMIT
         then st_bind (kix_lookup c) (\<lambda>found.
                case found of
                  None \<Rightarrow> st_ret None
                | Some latest \<Rightarrow>
                    if latest = r then st_err (map_media_error err) else publication_loop access c rest latest) t'
         else if err = NotFound then (Inr None, t')
         else (Inl (map_media_error err), t'))"

definition resolve_published_record_for_head :: "(u8 list \<Rightarrow> u32) \<Rightarrow> ChunkId \<Rightarrow> LocationRecord \<Rightarrow> LocationRecord option kst" where
  "resolve_published_record_for_head crc c initial =
     st_bind (publication_loop (\<lambda>r t. on_media (handle_validate_live_record crc (tr_media t) c r) t) c
       [0..<Suc PUBLICATION_RETRY_LIMIT] initial) (\<lambda>found. st_ret (map_option fst found))"

definition read_published_payload :: "(u8 list \<Rightarrow> u32) \<Rightarrow> ChunkId \<Rightarrow> LocationRecord \<Rightarrow> (LocationRecord \<times> u8 list) option kst" where
  "read_published_payload crc c initial =
     publication_loop (\<lambda>r t. on_media (handle_read_payload crc (tr_media t) c r) t) c [0..<Suc PUBLICATION_RETRY_LIMIT] initial"

definition no_body :: "u8 list \<Rightarrow> unit kst" where
  "no_body body = (if body \<noteq> [] then st_err (service_error BAD_REQUEST True) else st_ret ())"

definition handle_head :: "(u8 list \<Rightarrow> u32) \<Rightarrow> ChunkId \<Rightarrow> u8 list \<Rightarrow> ServiceResponse kst" where
  "handle_head crc c body =
     st_bind (no_body body) (\<lambda>_.
     st_bind (kix_lookup c) (\<lambda>found.
     case found of
       None \<Rightarrow> st_ret (response_empty NOT_FOUND)
     | Some r \<Rightarrow>
         st_bind (resolve_published_record_for_head crc c r) (\<lambda>resolved.
         case resolved of
           None \<Rightarrow> st_ret (response_empty NOT_FOUND)
         | Some r \<Rightarrow> \<lambda>t. st_bind (st_lift (location_document r t)) (\<lambda>location. st_ret (with_location_headers 200 location)) t)))"

definition handle_read :: "(u8 list \<Rightarrow> u32) \<Rightarrow> ChunkId \<Rightarrow> u8 list \<Rightarrow> ServiceResponse kst" where
  "handle_read crc c body =
     st_bind (no_body body) (\<lambda>_.
     st_bind (kix_lookup c) (\<lambda>found.
     case found of
       None \<Rightarrow> st_ret (response_empty NOT_FOUND)
     | Some r \<Rightarrow>
         st_bind (read_published_payload crc c r) (\<lambda>resolved.
         case resolved of
           None \<Rightarrow> st_ret (response_empty NOT_FOUND)
         | Some (r, payload) \<Rightarrow> \<lambda>t.
             st_bind (st_lift (location_document r t)) (\<lambda>location. st_ret (response_octets 200 location payload)) t)))"

definition handle_direct_chunk_read :: "(u8 list \<Rightarrow> u32) \<Rightarrow> ChunkId \<Rightarrow> ServiceResponse kst" where
  "handle_direct_chunk_read crc c = handle_read crc c []"

section \<open>Listing occupied granules\<close>

definition DEFAULT_OCCUPIED_LIMIT :: nat where "DEFAULT_OCCUPIED_LIMIT = 256"
definition MAX_OCCUPIED_LIMIT :: nat where "MAX_OCCUPIED_LIMIT = 4096"

definition occupied_entry :: "(u8 list \<Rightarrow> u32) \<Rightarrow> u64 \<times> ChunkId \<times> u32 \<Rightarrow> TargetRouter \<Rightarrow> OccupiedGranuleDocument list \<times> TargetRouter" where
  "occupied_entry crc = (\<lambda>(slot, c, gen) t.
     case kix_get c (tr_engine t) of
       Inr (Some r) \<Rightarrow>
         (case on_media (handle_read_identity crc (tr_media t) c r) t of
            (Inl _, t') \<Rightarrow> ([], t')
          | (Inr ident, t') \<Rightarrow>
              ([\<lparr>og_slot = slot, og_chunk_id = c, og_generation = gen, og_object_id = id_object_id ident,
                 og_object_version = ucast (id_object_version ident), og_stripe = ucast (id_stripe ident),
                 og_frag = ucast (id_frag ident)\<rparr>], t'))
     | _ \<Rightarrow> ([], t))"

fun occupied_page :: "(u8 list \<Rightarrow> u32) \<Rightarrow> u64 option \<Rightarrow> nat \<Rightarrow> (u64 \<times> ChunkId \<times> u32) list \<Rightarrow> nat \<Rightarrow> u64 \<Rightarrow> OccupiedGranuleDocument list
    \<Rightarrow> TargetRouter \<Rightarrow> (OccupiedGranuleDocument list \<times> u64 option) \<times> TargetRouter" where
  "occupied_page crc cursor limit [] examined last_examined acc t = ((acc, None), t)"
| "occupied_page crc cursor limit (x # xs) examined last_examined acc t =
     (if (case cursor of Some c \<Rightarrow> fst x \<le> c | None \<Rightarrow> False) then occupied_page crc cursor limit xs examined last_examined acc t
      else if examined \<ge> limit then ((acc, Some last_examined), t)
      else case occupied_entry crc x t of
        (es, t') \<Rightarrow> occupied_page crc cursor limit xs (Suc examined) (fst x) (acc @ es) t')"

definition handle_occupied_granules :: "(u8 list \<Rightarrow> u32) \<Rightarrow> string option \<Rightarrow> u8 list \<Rightarrow> ServiceResponse kst" where
  "handle_occupied_granules crc query body =
     st_bind (no_body body) (\<lambda>_. \<lambda>t.
     let cursor = parse_query_u64_present query ''cursor'';
         limit = (case parse_query_u64_present query ''limit'' of Some v \<Rightarrow> unat v | None \<Rightarrow> DEFAULT_OCCUPIED_LIMIT);
         limit = min (max limit 1) MAX_OCCUPIED_LIMIT;
         occupied = occupied_granules (router_drive t) (tr_engine t)
     in case occupied_page crc cursor limit occupied 0 (case cursor of Some c \<Rightarrow> c | None \<Rightarrow> 0) [] t of
          ((es, next_cursor), t') \<Rightarrow> (Inr (response_json 200 (OccupiedGranulesPage es next_cursor)), t'))"

section \<open>Deleting\<close>

definition not_deleted :: ServiceResponse where
  "not_deleted = response_json 200 (DeleteChunkDocument False 0)"

text \<open>
  The part of \<open>handle_delete\<close> before the slot is claimed. The result is \<open>None\<close> if there is nothing to delete, else the
  record that was looked up, the generation of the tombstone and the slot.
\<close>

definition delete_fence :: "ChunkId \<Rightarrow> u32 option \<Rightarrow> LocationRecord \<Rightarrow> (LocationRecord \<times> u32 \<times> u64) option kst" where
  "delete_fence c expected_generation r =
     st_bind (st_lift (ok_or (service_error PRECONDITION_FAILED True) (checked_add (generation r) 1))) (\<lambda>tombstone_generation. \<lambda>t.
     case chunk_media_slot_index_for_record (handle_layout (tr_media t)) r of
       Inl _ \<Rightarrow> (Inl (service_error PRECONDITION_FAILED True), t)
     | Inr slot \<Rightarrow>
         (case expected_generation of
            None \<Rightarrow> (Inr (Some (r, tombstone_generation, slot)), t)
          | Some gen \<Rightarrow>
              if lookup_granule_chunk (router_drive t) slot (tr_engine t) = Some (c, gen)
              then (Inr (Some (r, tombstone_generation, slot)), t) else (Inr None, t)))"

definition delete_check :: "ChunkId \<Rightarrow> u32 option \<Rightarrow> (LocationRecord \<times> u32 \<times> u64) option kst" where
  "delete_check c expected_generation =
     st_bind (kix_lookup c) (\<lambda>found.
     case found of None \<Rightarrow> st_ret None | Some r \<Rightarrow> delete_fence c expected_generation r)"

definition tombstone_and_retire :: "(u8 list \<Rightarrow> u32) \<Rightarrow> ChunkId \<Rightarrow> LocationRecord \<Rightarrow> u32 \<Rightarrow> unit kst" where
  "tombstone_and_retire crc c r tombstone_generation =
     st_bind (st_map_err map_media_error (\<lambda>t. on_media (handle_write_tombstone crc (tr_media t) c r tombstone_generation) t)) (\<lambda>_.
     client_call (kix_delete crc c))"

text \<open>The rest of it: claim the slot, tombstone, retire, free the granule, let the slot go.\<close>

definition delete_free :: "(u8 list \<Rightarrow> u32) \<Rightarrow> ChunkId \<Rightarrow> LocationRecord \<Rightarrow> u32 \<Rightarrow> u64 \<Rightarrow> ServiceResponse kst" where
  "delete_free crc c r tombstone_generation slot =
     st_bind (slot_publication slot) (\<lambda>_.
     st_bind (on_slot slot begin_delete) (\<lambda>current_owner. \<lambda>t.
     if (case current_owner of Some owner \<Rightarrow> po_chunk_id owner \<noteq> c | None \<Rightarrow> False)
     then (Inl (service_error CONFLICT True), modify_slot slot (finish_delete False) t)
     else case tombstone_and_retire crc c r tombstone_generation t of
       (Inr _, t') \<Rightarrow>
         (Inr (response_json 200 (DeleteChunkDocument True tombstone_generation)),
          modify_slot slot (finish_delete True) (t'\<lparr>tr_engine := clear_granule_inverse (router_drive t') slot (tr_engine t')\<rparr>))
     | (Inl Waiting, t') \<Rightarrow> (Inl Waiting, t')
     | (Inl (Refused e), t') \<Rightarrow> (Inl (Refused e), modify_slot slot (finish_delete False) t')))"

definition delete_chunk :: "(u8 list \<Rightarrow> u32) \<Rightarrow> ChunkId \<Rightarrow> u32 option \<Rightarrow> ServiceResponse kst" where
  "delete_chunk crc c expected_generation =
     st_bind (delete_check c expected_generation) (\<lambda>found.
     case found of
       None \<Rightarrow> st_ret not_deleted
     | Some (r, tombstone_generation, slot) \<Rightarrow> delete_free crc c r tombstone_generation slot)"

definition handle_delete :: "(u8 list \<Rightarrow> u32) \<Rightarrow> ChunkId \<Rightarrow> string option \<Rightarrow> u8 list \<Rightarrow> ServiceResponse kst" where
  "handle_delete crc c query body =
     st_bind (no_body body) (\<lambda>_. delete_chunk crc c (parse_query_u32_present query ''generation''))"

section \<open>Chunk requests\<close>

definition handle_chunk :: "(u8 list \<Rightarrow> u32) \<Rightarrow> (string \<Rightarrow> u8 list option) \<Rightarrow> Method \<Rightarrow> string \<Rightarrow> string option \<Rightarrow> u8 list
    \<Rightarrow> ServiceResponse kst" where
  "handle_chunk crc hex_decode m path query body =
     st_bind (st_lift (parse_chunk_id_from_path hex_decode path)) (\<lambda>c.
     case m of
       HEAD \<Rightarrow> handle_head crc c body
     | GET \<Rightarrow> handle_read crc c body
     | PUT \<Rightarrow> handle_write crc c query body
     | DELETE \<Rightarrow> handle_delete crc c query body
     | _ \<Rightarrow> st_err (service_error METHOD_NOT_ALLOWED True))"

end
