(* ===== verification/Kst_Packed.thy ===== *)
theory Kst_Packed
  imports Kst_Router
begin

text \<open>
  \<open>poc/kst/src/service.rs\<close>: packed requests of KP2 (stage every entry, one durability barrier, publish every
  entry), the table of routes, the classes of requests, and the router that \<open>main.rs\<close> starts with.
\<close>

section \<open>Packed writes\<close>

datatype entry_error =
  MediaRejected io_error
| BarrierFailed io_error
| SlotOwned ChunkId
| GranuleOwned ChunkId
| NotRetired ChunkId
| NotMapped
| NotPublished

datatype PackEntryStage =
  Written SlotPublicationReservation ChunkId u64 u32 LocationRecord
| FailedEntry PackedWriteReplyEntry

definition reply_entry :: "ChunkId \<Rightarrow> u64 \<Rightarrow> u32 \<Rightarrow> u16 \<Rightarrow> PackedWriteLocation option \<Rightarrow> u8 list option \<Rightarrow> PackedWriteReplyEntry" where
  "reply_entry c slot gen status loc err =
     \<lparr>ra_chunk_id = c, ra_slot_index = slot, ra_requested_generation = gen, ra_status_code = status,
      ra_location = loc, ra_error = err\<rparr>"

fun rollback_stage :: "PackEntryStage \<Rightarrow> TargetRouter \<Rightarrow> TargetRouter" where
  "rollback_stage (Written reservation c slot gen r) t = modify_slot slot rollback t"
| "rollback_stage (FailedEntry reply) t = t"

definition rollback_staged :: "PackEntryStage list \<Rightarrow> TargetRouter \<Rightarrow> TargetRouter" where
  "rollback_staged staged t = fold rollback_stage staged t"

definition entry_identity :: "WriteIdentity \<Rightarrow> ChunkSelfDescribingIdentity" where
  "entry_identity i =
     \<lparr>id_stripe = wi_stripe i, id_object_id = wi_object_id i, id_object_version = wi_object_version i, id_frag = wi_frag i\<rparr>"

fun stage_entries :: "(u8 list \<Rightarrow> u32) \<Rightarrow> (entry_error \<Rightarrow> u8 list) \<Rightarrow> PackedWriteEntry list \<Rightarrow> PackEntryStage list
    \<Rightarrow> PackEntryStage list kst" where
  "stage_entries crc error_text [] staged = st_ret staged"
| "stage_entries crc error_text (entry # rest) staged = (\<lambda>t.
     let c = we_chunk_id entry; slot = we_slot_index entry; gen = we_generation entry in
     case reserve_lane c slot t of
       (Inl Waiting, t') \<Rightarrow> (Inl Waiting, t')
     | (Inl (Refused e), t') \<Rightarrow> (Inl (Refused e), rollback_staged staged t')
     | (Inr reservation, t') \<Rightarrow>
         (case write_lane crc slot (rv_lane reservation) c gen (entry_identity (we_identity entry)) (we_payload entry) t' of
            (Inr r, t'') \<Rightarrow> stage_entries crc error_text rest (staged @ [Written reservation c slot gen r]) t''
          | (Inl err, t'') \<Rightarrow>
              stage_entries crc error_text rest
                (staged @ [FailedEntry (reply_entry c slot gen 422 None (Some (error_text (MediaRejected err))))])
                (modify_slot slot rollback t'')))"

definition stage_packed_writes :: "(u8 list \<Rightarrow> u32) \<Rightarrow> (entry_error \<Rightarrow> u8 list) \<Rightarrow> PackedWriteEntry list \<Rightarrow> PackEntryStage list kst" where
  "stage_packed_writes crc error_text entries =
     (if \<not> distinct (map we_slot_index entries) then st_err (service_error BAD_REQUEST True)
      else stage_entries crc error_text entries [])"

definition reserved_owner :: "ChunkId \<Rightarrow> SlotPublicationReservation \<Rightarrow> ChunkId" where
  "reserved_owner c reservation = (case rv_current reservation of Some owner \<Rightarrow> po_chunk_id owner | None \<Rightarrow> c)"

definition location_option :: "LocationRecord \<Rightarrow> TargetRouter \<Rightarrow> PackedWriteLocation option" where
  "location_option r t = (case location_document r t of Inl _ \<Rightarrow> None | Inr d \<Rightarrow> document_location d)"

text \<open>One turn of the loop that publishes; \<open>barrier_error\<close> is the error of the shared barrier, if it failed.\<close>

fun publish_stage :: "(u8 list \<Rightarrow> u32) \<Rightarrow> (entry_error \<Rightarrow> u8 list) \<Rightarrow> io_error option \<Rightarrow> PackEntryStage \<Rightarrow> PackedWriteReplyEntry kst" where
  "publish_stage crc error_text barrier_error (FailedEntry reply) t = (Inr reply, t)"
| "publish_stage crc error_text barrier_error (Written reservation c slot gen r) t =
     (let fail = (\<lambda>status loc err. reply_entry c slot gen status loc (Some (error_text err))) in
      case barrier_error of
        Some e \<Rightarrow> (Inr (fail 500 None (BarrierFailed e)), modify_slot slot rollback t)
      | None \<Rightarrow>
          if owner_conflict c reservation
          then (Inr (fail 409 None (SlotOwned (reserved_owner c reservation))),
                modify_slot slot rollback t)
          else if inverse_conflict c slot t
          then (Inr (fail 409 None (GranuleOwned (case lookup_granule_chunk (router_drive t) slot (tr_engine t) of Some (oc, _) \<Rightarrow> oc | None \<Rightarrow> c))),
                modify_slot slot rollback t)
          else case client_call (kix_upsert crc c slot r) t of
            (Inl Waiting, t') \<Rightarrow> (Inl Waiting, t')
          | (Inl (Refused _), t') \<Rightarrow>
              (Inr (fail 500 (location_option r t') NotPublished), modify_slot slot rollback t')
          | (Inr _, t') \<Rightarrow>
              (case retire_superseded crc c reservation t' of
                 (Inl Waiting, t'') \<Rightarrow> (Inl Waiting, t'')
               | (Inl (Refused _), t'') \<Rightarrow>
                   (Inr (fail 500 (location_option r t'') (NotRetired (reserved_owner c reservation))), modify_slot slot rollback t'')
               | (Inr _, t'') \<Rightarrow>
                   let t3 = modify_slot slot (commit \<lparr>po_chunk_id = c, po_record = r\<rparr>) t'' in
                   (case location_option r t3 of
                      Some loc \<Rightarrow> (Inr (reply_entry c slot gen 201 (Some loc) None), t3)
                    | None \<Rightarrow> (Inr (fail 500 None NotMapped), t3))))"

fun publish_stages :: "(u8 list \<Rightarrow> u32) \<Rightarrow> (entry_error \<Rightarrow> u8 list) \<Rightarrow> io_error option \<Rightarrow> PackEntryStage list
    \<Rightarrow> PackedWriteReplyEntry list kst" where
  "publish_stages crc error_text barrier_error [] = st_ret []"
| "publish_stages crc error_text barrier_error (stage # rest) =
     st_bind (publish_stage crc error_text barrier_error stage) (\<lambda>reply.
     st_bind (publish_stages crc error_text barrier_error rest) (\<lambda>replies. st_ret (reply # replies)))"

text \<open>The granules of the entries that leave the choice to the target; \<open>None\<close> if the drive is full.\<close>

fun resolve_granules :: "PackedWriteEntry list \<Rightarrow> u64 list \<Rightarrow> TargetRouter \<Rightarrow> (PackedWriteEntry list option \<times> u64 list) \<times> TargetRouter" where
  "resolve_granules [] allocated t = ((Some [], allocated), t)"
| "resolve_granules (entry # rest) allocated t =
     (if we_slot_index entry = GRANULE_ALLOCATE
      then case allocate_granule t of
          (None, t') \<Rightarrow> ((None, allocated), t')
        | (Some slot, t') \<Rightarrow>
            (case resolve_granules rest (allocated @ [slot]) t' of
               ((entries, all_allocated), t'') \<Rightarrow> ((map_option ((#) (entry\<lparr>we_slot_index := slot\<rparr>)) entries, all_allocated), t''))
      else case resolve_granules rest allocated t of
          ((entries, all_allocated), t') \<Rightarrow> ((map_option ((#) entry) entries, all_allocated), t'))"

definition is_written :: "PackEntryStage \<Rightarrow> bool" where
  "is_written stage = (case stage of Written _ _ _ _ _ \<Rightarrow> True | FailedEntry _ \<Rightarrow> False)"

text \<open>Staging, the barrier and publishing, on entries whose granules are chosen.\<close>

definition write_pack :: "(u8 list \<Rightarrow> u32) \<Rightarrow> (entry_error \<Rightarrow> u8 list) \<Rightarrow> PackedWriteEntry list \<Rightarrow> PackedWriteReplyEntry list kst" where
  "write_pack crc error_text entries =
     st_bind (stage_packed_writes crc error_text entries) (\<lambda>staged. \<lambda>t.
     case (if list_ex is_written staged then on_media handle_fdatasync t else (Inr (), t)) of
       (Inr _, t') \<Rightarrow> publish_stages crc error_text None staged t'
     | (Inl e, t') \<Rightarrow> publish_stages crc error_text (Some e) staged t')"

definition lift_err :: "('e \<Rightarrow> 'f) \<Rightarrow> 'e + 'a \<Rightarrow> 'f + 'a" where
  "lift_err f r = (case r of Inl e \<Rightarrow> Inl (f e) | Inr x \<Rightarrow> Inr x)"

definition kp2_request_error :: "io_error \<Rightarrow> fault" where
  "kp2_request_error e =
     service_error (if e = InvalidInput \<or> e = InvalidData then BAD_REQUEST else INTERNAL_SERVER_ERROR) True"

definition kp2_internal_error :: "io_error \<Rightarrow> fault" where
  "kp2_internal_error e = service_error INTERNAL_SERVER_ERROR True"

definition kp2_headers :: "(string \<Rightarrow> bool) \<Rightarrow> string \<Rightarrow> nat \<Rightarrow> nat \<Rightarrow> header_list io_result" where
  "kp2_headers value_ok kind chunk_count total_payload_bytes = apply_packed_headers value_ok kind chunk_count total_payload_bytes []"

definition KP2_CONTENT_TYPE :: string where
  "KP2_CONTENT_TYPE = ''application/vnd.keinfs.kp2''"

definition payload_total :: "PackedWriteEntry list \<Rightarrow> nat" where
  "payload_total entries = sum_list (map (\<lambda>e. length (we_payload e)) entries)"

definition kp2_write_response :: "(string \<Rightarrow> bool) \<Rightarrow> nat \<Rightarrow> PackedWriteReplyEntry list \<Rightarrow> fault + ServiceResponse" where
  "kp2_write_response value_ok total_payload_bytes replies =
     (let entry_count = length replies;
          status = (if length (filter (\<lambda>e. ra_status_code e = 201) replies) = entry_count then 201 else 207)
      in bind_r (lift_err kp2_internal_error (encode_write_reply replies)) (\<lambda>payload.
         bind_r (lift_err kp2_internal_error (kp2_headers value_ok KIND_WRITE entry_count total_payload_bytes)) (\<lambda>headers.
         Inr (bytes_with_headers status KP2_CONTENT_TYPE payload (of_nat total_payload_bytes) headers))))"

definition handle_kp2_write :: "(string \<Rightarrow> bool) \<Rightarrow> (u8 list \<Rightarrow> u32) \<Rightarrow> (entry_error \<Rightarrow> u8 list) \<Rightarrow> header_view \<Rightarrow> u8 list
    \<Rightarrow> ServiceResponse kst" where
  "handle_kp2_write value_ok crc error_text headers body =
     st_bind (st_lift (lift_err kp2_request_error (validate_request_headers headers KIND_WRITE))) (\<lambda>_.
     st_bind (st_lift (lift_err kp2_request_error (decode_write_request body))) (\<lambda>pack.
     st_bind (st_lift (lift_err kp2_request_error (validate_declared_counts headers (length pack) (payload_total pack)))) (\<lambda>_. \<lambda>t.
     case resolve_granules pack [] t of
       ((None, allocated), t') \<Rightarrow> (Inl (service_error INSUFFICIENT_STORAGE True), release_granules allocated t')
     | ((Some entries, allocated), t') \<Rightarrow>
         (case write_pack crc error_text entries t' of
            (Inl Waiting, t'') \<Rightarrow> (Inl Waiting, t'')
          | (Inl (Refused e), t'') \<Rightarrow> (Inl (Refused e), release_granules allocated t'')
          | (Inr replies, t'') \<Rightarrow> (kp2_write_response value_ok (payload_total pack) replies, release_granules allocated t'')))))"

section \<open>Packed reads\<close>

definition serve_range :: "ChunkRange option \<Rightarrow> u8 list \<Rightarrow> u8 list" where
  "serve_range chunk_range payload =
     (case chunk_range of
        Some r \<Rightarrow>
          let start = min (unat (cr_offset r)) (length payload);
              stop = min (min (start + unat (cr_length r)) (2 ^ 64 - 1)) (length payload)
          in subslice payload start stop
      | None \<Rightarrow> payload)"

definition read_location :: "LocationRecord \<Rightarrow> u64 \<Rightarrow> PackedReadLocation" where
  "read_location r slot =
     \<lparr>pl_drive_id = drive_id r,
      pl_location_kind = (case location_kind r of Extent \<Rightarrow> LkExtent | PackedContainer \<Rightarrow> LkPackedContainer),
      pl_physical_offset = physical_offset r, pl_logical_length = logical_length r, pl_stored_length = stored_length r,
      pl_generation = generation r, pl_checksum = checksum r, pl_slot_index = slot\<rparr>"

definition read_failed :: "ChunkId \<Rightarrow> u16 \<Rightarrow> PackedReadEntry" where
  "read_failed c status = \<lparr>re_chunk_id = c, re_status_code = status, re_location = None, re_payload = []\<rparr>"

definition read_entry :: "(u8 list \<Rightarrow> u32) \<Rightarrow> ChunkId \<Rightarrow> ChunkRange option \<Rightarrow> PackedReadEntry kst" where
  "read_entry crc c chunk_range =
     st_bind (kix_lookup c) (\<lambda>found.
     case found of
       None \<Rightarrow> st_ret (read_failed c 404)
     | Some r \<Rightarrow> \<lambda>t.
         (case read_published_payload crc c r t of
            (Inl Waiting, t') \<Rightarrow> (Inl Waiting, t')
          | (Inl (Refused _), t') \<Rightarrow> (Inr (read_failed c 500), t')
          | (Inr None, t') \<Rightarrow> (Inr (read_failed c 404), t')
          | (Inr (Some (r, payload)), t') \<Rightarrow>
              (case chunk_media_slot_index_for_record (handle_layout (tr_media t')) r of
                 Inl _ \<Rightarrow> (Inl (service_error PRECONDITION_FAILED True), t')
               | Inr slot \<Rightarrow>
                   (Inr \<lparr>re_chunk_id = c, re_status_code = 200, re_location = Some (read_location r slot),
                         re_payload = serve_range chunk_range payload\<rparr>, t'))))"

fun read_entries :: "(u8 list \<Rightarrow> u32) \<Rightarrow> ChunkRange list option \<Rightarrow> nat \<Rightarrow> ChunkId list \<Rightarrow> PackedReadEntry list kst" where
  "read_entries crc ranges i [] = st_ret []"
| "read_entries crc ranges i (c # cs) =
     st_bind (read_entry crc c (case ranges of None \<Rightarrow> None | Some rs \<Rightarrow> if i < length rs then Some (rs ! i) else None)) (\<lambda>entry.
     st_bind (read_entries crc ranges (Suc i) cs) (\<lambda>entries. st_ret (entry # entries)))"

definition handle_kp2_read :: "(string \<Rightarrow> bool) \<Rightarrow> (u8 list \<Rightarrow> u32) \<Rightarrow> header_view \<Rightarrow> u8 list \<Rightarrow> ServiceResponse kst" where
  "handle_kp2_read value_ok crc headers body =
     st_bind (st_lift (lift_err kp2_request_error (validate_request_headers headers KIND_QUERY))) (\<lambda>_.
     st_bind (st_lift (lift_err kp2_request_error (decode_read_query body))) (\<lambda>query.
     st_bind (st_lift (lift_err kp2_request_error (validate_declared_counts headers (length (rq_chunk_ids query)) 0))) (\<lambda>_.
     st_bind (read_entries crc (rq_ranges query) 0 (rq_chunk_ids query)) (\<lambda>entries.
     let total_payload_bytes = sum_list (map (\<lambda>e. length (re_payload e)) entries) in
     st_bind (st_lift (lift_err kp2_internal_error (encode_read_response entries))) (\<lambda>encoded.
     st_bind (st_lift (lift_err kp2_internal_error (kp2_headers value_ok KIND_READ (length entries) total_payload_bytes))) (\<lambda>hs.
     st_ret (bytes_with_headers 200 KP2_CONTENT_TYPE encoded (of_nat total_payload_bytes) hs)))))))"

section \<open>Routes\<close>

definition route_buffered :: "(string \<Rightarrow> bool) \<Rightarrow> (u8 list \<Rightarrow> u32) \<Rightarrow> (string \<Rightarrow> u8 list option) \<Rightarrow> (entry_error \<Rightarrow> u8 list)
    \<Rightarrow> Method \<Rightarrow> string \<Rightarrow> string option \<Rightarrow> header_view \<Rightarrow> u8 list \<Rightarrow> ServiceResponse kst" where
  "route_buffered value_ok crc hex_decode error_text m path query headers body =
     (if m = GET \<and> path = ''/v1/info'' then st_bind (no_body body) (\<lambda>_. st_ret (response_json 200 InfoDocument))
      else if m = GET \<and> path = ''/v1/stats'' then st_bind (no_body body) (\<lambda>_. st_ret (response_json 200 StatsDocument))
      else if m = GET \<and> path = ''/v1/granules/occupied'' then handle_occupied_granules crc query body
      else if m = PUT \<and> path = ''/v1/kp2/chunk-pack'' then handle_kp2_write value_ok crc error_text headers body
      else if m = POST \<and> path = ''/v1/kp2/chunk-pack/read'' then handle_kp2_read value_ok crc headers body
      else if starts_with ''/v1/chunk/'' path then handle_chunk crc hex_decode m path query body
      else st_err (service_error NOT_FOUND True))"

datatype RpcKind = RpcTargetInfo | RpcStats | RpcWrite | RpcRead | RpcHead | RpcDelete | RpcOther

definition classify_rpc :: "Method \<Rightarrow> string \<Rightarrow> RpcKind" where
  "classify_rpc m path =
     (if m = GET \<and> path = ''/v1/info'' then RpcTargetInfo
      else if m = GET \<and> path = ''/v1/stats'' then RpcStats
      else if m = PUT \<and> path = ''/v1/kp2/chunk-pack'' then RpcWrite
      else if m = POST \<and> path = ''/v1/kp2/chunk-pack/read'' then RpcRead
      else if m = HEAD \<and> starts_with ''/v1/chunk/'' path then RpcHead
      else if m = GET \<and> starts_with ''/v1/chunk/'' path then RpcRead
      else if m = PUT \<and> starts_with ''/v1/chunk/'' path then RpcWrite
      else if m = DELETE \<and> starts_with ''/v1/chunk/'' path then RpcDelete
      else RpcOther)"

definition stream_class_name :: "RpcKind \<Rightarrow> string" where
  "stream_class_name rpc = (case rpc of RpcWrite \<Rightarrow> ''write'' | RpcDelete \<Rightarrow> ''write'' | _ \<Rightarrow> ''read'')"

definition is_streamed_chunk_write :: "Method \<Rightarrow> string \<Rightarrow> bool" where
  "is_streamed_chunk_write m path \<longleftrightarrow> m = PUT \<and> starts_with ''/v1/chunk/'' path"

definition is_direct_chunk_read_fast_path :: "Method \<Rightarrow> string \<Rightarrow> bool" where
  "is_direct_chunk_read_fast_path m path \<longleftrightarrow> starts_with ''/v1/chunk/'' path \<and> (m = GET \<or> m = HEAD)"

definition parse_content_length :: "header_view \<Rightarrow> fault + nat option" where
  "parse_content_length headers =
     (case headers ''content-length'' of
        None \<Rightarrow> Inr None
      | Some value \<Rightarrow>
          bind_r (ok_or (service_error BAD_REQUEST True) value) (\<lambda>v.
          bind_r (ok_or (service_error BAD_REQUEST True) (parse_unsigned 64 v)) (\<lambda>n. Inr (Some n))))"

section \<open>Starting\<close>

text \<open>The router that \<open>serve\<close> builds on an engine and a media handle that are open.\<close>

definition start_router :: "KixEngine \<Rightarrow> ChunkMediaHandle \<Rightarrow> device \<Rightarrow> io_error + TargetRouter" where
  "start_router e h d =
     bind_r (build_slot_publications (handle_layout h) (key_slots (handle_layout h)) (snapshot_entries e) e) (\<lambda>(e', slots).
     Inr \<lparr>tr_engine = e', tr_media = h, tr_device = d, tr_slots = slots,
          tr_allocator = GranuleAllocator_new (key_slots (handle_layout h))\<rparr>)"


text \<open>
  The start of a target: \<open>serve\<close> opens the index and the media, refuses a drive whose index has to be rebuilt, and
  builds the router. The devices are those of the index (with what \<open>exists\<close> says of each) and the media device.
\<close>

datatype start_error = IndexError KixError | RebuildRequired | MediaError io_error | SlotsError io_error

definition start_target :: "(u8 list \<Rightarrow> u32) \<Rightarrow> nat list option \<Rightarrow> (worker_role \<Rightarrow> KixError + unit) \<Rightarrow> KixConfig \<Rightarrow> ChunkMediaWriteConfig
    \<Rightarrow> (bool \<times> device) list \<Rightarrow> device \<Rightarrow> start_error + TargetRouter" where
  "start_target crc core_ids startup kix_config media_config drives d =
     bind_r (lift_err IndexError (kix_open crc core_ids startup kix_config drives)) (\<lambda>e.
     if cfg_drive_id media_config \<in> set (rebuild_required_drives e) then Inl RebuildRequired
     else case media_handle_open crc media_config d of
         (Inl err, _) \<Rightarrow> Inl (MediaError err)
       | (Inr h, d') \<Rightarrow> lift_err SlotsError (start_router e h d'))"

end
