(* ===== verification/Kst_Media.thy ===== *)
theory Kst_Media
  imports Kix_Publish Kst_Packed
begin

text \<open>
  What the handlers of a storage target rely on from chunk media, under any schedule of the device: a write
  to a lane changes that lane only, in what is read and in what is durable; a barrier makes durable what is
  read; a read changes nothing.
\<close>

section \<open>Reads change nothing\<close>

definition still :: "device \<Rightarrow> (nat \<Rightarrow> u8) \<times> (nat \<Rightarrow> u8) \<times> nat \<times> bool" where
  "still d = (dev_bytes d, dev_durable d, dev_len d, dev_block d)"

lemma still_sched [simp]: "still (d\<lparr>dev_sched := s\<rparr>) = still d"
  by (simp add: still_def)

lemma keeps_pread: "keeps still (pread off n)"
  unfolding keeps_def
proof
  fix d
  obtain out d1 where n: "next_outcome d = (out, d1)" by fastforce
  then obtain s where d1: "d1 = d\<lparr>dev_sched := s\<rparr>" by (blast dest: next_outcome_sched)
  show "still (snd (pread off n d)) = still d"
    using n d1 by (cases out) (simp_all add: pread_def Let_def del: next_outcome.simps)
qed

lemma keeps_direct_read: "keeps still (direct_read_exact off n)"
  unfolding keeps_def
proof
  fix d
  show "still (snd (direct_read_exact off n d)) = still d"
  proof (induction off n d rule: direct_read_exact.induct)
    case (1 off n d)
    obtain r d1 where p: "pread off n d = (r, d1)" by fastforce
    have s: "still d1 = still d" by (rule keepsD [OF keeps_pread p])
    show ?case
    proof (cases "n = 0 \<or> is_ok r = False")
      case True
      then show ?thesis using p s by (subst direct_read_exact.simps) (auto simp: is_ok_def split: sum.splits)
    next
      case False
      then obtain bs where r: "r = Inr bs" "n \<noteq> 0" by (auto simp: is_ok_def split: sum.splits)
      show ?thesis
      proof (cases "bs = []")
        case True
        then show ?thesis using p s r by (subst direct_read_exact.simps) simp
      next
        case False
        have "still (snd (direct_read_exact (off + length bs) (n - length bs) d1)) = still d1"
          using 1 [OF r(2) _ r(1) False, of d1] p by simp
        then show ?thesis using p s r False by (subst direct_read_exact.simps) (auto split: prod.split sum.split)
      qed
    qed
  qed
qed

lemma keeps_read_header: "keeps still (read_validated_live_header crc span c r)"
  unfolding read_validated_live_header_def by (intro keeps_if keeps_bind keeps_basic keeps_direct_read)

lemma keeps_media_reads:
  "keeps still (handle_validate_live_record crc h c r)" "keeps still (handle_read_payload crc h c r)"
  "keeps still (handle_read_identity crc h c r)"
  unfolding handle_validate_live_record_def handle_read_payload_def handle_read_identity_def
    read_chunk_media_payload_with_file_def Let_def
  by (intro keeps_if keeps_bind keeps_basic keeps_direct_read keeps_read_header)+

text \<open>Whatever the device answers, a read that succeeds has the bytes that are there.\<close>

lemma pread_data:
  assumes "pread off n d = (Inr bs, d')"
  shows "bs = load_bytes (dev_bytes d) off (length bs)" "length bs \<le> n" "dev_bytes d' = dev_bytes d"
proof -
  obtain out d1 where o: "next_outcome d = (out, d1)" by fastforce
  then obtain s where d1: "d1 = d\<lparr>dev_sched := s\<rparr>" by (blast dest: next_outcome_sched)
  show "bs = load_bytes (dev_bytes d) off (length bs)" "length bs \<le> n" "dev_bytes d' = dev_bytes d"
    using assms o d1 by (cases out; auto simp: pread_def Let_def simp del: next_outcome.simps)+
qed

lemma direct_read_data: "direct_read_exact off n d = (Inr bs, d') \<Longrightarrow> bs = load_bytes (dev_bytes d) off n"
proof (induction off n d arbitrary: bs d' rule: direct_read_exact.induct)
  case (1 off n d)
  show ?case
  proof (cases "n = 0")
    case True
    then show ?thesis using "1.prems" by (subst (asm) direct_read_exact.simps) simp
  next
    case False
    then obtain b d1 rest where p: "pread off n d = (Inr b, d1)" "b \<noteq> []" "direct_read_exact (off + length b) (n - length b) d1 = (Inr rest, d')" "bs = b @ rest"
      using "1.prems" by (subst (asm) direct_read_exact.simps) (auto split: prod.splits sum.splits if_splits)
    have "rest = load_bytes (dev_bytes d1) (off + length b) (n - length b)" using "1.IH" [OF False p(1) [symmetric] refl p(2,3)] .
    moreover note pread_data [OF p(1)]
    ultimately show ?thesis using p(4) load_bytes_append [of "dev_bytes d" off "length b" "n - length b"] by simp
  qed
qed

lemma read_payload_data:
  assumes m: "media_on span l d" and p: "is_lane l p"
    and h: "lane_at crc span l (dev_bytes d) p = LaneHolds h" and live: "sh_state h = Live"
    and run: "read_chunk_media_payload_with_file crc span (sh_chunk_id h) (sh_record h) d = (Inr bs, d')"
  shows "bs = lane_payload span l (dev_bytes d) p (sh_record h)"
proof -
  let ?r = "sh_record h"
  have sf: "span_fits span l" and lf: "layout_fits l" using m by (auto simp: media_on_def span_fits_def)
  note v = lane_holdsD [OF h] and a = lane_absolute(3,4) [OF sf p]
  note g = matches_geometryD [OF v(3)]
  have al: "4096 dvd unat (stored_length ?r)" using slot_payload_aligned [OF lf p] g(2) by simp
  note rl = read_len_for_fits [OF g(3) _ al, unfolded g(2), OF g(4)]
  obtain hd' d1 where h1: "read_validated_live_header crc span (sh_chunk_id h) ?r d = (hd', d1)" by fastforce
  have s: "dev_bytes d1 = dev_bytes d" using keepsD [OF keeps_read_header h1] by (simp add: still_def)
  obtain blk d2 where b: "direct_read_exact (lane_off span l p + 4096) (read_len_for ?r) d1 = (Inr blk, d2)" "bs = take (min (unat (logical_length ?r)) (unat (stored_length ?r))) blk"
    using run h1 a by (auto simp: read_chunk_media_payload_with_file_def st_bind_def g(1) Let_def split: sum.splits prod.splits if_splits simp del: of_nat_add)
  have "blk = load_bytes (dev_bytes d) (lane_off span l p + 4096) (read_len_for ?r)" using direct_read_data [OF b(1)] s by simp
  moreover have "unat (logical_length ?r) \<le> read_len_for ?r" using round_up_ge [of "unat (logical_length ?r)"] unfolding rl by simp
  ultimately show ?thesis using b(2) g(2,4) by (simp add: lane_payload_def min_absorb1)
qed

section \<open>Writes stay in their lane\<close>

text \<open>Media that are up, in what is read and in what is durable.\<close>

definition superblock_bytes :: "ChunkMediaHandle \<Rightarrow> (nat \<Rightarrow> u8) \<Rightarrow> u8 list" where
  "superblock_bytes h f = load_bytes f (unat (span_offset_bytes (cfg_span (h_config h)))) 4096"

text \<open>A handle that \<open>open\<close> returned: the superblock is the one of its configuration.\<close>

definition handle_opened :: "ChunkMediaHandle \<Rightarrow> device \<Rightarrow> bool" where
  "handle_opened h d \<longleftrightarrow>
     (\<exists>n required. span_resolves (cfg_span (h_config h)) d n \<and> planned_chunk_media_span_bytes (cfg_layout (h_config h)) = Inr required \<and> required \<le> n
        \<and> h_superblock h = \<lparr>sb_version = CHUNK_MEDIA_VERSION, sb_layout = cfg_layout (h_config h), sb_media_span_bytes = n\<rparr>)"

lemma handle_opened_cong: "dev_len d' = dev_len d \<Longrightarrow> handle_opened h d' = handle_opened h d"
  by (simp add: handle_opened_def span_resolves_def cong: option.case_cong)

definition media_up :: "(u8 list \<Rightarrow> u32) \<Rightarrow> ChunkMediaHandle \<Rightarrow> device \<Rightarrow> bool" where
  "media_up crc h d \<longleftrightarrow> media_ready crc (cfg_span (h_config h)) (h_superblock h) d
     \<and> superblock_bytes h (dev_durable d) = superblock_bytes h (dev_bytes d) \<and> handle_opened h d"

text \<open>Lane \<open>q\<close> reads as before, and is durable if it was.\<close>

definition lane_kept :: "ChunkMediaHandle \<Rightarrow> device \<Rightarrow> device \<Rightarrow> nat \<times> nat \<Rightarrow> bool" where
  "lane_kept h d d' q \<longleftrightarrow>
     (let lane = (\<lambda>f. lane_bytes (cfg_span (h_config h)) (handle_layout h) f q) in
      lane (dev_bytes d') = lane (dev_bytes d)
      \<and> (lane (dev_durable d') = lane (dev_durable d) \<or> lane (dev_durable d') = lane (dev_bytes d')))"

text \<open>Lane \<open>p\<close> holds a live copy of the chunk at the record, and the copy is durable.\<close>

definition settled :: "(u8 list \<Rightarrow> u32) \<Rightarrow> ChunkMediaHandle \<Rightarrow> device \<Rightarrow> ChunkId \<Rightarrow> LocationRecord \<Rightarrow> nat \<times> nat \<Rightarrow> bool" where
  "settled crc h d c r p \<longleftrightarrow>
     (\<exists>ident. lane_at crc (cfg_span (h_config h)) (handle_layout h) (dev_bytes d) p = LaneHolds (live_header c r ident))
     \<and> lane_bytes (cfg_span (h_config h)) (handle_layout h) (dev_durable d) p
       = lane_bytes (cfg_span (h_config h)) (handle_layout h) (dev_bytes d) p"

lemma settled_kept: "settled crc h d c r p \<Longrightarrow> lane_kept h d d' p \<Longrightarrow> settled crc h d' c r p"
  by (auto simp: settled_def lane_kept_def lane_at_def Let_def)

lemma lane_kept_refl [simp]: "lane_kept h d d q"
  by (simp add: lane_kept_def)

lemma lane_kept_trans: "lane_kept h d d1 q \<Longrightarrow> lane_kept h d1 d2 q \<Longrightarrow> lane_kept h d d2 q"
  by (auto simp: lane_kept_def Let_def)

lemma still_media:
  assumes "still d' = still d"
  shows "media_up crc h d' = media_up crc h d" "lane_kept h d d' q" "settled crc h d' c r p = settled crc h d c r p"
  using assms media_ready_cong [of d' d crc "cfg_span (h_config h)" "h_superblock h"] handle_opened_cong [of d' d h]
  by (auto simp: still_def media_up_def lane_kept_def settled_def)

lemma direct_write_durable: "keeps dev_durable (direct_write_exact off bs)"
  unfolding keeps_def
proof
  fix d
  show "dev_durable (snd (direct_write_exact off bs d)) = dev_durable d"
  proof (induction off bs d rule: direct_write_exact.induct)
    case (1 off bs d)
    obtain r d1 where p: "pwrite off bs d = (r, d1)" by fastforce
    then have s: "dev_durable d1 = dev_durable d" by (cases rule: pwrite_cases) auto
    show ?case
    proof (cases "bs = [] \<or> is_ok r = False \<or> r = Inr 0")
      case True
      then show ?thesis using p s by (subst direct_write_exact.simps) (auto simp: is_ok_def split: sum.splits)
    next
      case False
      then obtain k where r: "r = Inr k" "k \<noteq> 0" "bs \<noteq> []" by (auto simp: is_ok_def split: sum.splits)
      have "dev_durable (snd (direct_write_exact (off + k) (drop k bs) d1)) = dev_durable d1"
        using 1 [OF r(3) _ r(1) r(2), of d1] p by simp
      then show ?thesis using p s r by (subst direct_write_exact.simps) simp
    qed
  qed
qed

lemma commit_lane_durable:
  assumes "commit_lane crc off h payload durability d = (r, d')"
  shows "dev_durable d' = dev_durable d \<or> dev_durable d' = dev_bytes d'"
proof -
  obtain w d1 where w: "direct_write_exact off (slot_image crc h payload) d = (w, d1)" by fastforce
  have k: "dev_durable d1 = dev_durable d" by (rule keepsD [OF direct_write_durable w])
  show ?thesis
  proof (cases w)
    case (Inl e)
    then show ?thesis using assms w k by (simp add: commit_lane_def st_bind_run)
  next
    case (Inr u)
    obtain s d2 where s: "(if durability = Barrier then fdatasync else st_ret ()) d1 = (s, d2)" by fastforce
    have d2: "d' = d2" using assms w s Inr by (cases s) (simp_all add: commit_lane_def st_bind_run)
    have "dev_durable d2 = dev_durable d1 \<or> dev_durable d2 = dev_bytes d2"
    proof (cases "durability = Barrier")
      case True
      then have "fdatasync d1 = (s, d2)" using s by simp
      then show ?thesis by (cases rule: fdatasync_cases) auto
    qed (use s in auto)
    then show ?thesis using d2 k by simp
  qed
qed

lemma commit_superblock:
  assumes run: "commit_lane crc (lane_off (cfg_span (h_config h)) (handle_layout h) p) header payload durability d = (r, d')"
    and up: "media_up crc h d" and p: "is_lane (handle_layout h) p" and c: "chunk_id_ok (sh_chunk_id header)"
    and len: "length payload \<le> unat (slot_payload (handle_layout h) (fst p))"
  shows "superblock_bytes h (dev_bytes d') = superblock_bytes h (dev_bytes d)" "dev_len d' = dev_len d"
proof -
  let ?span = "cfg_span (h_config h)" and ?l = "handle_layout h"
  have m: "media_on ?span ?l d" using up by (simp add: media_up_def media_ready_def handle_layout_def)
  then have lf: "layout_fits ?l" by (simp add: media_on_def span_fits_def)
  have inside: "lane_off ?span ?l p + length (slot_image crc header payload) \<le> dev_len d"
    using slot_image_inside [OF c lf p len, of crc] lane_inside [OF m p] by simp
  then show "dev_len d' = dev_len d" by (rule commit_lane_cases(1) [OF run])
  from commit_lane_cases(3) [OF run inside] obtain k where
    "dev_bytes d' = store_bytes (dev_bytes d) (lane_off ?span ?l p) (take k (slot_image crc header payload))" by blast
  then show "superblock_bytes h (dev_bytes d') = superblock_bytes h (dev_bytes d)"
    using group_start_ge [of ?l "fst p"] by (simp add: superblock_bytes_def lane_off_def slot_start_def load_store_other)
qed

lemma commit_lane_kept:
  assumes run: "commit_lane crc (lane_off (cfg_span (h_config h)) (handle_layout h) p) header payload durability d = (r, d')"
    and up: "media_up crc h d" and p: "is_lane (handle_layout h) p" and c: "chunk_id_ok (sh_chunk_id header)"
    and len: "length payload \<le> unat (slot_payload (handle_layout h) (fst p))"
  shows "media_up crc h d'" "is_lane (handle_layout h) q \<Longrightarrow> q \<noteq> p \<Longrightarrow> lane_kept h d d' q"
proof -
  let ?span = "cfg_span (h_config h)" and ?sb = "h_superblock h"
  have l: "handle_layout h = sb_layout ?sb" by (simp add: handle_layout_def)
  have m: "media_ready crc ?span ?sb d" using up by (simp add: media_up_def)
  note on = commit_on_lane [OF run [unfolded l] m p [unfolded l] c len [unfolded l]]
  note sb = commit_superblock [OF run up p c len]
  show "media_up crc h d'" using sb(1) handle_opened_cong [OF sb(2)] on(1) commit_lane_durable [OF run] up by (auto simp: media_up_def superblock_bytes_def)
  show "lane_kept h d d' q" if "is_lane (handle_layout h) q" "q \<noteq> p"
    using on(2) [of q] that commit_lane_durable [OF run] by (auto simp: lane_kept_def l)
qed

lemma unsynced_write:
  assumes run: "write_payload_to_lane_unsynced crc h slot lane c gen ident body d = (res, d')"
    and up: "media_up crc h d" and c: "chunk_id_ok c"
  shows "media_up crc h d'"
    "is_lane (handle_layout h) q \<Longrightarrow> q \<noteq> (unat slot, unat lane) \<Longrightarrow> lane_kept h d d' q"
    "res = Inr r \<Longrightarrow> record_lane (handle_layout h) r = Some (unat slot, unat lane) \<and> generation r = gen
       \<and> drive_id r = cfg_drive_id (h_config h)
       \<and> lane_at crc (cfg_span (h_config h)) (handle_layout h) (dev_bytes d') (unat slot, unat lane) = LaneHolds (live_header c r ident)
       \<and> lane_payload (cfg_span (h_config h)) (handle_layout h) (dev_bytes d') (unat slot, unat lane) r = body"
proof -
  have l: "handle_layout h = sb_layout (h_superblock h)" by (simp add: handle_layout_def)
  have m: "media_ready crc (cfg_span (h_config h)) (h_superblock h) d" using up by (simp add: media_up_def)
  note w = run [unfolded write_payload_to_lane_unsynced_def]
  from w m c have "media_up crc h d' \<and> (is_lane (handle_layout h) q \<longrightarrow> q \<noteq> (unat slot, unat lane) \<longrightarrow> lane_kept h d d' q)"
  proof (cases rule: write_payload_cases)
    case (refused e)
    then show ?thesis using up by simp
  next
    case (commit j)
    then have j: "j = lane" by (simp add: chosen_lane_def split: if_splits)
    have "chunk_id_ok (sh_chunk_id (live_header c x ident))" for x by (simp add: live_header_def c)
    from commit_lane_kept [OF commit(6) [folded l] up commit(3) [folded l] this] commit(5) show ?thesis
      by (simp add: l j)
  qed
  then show "media_up crc h d'" "is_lane (handle_layout h) q \<Longrightarrow> q \<noteq> (unat slot, unat lane) \<Longrightarrow> lane_kept h d d' q" by blast+
  assume "res = Inr r"
  then have w': "write_chunk_media_payload_with_file crc (h_config h) (h_superblock h) slot (Explicit lane) c gen ident body Deferred d = (Inr r, d')"
    using w by simp
  show "record_lane (handle_layout h) r = Some (unat slot, unat lane) \<and> generation r = gen
       \<and> drive_id r = cfg_drive_id (h_config h)
       \<and> lane_at crc (cfg_span (h_config h)) (handle_layout h) (dev_bytes d') (unat slot, unat lane) = LaneHolds (live_header c r ident)
       \<and> lane_payload (cfg_span (h_config h)) (handle_layout h) (dev_bytes d') (unat slot, unat lane) r = body"
  proof (rule write_payload_ok [OF w' m c])
    fix p
    assume p: "published crc (cfg_span (h_config h)) (h_superblock h) d p (live_header c r ident) d'" "fst p = unat slot"
      "r = lane_record (sb_layout (h_superblock h)) (cfg_drive_id (h_config h)) p gen (length body) (crc body)"
      "chosen_lane (sb_layout (h_superblock h)) slot (Explicit lane) = Inr (of_nat (snd p))"
      "lane_payload (cfg_span (h_config h)) (sb_layout (h_superblock h)) (dev_bytes d') p r = body"
    have "snd p < 2" using publishedD(1) [OF p(1)] by (simp add: is_lane_def)
    then have "unat lane = snd p" using p(4) by (auto simp: chosen_lane_def unat_of_nat split: if_splits)
    then have q: "p = (unat slot, unat lane)" using p(2) by (simp add: prod_eq_iff)
    have "record_lane (handle_layout h) r = Some p" using publishedD(2) [OF p(1)] by (simp add: l live_header_def)
    moreover have "generation r = gen" "drive_id r = cfg_drive_id (h_config h)" using p(3) by (simp_all add: lane_record_def)
    ultimately show ?thesis using publishedD(4) [OF p(1)] p(5) by (simp add: l q)
  qed
qed

lemma barrier:
  assumes "handle_fdatasync d = (res, d')" "media_up crc h d"
  shows "media_up crc h d'" "lane_kept h d d' q" "dev_bytes d' = dev_bytes d" "res = Inr u \<Longrightarrow> dev_durable d' = dev_bytes d'"
proof -
  from assms(1) have "dev_bytes d' = dev_bytes d \<and> dev_len d' = dev_len d \<and> (dev_durable d' = dev_durable d \<or> dev_durable d' = dev_bytes d')
      \<and> (res = Inr u \<longrightarrow> dev_durable d' = dev_bytes d')"
    unfolding handle_fdatasync_def by (cases rule: fdatasync_cases) auto
  then show "media_up crc h d'" "lane_kept h d d' q" "dev_bytes d' = dev_bytes d" "res = Inr u \<Longrightarrow> dev_durable d' = dev_bytes d'"
    using assms(2) media_ready_cong [of d' d crc "cfg_span (h_config h)" "h_superblock h"] handle_opened_cong [of d' d h]
    by (auto simp: media_up_def lane_kept_def)
qed

lemma tombstone_kept:
  assumes run: "handle_write_tombstone crc h c r gen d = (res, d')" and up: "media_up crc h d" and c: "chunk_id_ok c"
    and p: "record_lane (handle_layout h) r = Some p"
  shows "media_up crc h d'" "is_lane (handle_layout h) q \<Longrightarrow> q \<noteq> p \<Longrightarrow> lane_kept h d d' q"
proof -
  let ?l = "handle_layout h" and ?t = "tombstone_header c (r\<lparr>generation := gen\<rparr>)"
  have l: "handle_layout h = sb_layout (h_superblock h)" by (simp add: handle_layout_def)
  have m: "media_ready crc (cfg_span (h_config h)) (h_superblock h) d" using up by (simp add: media_up_def)
  have pl: "is_lane ?l p" using record_lane_is_lane [OF media_ready_layout(2) [OF m]] p by (simp add: l)
  obtain x where "commit_lane crc (lane_off (cfg_span (h_config h)) ?l p) ?t [] Barrier d = (x, d')"
    using run p unfolding handle_write_tombstone_def tombstone_run [OF media_ready_layout(1) [OF m] c]
    by (auto simp: l st_bind_def split: prod.splits sum.splits)
  from commit_lane_kept [OF this up pl] c show "media_up crc h d'" "is_lane ?l q \<Longrightarrow> q \<noteq> p \<Longrightarrow> lane_kept h d d' q"
    by (simp_all add: tombstone_header_def)
qed

end
