(* ===== verification/Kst_Protocol.thy ===== *)
theory Kst_Protocol
  imports Kein_Base
begin

text \<open>
  The publication protocol of a storage target, without its data formats: requests reserve a slot, fill the
  lane that does not hold the published copy, make it durable, publish the record in the index, and let the
  slot go; deletes claim a slot, overwrite the lane, retire the chunk and free the slot. Any number of
  requests may be between two of their steps, in different slots. The parameters are where a record lies
  (\<open>home\<close>, a slot and a lane), its generation (\<open>gen\<close>), and when the content of a lane is a copy of a chunk
  at a record (\<open>holds\<close>).
\<close>

section \<open>States\<close>

text \<open>What the request that holds a slot has done; \<open>Idle\<close> if there is none.\<close>

datatype ('c, 'r, 'l) hold =
  Idle | Reserved 'l | Filled 'c 'r | Loaded 'c 'r | Published 'c 'r
| Deleting 'c 'r | Tombstoned 'c | Retired 'c | Cleared 'c

record ('c, 'r, 's, 'l, 'g, 'v) pub =
  pu_index :: "'c \<Rightarrow> 'r option"
  pu_owner :: "'s \<Rightarrow> ('c \<times> 'r) option"
  pu_inverse :: "'s \<Rightarrow> ('c \<times> 'g) option"
  pu_hold :: "'s \<Rightarrow> ('c, 'r, 'l) hold"
  pu_media :: "'s \<times> 'l \<Rightarrow> 'v"
  pu_durable :: "'s \<times> 'l \<Rightarrow> 'v"
  pu_spoiled :: "'c set"

text \<open>Each of the two fenced updates: the new value wins unless the old one has a higher generation.\<close>

definition fenced :: "('v \<Rightarrow> 'g::linorder) \<Rightarrow> 'v \<Rightarrow> 'v option \<Rightarrow> 'v" where
  "fenced g new old = (case old of Some v \<Rightarrow> if g v \<le> g new then new else v | None \<Rightarrow> new)"

section \<open>Steps\<close>

text \<open>A lane reads as before, and is durable if it was.\<close>

definition kept :: "('s \<times> 'l) set \<Rightarrow> ('c, 'r, 's, 'l, 'g, 'v) pub \<Rightarrow> ('s \<times> 'l \<Rightarrow> 'v) \<Rightarrow> ('s \<times> 'l \<Rightarrow> 'v) \<Rightarrow> bool" where
  "kept L p m d \<longleftrightarrow> (\<forall>q \<in> L. m q = pu_media p q \<and> (d q = pu_durable p q \<or> d q = m q))"

text \<open>A chunk that is not in the index comes back with a generation that no copy it left behind exceeds.\<close>

definition rejoins :: "('r \<Rightarrow> 'g::linorder) \<Rightarrow> 'c \<Rightarrow> 'g \<Rightarrow> ('c, 'r, 's, 'l, 'g, 'v) pub \<Rightarrow> bool" where
  "rejoins gen c g p \<longleftrightarrow>
     pu_index p c = None \<longrightarrow> (\<forall>s r. pu_owner p s = Some (c, r) \<or> pu_hold p s = Published c r \<longrightarrow> gen r \<le> g)"

inductive pub_step :: "('r \<Rightarrow> 's \<times> 'l) \<Rightarrow> ('r \<Rightarrow> 'g::linorder) \<Rightarrow> ('v \<Rightarrow> 'c \<Rightarrow> 'r \<Rightarrow> bool)
    \<Rightarrow> ('c, 'r, 's, 'l, 'g, 'v) pub \<Rightarrow> ('c, 'r, 's, 'l, 'g, 'v) pub \<Rightarrow> bool"
  for home :: "'r \<Rightarrow> 's \<times> 'l" and gen :: "'r \<Rightarrow> 'g::linorder" and holds :: "'v \<Rightarrow> 'c \<Rightarrow> 'r \<Rightarrow> bool"
where
  reserve: "pu_hold p s = Idle \<Longrightarrow> (\<And>c r. pu_owner p s = Some (c, r) \<Longrightarrow> home r \<noteq> (s, l)) \<Longrightarrow>
    pub_step home gen holds p (p\<lparr>pu_hold := (pu_hold p)(s := Reserved l)\<rparr>)"
| write_fails: "pu_hold p s = Reserved l \<Longrightarrow> kept (- {(s, l)}) p m d \<Longrightarrow>
    pub_step home gen holds p (p\<lparr>pu_media := m, pu_durable := d\<rparr>)"
| write_done: "pu_hold p s = Reserved l \<Longrightarrow> kept (- {(s, l)}) p m d \<Longrightarrow> home r = (s, l) \<Longrightarrow> holds (m (s, l)) c r \<Longrightarrow>
    pub_step home gen holds p (p\<lparr>pu_media := m, pu_durable := d, pu_hold := (pu_hold p)(s := Filled c r)\<rparr>)"
| flush: "kept UNIV p (pu_media p) d \<Longrightarrow> pub_step home gen holds p (p\<lparr>pu_durable := d\<rparr>)"
| flushed: "pu_hold p s = Filled c r \<Longrightarrow> pu_durable p (home r) = pu_media p (home r) \<Longrightarrow>
    pub_step home gen holds p (p\<lparr>pu_hold := (pu_hold p)(s := Loaded c r)\<rparr>)"
| publish: "pu_hold p s = Loaded c r \<Longrightarrow> (\<And>c' r'. pu_owner p s = Some (c', r') \<Longrightarrow> c' = c) \<Longrightarrow> rejoins gen c (gen r) p \<Longrightarrow>
    i = (pu_index p)(c := Some (fenced gen r (pu_index p c))) \<Longrightarrow>
    pub_step home gen holds p (p\<lparr>pu_index := i, pu_inverse := (pu_inverse p)(s := Some (fenced snd (c, gen r) (pu_inverse p s))),
        pu_hold := (pu_hold p)(s := Published c r), pu_spoiled := (if i c = Some r then pu_spoiled p - {c} else pu_spoiled p)\<rparr>)"
| commit: "pu_hold p s = Published c r \<Longrightarrow>
    pub_step home gen holds p (p\<lparr>pu_owner := (pu_owner p)(s := Some (fenced (gen \<circ> snd) (c, r) (pu_owner p s))),
        pu_hold := (pu_hold p)(s := Idle)\<rparr>)"
| rollback: "pu_hold p s \<in> {Reserved l, Filled c r, Loaded c r, Deleting c r, Tombstoned c} \<Longrightarrow>
    pub_step home gen holds p (p\<lparr>pu_hold := (pu_hold p)(s := Idle)\<rparr>)"
| claim: "pu_hold p s = Idle \<Longrightarrow> fst (home r) = s \<Longrightarrow> (\<And>c' r'. pu_owner p s = Some (c', r') \<Longrightarrow> c' = c) \<Longrightarrow>
    pub_step home gen holds p (p\<lparr>pu_hold := (pu_hold p)(s := Deleting c r)\<rparr>)"
| tombstone: "pu_hold p s = Deleting c r \<Longrightarrow> kept (- {home r}) p m d \<Longrightarrow> h \<in> {Deleting c r, Tombstoned c} \<Longrightarrow>
    pub_step home gen holds p (p\<lparr>pu_media := m, pu_durable := d, pu_hold := (pu_hold p)(s := h),
        pu_spoiled := insert c (pu_spoiled p)\<rparr>)"
| retire: "pu_hold p s = Tombstoned c \<Longrightarrow>
    pub_step home gen holds p (p\<lparr>pu_index := (pu_index p)(c := None), pu_hold := (pu_hold p)(s := Retired c)\<rparr>)"
| clear: "pu_hold p s = Retired c \<Longrightarrow>
    pub_step home gen holds p (p\<lparr>pu_inverse := (pu_inverse p)(s := None), pu_hold := (pu_hold p)(s := Cleared c)\<rparr>)"
| free: "pu_hold p s = Cleared c \<Longrightarrow>
    pub_step home gen holds p (p\<lparr>pu_owner := (pu_owner p)(s := None), pu_hold := (pu_hold p)(s := Idle)\<rparr>)"

section \<open>The invariant\<close>

text \<open>
  What holds of a slot with a given owner and inverse entry, by what the request in it has done. \<open>owned\<close>: a chunk
  whose record lies in the slot owns it. \<open>mirrored\<close>: the inverse has the owner. \<open>away\<close>: a lane is not the owner's.
\<close>

definition owned :: "('r \<Rightarrow> 's \<times> 'l) \<Rightarrow> ('c \<Rightarrow> 'r option) \<Rightarrow> 's \<Rightarrow> ('c \<times> 'r) option \<Rightarrow> bool" where
  "owned home index s owner \<longleftrightarrow> (\<forall>c r. index c = Some r \<longrightarrow> fst (home r) = s \<longrightarrow> owner = Some (c, r))"

definition mirrored :: "('r \<Rightarrow> 'g) \<Rightarrow> ('c \<times> 'r) option \<Rightarrow> ('c \<times> 'g) option \<Rightarrow> bool" where
  "mirrored gen owner mirror \<longleftrightarrow> mirror = map_option (\<lambda>(c, r). (c, gen r)) owner"

definition away :: "('r \<Rightarrow> 's \<times> 'l) \<Rightarrow> ('c \<times> 'r) option \<Rightarrow> 's \<times> 'l \<Rightarrow> bool" where
  "away home owner q \<longleftrightarrow> (\<forall>c r. owner = Some (c, r) \<longrightarrow> home r \<noteq> q)"

definition only :: "'c \<Rightarrow> ('c \<times> 'r) option \<Rightarrow> bool" where
  "only c owner \<longleftrightarrow> (\<forall>c' r'. owner = Some (c', r') \<longrightarrow> c' = c)"

definition published_ok :: "('r \<Rightarrow> 's \<times> 'l) \<Rightarrow> ('r \<Rightarrow> 'g::linorder) \<Rightarrow> ('c \<Rightarrow> 'r option) \<Rightarrow> 's \<Rightarrow> ('c \<times> 'r) option \<Rightarrow> 'c \<Rightarrow> 'r \<Rightarrow> bool" where
  "published_ok home gen index s owner c r \<longleftrightarrow>
     (\<forall>c' r'. index c' = Some r' \<longrightarrow> fst (home r') = s \<longrightarrow> (c', r') = (c, r) \<or> owner = Some (c', r'))
     \<and> (\<forall>r'. owner = Some (c, r') \<longrightarrow> index c = Some r \<longrightarrow> gen r' \<le> gen r)
     \<and> (\<forall>r'. index c = Some r' \<longrightarrow> gen r \<le> gen r' \<and> (fst (home r') = s \<longrightarrow> r' \<noteq> r \<longrightarrow> gen r < gen r'))"

fun slot_ok :: "('r \<Rightarrow> 's \<times> 'l) \<Rightarrow> ('r \<Rightarrow> 'g::linorder) \<Rightarrow> ('v \<Rightarrow> 'c \<Rightarrow> 'r \<Rightarrow> bool) \<Rightarrow> ('c \<Rightarrow> 'r option) \<Rightarrow> ('s \<times> 'l \<Rightarrow> 'v) \<Rightarrow> ('s \<times> 'l \<Rightarrow> 'v)
    \<Rightarrow> 's \<Rightarrow> ('c \<times> 'r) option \<Rightarrow> ('c \<times> 'g) option \<Rightarrow> ('c, 'r, 'l) hold \<Rightarrow> bool" where
  "slot_ok home gen holds index m d s owner mirror Idle \<longleftrightarrow> owned home index s owner \<and> mirrored gen owner mirror"
| "slot_ok home gen holds index m d s owner mirror (Reserved l) \<longleftrightarrow> owned home index s owner \<and> mirrored gen owner mirror \<and> away home owner (s, l)"
| "slot_ok home gen holds index m d s owner mirror (Filled c r) \<longleftrightarrow>
     owned home index s owner \<and> mirrored gen owner mirror \<and> away home owner (home r) \<and> fst (home r) = s \<and> holds (m (home r)) c r"
| "slot_ok home gen holds index m d s owner mirror (Loaded c r) \<longleftrightarrow>
     owned home index s owner \<and> mirrored gen owner mirror \<and> away home owner (home r) \<and> fst (home r) = s \<and> holds (m (home r)) c r
     \<and> d (home r) = m (home r)"
| "slot_ok home gen holds index m d s owner mirror (Published c r) \<longleftrightarrow>
     only c owner \<and> fst (home r) = s \<and> published_ok home gen index s owner c r
     \<and> mirror = Some ((\<lambda>(c, r). (c, gen r)) (fenced (gen \<circ> snd) (c, r) owner))"
| "slot_ok home gen holds index m d s owner mirror (Deleting c r) \<longleftrightarrow>
     owned home index s owner \<and> mirrored gen owner mirror \<and> only c owner \<and> fst (home r) = s"
| "slot_ok home gen holds index m d s owner mirror (Tombstoned c) \<longleftrightarrow>
     owned home index s owner \<and> mirrored gen owner mirror \<and> only c owner"
| "slot_ok home gen holds index m d s owner mirror (Retired c) \<longleftrightarrow>
     owned home index s None \<and> mirrored gen owner mirror \<and> only c owner"
| "slot_ok home gen holds index m d s owner mirror (Cleared c) \<longleftrightarrow> owned home index s None \<and> mirror = None"

definition slot_inv :: "('r \<Rightarrow> 's \<times> 'l) \<Rightarrow> ('r \<Rightarrow> 'g::linorder) \<Rightarrow> ('v \<Rightarrow> 'c \<Rightarrow> 'r \<Rightarrow> bool) \<Rightarrow> ('c, 'r, 's, 'l, 'g, 'v) pub \<Rightarrow> 's \<Rightarrow> bool" where
  "slot_inv home gen holds p s =
     slot_ok home gen holds (pu_index p) (pu_media p) (pu_durable p) s (pu_owner p s) (pu_inverse p s) (pu_hold p s)"

text \<open>
  Every chunk in the index whose delete has not begun has a durable copy at its record, and no slot has an
  owner that is newer than the index says.
\<close>

definition up_to_date :: "('r \<Rightarrow> 'g::linorder) \<Rightarrow> ('c, 'r, 's, 'l, 'g, 'v) pub \<Rightarrow> bool" where
  "up_to_date gen p \<longleftrightarrow> (\<forall>s c r r'. pu_owner p s = Some (c, r') \<longrightarrow> pu_index p c = Some r \<longrightarrow> gen r' \<le> gen r)"

definition stored :: "('r \<Rightarrow> 's \<times> 'l) \<Rightarrow> ('v \<Rightarrow> 'c \<Rightarrow> 'r \<Rightarrow> bool) \<Rightarrow> ('c, 'r, 's, 'l, 'g, 'v) pub \<Rightarrow> bool" where
  "stored home holds p \<longleftrightarrow> (\<forall>c r. pu_index p c = Some r \<longrightarrow> c \<notin> pu_spoiled p \<longrightarrow>
     holds (pu_media p (home r)) c r \<and> pu_durable p (home r) = pu_media p (home r))"

definition pub_inv :: "('r \<Rightarrow> 's \<times> 'l) \<Rightarrow> ('r \<Rightarrow> 'g::linorder) \<Rightarrow> ('v \<Rightarrow> 'c \<Rightarrow> 'r \<Rightarrow> bool) \<Rightarrow> ('c, 'r, 's, 'l, 'g, 'v) pub \<Rightarrow> bool" where
  "pub_inv home gen holds p \<longleftrightarrow> (\<forall>s. slot_inv home gen holds p s) \<and> up_to_date gen p \<and> stored home holds p"

section \<open>Preservation\<close>

text \<open>Other slots: the index, and the lanes of the slot, are as before.\<close>

lemma slot_ok_frame:
  assumes "slot_ok home gen holds index m d s owner mirror h" "\<And>l. m' (s, l) = m (s, l) \<and> (d' (s, l) = d (s, l) \<or> d' (s, l) = m' (s, l))"
  shows "slot_ok home gen holds index m' d' s owner mirror h"
proof -
  have "m' (home r) = m (home r) \<and> (d (home r) = m (home r) \<longrightarrow> d' (home r) = m (home r))" if "fst (home r) = s" for r
    using assms(2) [of "snd (home r)"] that by (metis prod.collapse)
  then show ?thesis using assms(1) by (cases h) simp_all
qed

lemma indexed_owner:
  assumes "slot_inv home gen holds p s" "pu_index p c = Some r" "fst (home r) = s" "\<nexists>c r. pu_hold p s = Published c r"
  shows "pu_owner p s = Some (c, r)"
  using assms by (cases "pu_hold p s") (auto simp: slot_inv_def owned_def)

lemma inv_slot: "pub_inv home gen holds p \<Longrightarrow> slot_inv home gen holds p s"
  by (simp add: pub_inv_def)

text \<open>Steps that change what the holder has done, and nothing else.\<close>

lemma hold_step:
  assumes "pub_inv home gen holds p" "slot_ok home gen holds (pu_index p) (pu_media p) (pu_durable p) s (pu_owner p s) (pu_inverse p s) h"
  shows "pub_inv home gen holds (p\<lparr>pu_hold := (pu_hold p)(s := h)\<rparr>)"
proof -
  have "slot_inv home gen holds (p\<lparr>pu_hold := (pu_hold p)(s := h)\<rparr>) t" for t
    using assms by (cases "t = s") (simp_all add: pub_inv_def slot_inv_def)
  then show ?thesis using assms(1) by (simp add: pub_inv_def up_to_date_def stored_def)
qed

text \<open>Steps that write one lane, which no chunk in the index that counts has its copy in.\<close>

lemma media_step:
  assumes inv: "pub_inv home gen holds p" and kept: "kept (- {(s, l)}) p m d" and k: "pu_spoiled p \<subseteq> X"
    and h: "slot_ok home gen holds (pu_index p) m d s (pu_owner p s) (pu_inverse p s) h"
    and free: "\<And>c r. pu_index p c = Some r \<Longrightarrow> c \<notin> X \<Longrightarrow> home r \<noteq> (s, l)"
  shows "pub_inv home gen holds (p\<lparr>pu_media := m, pu_durable := d, pu_hold := (pu_hold p)(s := h), pu_spoiled := X\<rparr>)"
proof -
  let ?p = "p\<lparr>pu_media := m, pu_durable := d, pu_hold := (pu_hold p)(s := h), pu_spoiled := X\<rparr>"
  have "slot_inv home gen holds ?p t" for t
  proof (cases "t = s")
    case False
    have "slot_ok home gen holds (pu_index p) m d t (pu_owner p t) (pu_inverse p t) (pu_hold p t)"
    proof (rule slot_ok_frame)
      show "slot_ok home gen holds (pu_index p) (pu_media p) (pu_durable p) t (pu_owner p t) (pu_inverse p t) (pu_hold p t)"
        using inv by (simp add: pub_inv_def slot_inv_def)
      show "m (t, l') = pu_media p (t, l') \<and> (d (t, l') = pu_durable p (t, l') \<or> d (t, l') = m (t, l'))" for l'
        using kept False by (auto simp: kept_def)
    qed
    then show ?thesis using False by (simp add: slot_inv_def)
  qed (use h in \<open>simp add: slot_inv_def\<close>)
  moreover have "stored home holds ?p"
    unfolding stored_def
  proof (intro allI impI)
    fix c r
    assume i: "pu_index ?p c = Some r" "c \<notin> pu_spoiled ?p"
    then have "m (home r) = pu_media p (home r) \<and> (d (home r) = pu_durable p (home r) \<or> d (home r) = m (home r))"
      using bspec [OF kept [unfolded kept_def], of "home r"] free [of c r] by auto
    moreover have "holds (pu_media p (home r)) c r" "pu_durable p (home r) = pu_media p (home r)"
      using inv i k by (auto simp: pub_inv_def stored_def)
    ultimately show "holds (pu_media ?p (home r)) c r \<and> pu_durable ?p (home r) = pu_media ?p (home r)"
      by auto
  qed
  ultimately show ?thesis using inv by (simp add: pub_inv_def up_to_date_def)
qed

lemma kept_lane: "kept (- {(s, l)}) p m d \<Longrightarrow> home r \<noteq> (s, l) \<Longrightarrow> m (home r) = pu_media p (home r)"
  by (auto simp: kept_def)

text \<open>The chunk with its record in a slot that a delete or a writer has is the owner, and the writer's lane is another.\<close>

lemma reserved_free:
  assumes "pub_inv home gen holds p" "pu_hold p s = Reserved l" "pu_index p c = Some r"
  shows "home r \<noteq> (s, l)"
proof
  assume "home r = (s, l)"
  moreover from this have "pu_owner p s = Some (c, r)"
    using indexed_owner [of home gen holds p s c r] assms by (simp add: pub_inv_def)
  ultimately show False using assms(1,2) by (auto simp: pub_inv_def slot_inv_def away_def dest: spec [of _ s])
qed

lemma deleting_free:
  assumes "pub_inv home gen holds p" "pu_hold p s = Deleting c r" "pu_index p c' = Some r'" "c' \<noteq> c"
  shows "home r' \<noteq> home r"
proof
  have s: "slot_inv home gen holds p s" using assms(1) by (simp add: pub_inv_def)
  then have o: "only c (pu_owner p s)" "fst (home r) = s" using assms(2) by (simp_all add: slot_inv_def)
  assume "home r' = home r"
  then have "pu_owner p s = Some (c', r')" using indexed_owner [OF s assms(3)] assms(2) o(2) by simp
  then show False using o(1) assms(4) by (simp add: only_def)
qed

lemma publish_step:
  assumes inv: "pub_inv home gen holds p" and h: "pu_hold p s = Loaded c r" and o: "only c (pu_owner p s)"
    and rj: "rejoins gen c (gen r) p" and i: "i = (pu_index p)(c := Some (fenced gen r (pu_index p c)))"
  shows "pub_inv home gen holds (p\<lparr>pu_index := i, pu_inverse := (pu_inverse p)(s := Some (fenced snd (c, gen r) (pu_inverse p s))),
        pu_hold := (pu_hold p)(s := Published c r), pu_spoiled := (if i c = Some r then pu_spoiled p - {c} else pu_spoiled p)\<rparr>)"
    (is "pub_inv home gen holds ?p")
proof -
  have at: "slot_inv home gen holds p t" for t using inv by (simp add: pub_inv_def)
  have ow: "owned home (pu_index p) s (pu_owner p s)" and mi: "mirrored gen (pu_owner p s) (pu_inverse p s)"
    and hs: "fst (home r) = s" "holds (pu_media p (home r)) c r" "pu_durable p (home r) = pu_media p (home r)"
    using at [of s] h by (simp_all add: slot_inv_def)
  have mono: "gen r' \<le> gen ri" if "pu_owner p t = Some (c', r')" "pu_index p c' = Some ri" for t c' r' ri
    using inv that by (auto simp: pub_inv_def up_to_date_def)
  have old: "gen r' \<le> gen ri" if "pu_owner p t = Some (c, r') \<or> pu_hold p t = Published c r'" "i c = Some ri" for t r' ri
  proof (cases "pu_index p c")
    case None
    then show ?thesis using rj that i by (auto simp: rejoins_def fenced_def)
  next
    case (Some r0)
    then have "gen r' \<le> gen r0"
      using that(1) mono [of t c r' r0] at [of t] by (auto simp: slot_inv_def published_ok_def)
    then show ?thesis using Some that(2) i by (auto simp: fenced_def split: if_splits)
  qed
  have new: "i c = Some r \<or> (\<exists>r0. pu_index p c = Some r0 \<and> i c = Some r0 \<and> gen r < gen r0)"
    by (auto simp: i fenced_def split: option.split)
  have other: "i c' = pu_index p c'" if "c' \<noteq> c" for c' using that by (simp add: i)
  have "published_ok home gen i s (pu_owner p s) c r"
    unfolding published_ok_def
  proof (intro conjI allI impI)
    show "(c', r') = (c, r) \<or> pu_owner p s = Some (c', r')" if "i c' = Some r'" "fst (home r') = s" for c' r'
      using that ow new other [of c'] by (cases "c' = c") (auto simp: owned_def)
    show "gen r' \<le> gen r" if "pu_owner p s = Some (c, r')" "i c = Some r" for r' using old [of s r' r] that by simp
    show "gen r \<le> gen r'" if "i c = Some r'" for r' using that new by auto
    show "gen r < gen r'" if "i c = Some r'" "r' \<noteq> r" for r' using that new by auto
  qed
  moreover have "Some (fenced snd (c, gen r) (pu_inverse p s)) = Some ((\<lambda>(c, r). (c, gen r)) (fenced (gen \<circ> snd) (c, r) (pu_owner p s)))"
    using mi o by (cases "pu_owner p s") (auto simp: mirrored_def fenced_def only_def)
  ultimately have here: "slot_inv home gen holds ?p s" using o hs(1) by (simp add: slot_inv_def)
  have there: "slot_inv home gen holds ?p t" if "t \<noteq> s" for t
  proof -
    have "owned home i t x" if "owned home (pu_index p) t x" for x
      unfolding owned_def
    proof (intro allI impI)
      fix c' r' assume "i c' = Some r'" "fst (home r') = t"
      then have "pu_index p c' = Some r'" using new other [of c'] hs(1) \<open>t \<noteq> s\<close> by (cases "c' = c") auto
      then show "x = Some (c', r')" using that \<open>fst (home r') = t\<close> by (simp add: owned_def)
    qed
    moreover have "published_ok home gen i t (pu_owner p t) c' r'"
      if po: "published_ok home gen (pu_index p) t (pu_owner p t) c' r'" "pu_hold p t = Published c' r'" "fst (home r') = t" for c' r'
      unfolding published_ok_def
    proof (intro conjI allI impI)
      show "(a, b) = (c', r') \<or> pu_owner p t = Some (a, b)" if "i a = Some b" "fst (home b) = t" for a b
      proof -
        have "pu_index p a = Some b" using that new other [of a] hs(1) \<open>t \<noteq> s\<close> by (cases "a = c") auto
        then show ?thesis using po(1) that(2) by (simp add: published_ok_def)
      qed
      show "gen b \<le> gen r'" if "pu_owner p t = Some (c', b)" "i c' = Some r'" for b
        using that po(1) old [of t b r'] other [of c'] by (cases "c' = c") (auto simp: published_ok_def)
      show "gen r' \<le> gen b" if "i c' = Some b" for b
        using that po old [of t r' b] other [of c'] by (cases "c' = c") (auto simp: published_ok_def)
      show "gen r' < gen b" if "i c' = Some b" "fst (home b) = t" "b \<noteq> r'" for b
      proof -
        have "pu_index p c' = Some b" using that new other [of c'] hs(1) \<open>t \<noteq> s\<close> by (cases "c' = c") auto
        then show ?thesis using po(1) that(2,3) by (simp add: published_ok_def)
      qed
    qed
    ultimately show ?thesis using at [of t] that by (cases "pu_hold p t") (simp_all add: slot_inv_def)
  qed
  have "slot_inv home gen holds ?p t" for t using here there by (cases "t = s") blast+
  moreover have "gen r' \<le> gen ri" if "pu_owner p t = Some (c', r')" "i c' = Some ri" for t c' r' ri
    using that old [of t r' ri] mono [of t c' r' ri] other [of c'] by (cases "c' = c") auto
  then have "up_to_date gen ?p" by (simp add: up_to_date_def)
  moreover have "stored home holds ?p"
    unfolding stored_def
  proof (intro allI impI)
    fix c' r' assume i': "pu_index ?p c' = Some r'" "c' \<notin> pu_spoiled ?p"
    show "holds (pu_media ?p (home r')) c' r' \<and> pu_durable ?p (home r') = pu_media ?p (home r')"
    proof (cases "c' = c \<and> r' = r")
      case False
      then have "pu_index p c' = Some r' \<and> c' \<notin> pu_spoiled p"
        using i' new other [of c'] by (cases "c' = c") (auto split: if_splits)
      then show ?thesis using inv by (auto simp: pub_inv_def stored_def)
    qed (use hs in simp)
  qed
  ultimately show ?thesis by (simp add: pub_inv_def)
qed

lemma committed_owned:
  assumes inv: "pub_inv home gen holds p" and h: "pu_hold p s = Published c r"
  shows "owned home (pu_index p) s (Some (fenced (gen \<circ> snd) (c, r) (pu_owner p s)))"
proof -
  let ?o = "fenced (gen \<circ> snd) (c, r) (pu_owner p s)"
  have on: "only c (pu_owner p s)" and po: "published_ok home gen (pu_index p) s (pu_owner p s) c r"
    and mi: "pu_inverse p s = Some ((\<lambda>(c, r). (c, gen r)) ?o)"
    using inv_slot [OF inv, of s] h by (simp_all add: slot_inv_def)
  have po1: "(c', r') = (c, r) \<or> pu_owner p s = Some (c', r')" if "pu_index p c' = Some r'" "fst (home r') = s" for c' r'
    using po that unfolding published_ok_def by blast
  have po2: "gen r' \<le> gen r" if "pu_owner p s = Some (c, r')" "pu_index p c = Some r" for r'
    using po that unfolding published_ok_def by blast
  have po3: "gen r \<le> gen r'" "fst (home r') = s \<Longrightarrow> r' \<noteq> r \<Longrightarrow> gen r < gen r'" if "pu_index p c = Some r'" for r'
    using po that unfolding published_ok_def by blast+
  show ?thesis
    unfolding owned_def
  proof (intro allI impI)
    fix c' r' assume i: "pu_index p c' = Some r'" "fst (home r') = s"
    show "Some ?o = Some (c', r')"
    proof (cases "pu_owner p s")
      case None
      then show ?thesis using po1 [OF i] by (simp add: fenced_def)
    next
      case (Some x)
      then obtain r0 where x: "pu_owner p s = Some (c, r0)" using on by (cases x) (simp add: only_def)
      show ?thesis
      proof (cases "(c', r') = (c, r)")
        case True
        then show ?thesis using po2 [OF x] i x by (simp add: fenced_def)
      next
        case False
        then have "c' = c" "r' = r0" using po1 [OF i] x by auto
        then show ?thesis using po3(2) [of r0] i x False by (simp add: fenced_def)
      qed
    qed
  qed
qed

lemma commit_step:
  assumes inv: "pub_inv home gen holds p" and h: "pu_hold p s = Published c r"
  shows "pub_inv home gen holds (p\<lparr>pu_owner := (pu_owner p)(s := Some (fenced (gen \<circ> snd) (c, r) (pu_owner p s))), pu_hold := (pu_hold p)(s := Idle)\<rparr>)"
    (is "pub_inv home gen holds ?p")
proof -
  let ?o = "fenced (gen \<circ> snd) (c, r) (pu_owner p s)"
  have po: "published_ok home gen (pu_index p) s (pu_owner p s) c r" and mi: "pu_inverse p s = Some ((\<lambda>(c, r). (c, gen r)) ?o)"
    using inv_slot [OF inv, of s] h by (simp_all add: slot_inv_def)
  have "slot_inv home gen holds ?p t" for t
    using inv_slot [OF inv, of t] mi committed_owned [OF inv h] by (cases "t = s") (simp_all add: slot_inv_def mirrored_def)
  moreover have new: "gen r' \<le> gen ri" if "?o = (c', r')" "pu_index p c' = Some ri" for c' r' ri
  proof -
    have "?o = (c, r) \<or> pu_owner p s = Some ?o" by (auto simp: fenced_def split: option.split)
    then show ?thesis
    proof
      assume "?o = (c, r)"
      then have "c' = c" "r' = r" using that(1) by simp_all
      then show ?thesis using that(2) po unfolding published_ok_def by blast
    next
      assume "pu_owner p s = Some ?o"
      then have "pu_owner p s = Some (c', r')" using that(1) by simp
      then show ?thesis using that(2) inv unfolding pub_inv_def up_to_date_def by blast
    qed
  qed
  have "up_to_date gen ?p"
    unfolding up_to_date_def
  proof (intro allI impI)
    fix t c' ri r' assume i: "pu_owner ?p t = Some (c', r')" "pu_index ?p c' = Some ri"
    show "gen r' \<le> gen ri"
    proof (cases "t = s")
      case True
      then show ?thesis using new [of c' r' ri] i by simp
    next
      case False
      then have "pu_owner p t = Some (c', r')" "pu_index p c' = Some ri" using i by simp_all
      then show ?thesis using inv unfolding pub_inv_def up_to_date_def by blast
    qed
  qed
  ultimately show ?thesis using inv by (simp add: pub_inv_def stored_def)
qed

lemma owned_retire: "owned home index s owner \<Longrightarrow> owned home (index(c := None)) s owner"
  by (auto simp: owned_def)

lemma published_retire:
  "published_ok home gen index s owner c r \<Longrightarrow> published_ok home gen (index(c' := None)) s owner c r"
proof -
  assume po: "published_ok home gen index s owner c r"
  have i: "(index(c' := None)) a = Some b \<Longrightarrow> index a = Some b" for a b by (simp split: if_splits)
  show ?thesis
    unfolding published_ok_def
  proof (intro conjI allI impI)
    show "(a, b) = (c, r) \<or> owner = Some (a, b)" if "(index(c' := None)) a = Some b" "fst (home b) = s" for a b
      using po i [OF that(1)] that(2) unfolding published_ok_def by blast
    show "gen b \<le> gen r" if "owner = Some (c, b)" "(index(c' := None)) c = Some r" for b
      using po i [OF that(2)] that(1) unfolding published_ok_def by blast
    show "gen r \<le> gen b" if "(index(c' := None)) c = Some b" for b
      using po i [OF that] unfolding published_ok_def by blast
    show "gen r < gen b" if "(index(c' := None)) c = Some b" "fst (home b) = s" "b \<noteq> r" for b
      using po i [OF that(1)] that(2,3) unfolding published_ok_def by blast
  qed
qed

lemma retire_step:
  assumes inv: "pub_inv home gen holds p" and h: "pu_hold p s = Tombstoned c"
  shows "pub_inv home gen holds (p\<lparr>pu_index := (pu_index p)(c := None), pu_hold := (pu_hold p)(s := Retired c)\<rparr>)" (is "pub_inv home gen holds ?p")
proof -
  have at: "slot_inv home gen holds p t" for t using inv by (simp add: pub_inv_def)
  have "slot_inv home gen holds ?p t" for t
  proof (cases "t = s")
    case True
    have "owned home ((pu_index p)(c := None)) s None"
      using at [of s] h by (auto simp: slot_inv_def owned_def only_def)
    then show ?thesis using True at [of s] h by (simp add: slot_inv_def)
  next
    case False
    then show ?thesis using at [of t] by (cases "pu_hold p t") (simp_all add: slot_inv_def owned_retire published_retire)
  qed
  moreover have "up_to_date gen ?p" "stored home holds ?p" using inv by (auto simp: pub_inv_def up_to_date_def stored_def)
  ultimately show ?thesis by (simp add: pub_inv_def)
qed

lemma clear_step:
  assumes "pub_inv home gen holds p" "pu_hold p s = Retired c"
  shows "pub_inv home gen holds (p\<lparr>pu_inverse := (pu_inverse p)(s := None), pu_hold := (pu_hold p)(s := Cleared c)\<rparr>)" (is "pub_inv home gen holds ?p")
proof -
  have at: "slot_inv home gen holds p t" for t using assms(1) by (simp add: pub_inv_def)
  then have "slot_inv home gen holds ?p t" for t using at [of t] assms(2) by (cases "t = s") (simp_all add: slot_inv_def)
  then show ?thesis using assms(1) by (simp add: pub_inv_def up_to_date_def stored_def)
qed

lemma free_step:
  assumes "pub_inv home gen holds p" "pu_hold p s = Cleared c"
  shows "pub_inv home gen holds (p\<lparr>pu_owner := (pu_owner p)(s := None), pu_hold := (pu_hold p)(s := Idle)\<rparr>)" (is "pub_inv home gen holds ?p")
proof -
  have at: "slot_inv home gen holds p t" for t using assms(1) by (simp add: pub_inv_def)
  then have "slot_inv home gen holds ?p t" for t using at [of t] assms(2) by (cases "t = s") (simp_all add: slot_inv_def mirrored_def)
  then show ?thesis using assms(1) by (auto simp: pub_inv_def up_to_date_def stored_def)
qed

lemma flush_step:
  assumes "pub_inv home gen holds p" "kept UNIV p (pu_media p) d"
  shows "pub_inv home gen holds (p\<lparr>pu_durable := d\<rparr>)"
proof -
  have k: "d q = pu_durable p q \<or> d q = pu_media p q" for q using assms(2) unfolding kept_def by (metis UNIV_I)
  have "slot_inv home gen holds (p\<lparr>pu_durable := d\<rparr>) s" for s
    using slot_ok_frame [of home gen holds "pu_index p" "pu_media p" "pu_durable p" s "pu_owner p s" "pu_inverse p s" "pu_hold p s" "pu_media p" d]
      inv_slot [OF assms(1), of s] k by (simp add: slot_inv_def)
  moreover have "stored home holds (p\<lparr>pu_durable := d\<rparr>)"
    using assms(1) k unfolding pub_inv_def stored_def by simp metis
  ultimately show ?thesis using assms(1) by (simp add: pub_inv_def up_to_date_def)
qed

lemma kept_slot: "kept (- {(s, l)}) p m d \<Longrightarrow> slot_inv home gen holds p s \<Longrightarrow> pu_hold p s = Reserved l \<Longrightarrow>
    slot_ok home gen holds (pu_index p) m d s (pu_owner p s) (pu_inverse p s) (Reserved l)"
  by (simp add: slot_inv_def)

text \<open>Every step keeps the invariant.\<close>

lemma pub_step_inv:
  assumes "pub_step home gen holds p p'" "pub_inv home gen holds p"
  shows "pub_inv home gen holds p'"
  using assms
proof (induction rule: pub_step.induct)
  case (write_fails p s l m d)
  have "p\<lparr>pu_media := m, pu_durable := d\<rparr> = p\<lparr>pu_media := m, pu_durable := d, pu_hold := (pu_hold p)(s := Reserved l), pu_spoiled := pu_spoiled p\<rparr>"
    using write_fails(1) by (simp add: fun_upd_idem)
  moreover have "slot_inv home gen holds p s" using write_fails(3) by (simp add: pub_inv_def)
  ultimately show ?case
    using media_step [OF write_fails(3,2) subset_refl, of "Reserved l"] reserved_free [OF write_fails(3,1)] write_fails(1) by (simp add: slot_inv_def)
next
  case (write_done p s l m d r c)
  have "slot_inv home gen holds p s" using write_done(5) by (simp add: pub_inv_def)
  then have "slot_ok home gen holds (pu_index p) m d s (pu_owner p s) (pu_inverse p s) (Filled c r)"
    using write_done by (simp add: slot_inv_def)
  from media_step [OF write_done(5,2) subset_refl this] reserved_free [OF write_done(5,1)] show ?case by simp
next
  case (flush p d)
  then show ?case by (rule flush_step [rotated])
next
  case (tombstone p s c r m d h)
  have at: "slot_inv home gen holds p s" using tombstone(4) by (simp add: pub_inv_def)
  have "slot_ok home gen holds (pu_index p) m d s (pu_owner p s) (pu_inverse p s) h"
    using at tombstone(1,3) by (auto simp: slot_inv_def)
  moreover have "home r = (s, snd (home r))" using at tombstone(1) by (simp add: slot_inv_def prod_eq_iff)
  ultimately show ?case
    using media_step [OF tombstone(4), of s "snd (home r)" m d "insert c (pu_spoiled p)" h] tombstone(2) deleting_free [OF tombstone(4,1)] by auto
next
  case (publish p s c r i)
  then have "only c (pu_owner p s)" by (auto simp: only_def)
  then show ?case by (rule publish_step [OF publish(5,1) _ publish(3,4)])
next
  case (reserve p s l)
  then show ?case using hold_step [OF reserve(3), of s "Reserved l"] inv_slot [OF reserve(3), of s] by (simp add: slot_inv_def away_def)
next
  case (flushed p s c r)
  then show ?case using hold_step [OF flushed(3), of s "Loaded c r"] inv_slot [OF flushed(3), of s] by (simp add: slot_inv_def)
next
  case (rollback p s l c r)
  have "slot_ok home gen holds (pu_index p) (pu_media p) (pu_durable p) s (pu_owner p s) (pu_inverse p s) Idle"
    using rollback(1) inv_slot [OF rollback(2), of s] by (auto simp: slot_inv_def)
  then show ?case by (rule hold_step [OF rollback(2)])
next
  case (claim p s r c)
  then show ?case using hold_step [OF claim(4), of s "Deleting c r"] inv_slot [OF claim(4), of s] by (simp add: slot_inv_def only_def)
next
  case (commit p s c r)
  then show ?case by (rule commit_step [rotated])
next
  case (retire p s c)
  then show ?case by (rule retire_step [rotated])
next
  case (clear p s c)
  then show ?case by (rule clear_step [rotated])
next
  case (free p s c)
  then show ?case by (rule free_step [rotated])
qed

end
