(* ===== verification/Kst_Refine.thy ===== *)
theory Kst_Refine
  imports Kst_Media Kst_Protocol Kix_Inverse
begin

text \<open>
  The storage target implements the publication protocol: what a state of the router is in terms of the
  protocol, and that every primitive of the handlers is a step of the protocol or changes nothing of it, for
  every answer of the devices.
\<close>

section \<open>The router as a state of the protocol\<close>

definition record_home :: "ChunkMediaLayoutSpec \<Rightarrow> LocationRecord \<Rightarrow> u64 \<times> u64" where
  "record_home l r = (case slot_address_for_record l r of Inr a \<Rightarrow> (slot_index a, publication_lane a) | Inl _ \<Rightarrow> (0, 0))"

definition lane_nat :: "u64 \<times> u64 \<Rightarrow> nat \<times> nat" where
  "lane_nat q = (unat (fst q), unat (snd q))"

text \<open>The content of a lane, and when it is a live copy of a chunk at a record.\<close>

definition lane_content :: "ChunkMediaHandle \<Rightarrow> (nat \<Rightarrow> u8) \<Rightarrow> u64 \<times> u64 \<Rightarrow> u8 list option" where
  "lane_content h f q =
     (if is_lane (handle_layout h) (lane_nat q) then Some (lane_bytes (cfg_span (h_config h)) (handle_layout h) f (lane_nat q)) else None)"

definition copy_of :: "(u8 list \<Rightarrow> u32) \<Rightarrow> ChunkMediaLayoutSpec \<Rightarrow> u8 list option \<Rightarrow> ChunkId \<Rightarrow> LocationRecord \<Rightarrow> bool" where
  "copy_of crc l v c r \<longleftrightarrow>
     (\<exists>bs ident. v = Some bs \<and> view_of_bytes crc l (lane_nat (record_home l r)) bs = LaneHolds (live_header c r ident))"

type_synonym target_hold = "u64 \<Rightarrow> (ChunkId, LocationRecord, u64) hold"

definition slot_owner :: "TargetRouter \<Rightarrow> u64 \<Rightarrow> (ChunkId \<times> LocationRecord) option" where
  "slot_owner t s =
     (if unat s < length (tr_slots t)
      then map_option (\<lambda>owner. (po_chunk_id owner, po_record owner)) (sp_current (tr_slots t ! unat s)) else None)"

definition target_view :: "TargetRouter \<Rightarrow> target_hold \<Rightarrow> ChunkId set \<Rightarrow> (ChunkId, LocationRecord, u64, u64, u32, u8 list option) pub" where
  "target_view t H X =
     \<lparr>pu_index = engine_index (tr_engine t), pu_owner = slot_owner t,
      pu_inverse = (\<lambda>s. lookup_granule_chunk (router_drive t) s (tr_engine t)), pu_hold = H,
      pu_media = lane_content (tr_media t) (dev_bytes (tr_device t)),
      pu_durable = lane_content (tr_media t) (dev_durable (tr_device t)), pu_spoiled = X\<rparr>"

lemma view_spoiled [simp]: "pu_spoiled (target_view t H X) = X"
  by (simp add: target_view_def)

lemma router_fields [simp]:
  "slot_owner (t\<lparr>tr_engine := e\<rparr>) = slot_owner t" "slot_owner (t\<lparr>tr_device := d\<rparr>) = slot_owner t"
  "router_drive (t\<lparr>tr_engine := e\<rparr>) = router_drive t" "router_drive (t\<lparr>tr_device := d\<rparr>) = router_drive t"
  "slot_owner (t\<lparr>tr_allocator := a\<rparr>) = slot_owner t" "router_drive (t\<lparr>tr_allocator := a\<rparr>) = router_drive t"
  by (simp_all add: fun_eq_iff slot_owner_def router_drive_def)

text \<open>What holds of the parts on their own.\<close>

definition parts_ok :: "(u8 list \<Rightarrow> u32) \<Rightarrow> TargetRouter \<Rightarrow> target_hold \<Rightarrow> bool" where
  "parts_ok crc t H \<longleftrightarrow>
     media_up crc (tr_media t) (tr_device t)
     \<and> engine_inv (tr_engine t) \<and> map_of (ke_inverse (tr_engine t)) (router_drive t) \<noteq> None
     \<and> length (tr_slots t) = unat (max (key_slots (handle_layout (tr_media t))) 1)
     \<and> (\<forall>c r. engine_index (tr_engine t) c = Some r \<longrightarrow>
          drive_id r = router_drive t \<and> record_lane (handle_layout (tr_media t)) r = Some (lane_nat (record_home (handle_layout (tr_media t)) r)))
     \<and> (\<forall>s. H s \<noteq> Idle \<longleftrightarrow> unat s < length (tr_slots t) \<and> sp_busy (tr_slots t ! unat s))"

definition target_ok :: "(u8 list \<Rightarrow> u32) \<Rightarrow> TargetRouter \<Rightarrow> target_hold \<Rightarrow> ChunkId set \<Rightarrow> bool" where
  "target_ok crc t H X \<longleftrightarrow> parts_ok crc t H
     \<and> pub_inv (record_home (handle_layout (tr_media t))) generation (copy_of crc (handle_layout (tr_media t))) (target_view t H X)"

text \<open>A step of the protocol, on states of the router.\<close>

abbreviation target_pub :: "(u8 list \<Rightarrow> u32) \<Rightarrow> TargetRouter \<Rightarrow> target_hold \<Rightarrow> ChunkId set \<Rightarrow> TargetRouter \<Rightarrow> target_hold \<Rightarrow> ChunkId set \<Rightarrow> bool" where
  "target_pub crc t H X t' H' X' \<equiv>
     pub_step (record_home (handle_layout (tr_media t))) generation (copy_of crc (handle_layout (tr_media t)))
       (target_view t H X) (target_view t' H' X')"

lemma target_ok_step:
  assumes "target_ok crc t H X" "target_pub crc t H X t' H' X'" "parts_ok crc t' H'" "tr_media t' = tr_media t"
  shows "target_ok crc t' H' X'"
  using assms pub_step_inv by (auto simp: target_ok_def)

section \<open>Homes\<close>

lemma record_lane_home: "record_lane l r = Some p \<Longrightarrow> lane_nat (record_home l r) = p"
  by (auto simp: record_lane_def record_home_def lane_nat_def split: sum.splits)

lemma slot_index_home:
  "chunk_media_slot_index_for_record l r = Inr s \<Longrightarrow> fst (record_home l r) = s \<and> record_lane l r = Some (lane_nat (record_home l r))"
  "record_lane l r = Some p \<Longrightarrow> chunk_media_slot_index_for_record l r = Inr (fst (record_home l r))"
  by (auto simp: chunk_media_slot_index_for_record_def record_home_def record_lane_def lane_nat_def bind_r_def split: sum.splits)

lemma lane_nat_inj: "lane_nat q = lane_nat q' \<Longrightarrow> q = q'"
  by (simp add: lane_nat_def prod_eq_iff word_unat_eq_iff)

lemma next_lane_away:
  assumes "next_publication_lane l slot (Some r) = Inr lane" "fst (record_home l r) = slot" "record_lane l r = Some p"
  shows "record_home l r \<noteq> (slot, lane)"
proof
  assume e: "record_home l r = (slot, lane)"
  then have "p = (unat slot, unat lane)" using record_lane_home [OF assms(3)] by (simp add: lane_nat_def)
  then show False
    using against_current_other_lane [of l slot r lane p] assms by (simp add: chosen_lane_def)
qed

section \<open>Media\<close>

lemma lane_kept_content:
  assumes "lane_kept h d d' (lane_nat q)"
  shows "lane_content h (dev_bytes d') q = lane_content h (dev_bytes d) q
    \<and> (lane_content h (dev_durable d') q = lane_content h (dev_durable d) q \<or> lane_content h (dev_durable d') q = lane_content h (dev_bytes d') q)"
  using assms by (auto simp: lane_kept_def lane_content_def Let_def)

lemma kept_contentI:
  assumes "\<And>q. is_lane (handle_layout (tr_media t)) (lane_nat q) \<Longrightarrow> q \<in> L \<Longrightarrow> lane_kept (tr_media t) (tr_device t) d' (lane_nat q)"
  shows "kept L (target_view t H X) (lane_content (tr_media t) (dev_bytes d')) (lane_content (tr_media t) (dev_durable d'))"
  unfolding kept_def
proof
  fix q assume "q \<in> L"
  then show "lane_content (tr_media t) (dev_bytes d') q = pu_media (target_view t H X) q
      \<and> (lane_content (tr_media t) (dev_durable d') q = pu_durable (target_view t H X) q \<or> lane_content (tr_media t) (dev_durable d') q = lane_content (tr_media t) (dev_bytes d') q)"
    using assms [of q] lane_kept_content [of "tr_media t" "tr_device t" d' q]
    by (cases "is_lane (handle_layout (tr_media t)) (lane_nat q)") (auto simp: target_view_def lane_content_def)
qed

lemma on_media_run: "on_media m t = (fst (m (tr_device t)), t\<lparr>tr_device := snd (m (tr_device t))\<rparr>)"
  by (simp add: on_media_def)

lemma parts_device:
  assumes "parts_ok crc t H" "media_up crc (tr_media t) d'"
  shows "parts_ok crc (t\<lparr>tr_device := d'\<rparr>) H"
  using assms by (simp add: parts_ok_def router_drive_def)

lemma view_device:
  "target_view (t\<lparr>tr_device := d'\<rparr>) H X = (target_view t H X)\<lparr>pu_media := lane_content (tr_media t) (dev_bytes d'),
     pu_durable := lane_content (tr_media t) (dev_durable d')\<rparr>"
  by (simp add: target_view_def fun_eq_iff)

lemma view_hold: "target_view t H' X = (target_view t H X)\<lparr>pu_hold := H'\<rparr>"
  by (simp add: target_view_def)

text \<open>Reads: the state of the protocol does not change.\<close>

lemma target_still:
  assumes "target_ok crc t H X" "still d' = still (tr_device t)"
  shows "target_ok crc (t\<lparr>tr_device := d'\<rparr>) H X"
proof -
  have s: "dev_bytes d' = dev_bytes (tr_device t)" "dev_durable d' = dev_durable (tr_device t)" using assms(2) by (simp_all add: still_def)
  have "parts_ok crc (t\<lparr>tr_device := d'\<rparr>) H"
    using assms still_media(1) [OF assms(2)] by (intro parts_device) (auto simp: target_ok_def parts_ok_def)
  moreover have "target_view (t\<lparr>tr_device := d'\<rparr>) H X = target_view t H X" by (simp add: view_device s) (simp add: target_view_def)
  ultimately show ?thesis using assms(1) by (simp add: target_ok_def)
qed

lemma write_lane_step:
  assumes ok: "target_ok crc t H X" and h: "H slot = Reserved lane" and c: "chunk_id_ok c"
    and run: "write_lane crc slot lane c gen ident body t = (res, t')"
  shows "\<exists>d'. t' = t\<lparr>tr_device := d'\<rparr> \<and> (\<forall>q. is_lane (handle_layout (tr_media t)) (lane_nat q) \<longrightarrow> q \<noteq> (slot, lane) \<longrightarrow> lane_kept (tr_media t) (tr_device t) d' (lane_nat q))"
    "target_ok crc t' H X"
    "res = Inr r \<Longrightarrow> target_ok crc t' (H(slot := Filled c r)) X \<and> record_home (handle_layout (tr_media t)) r = (slot, lane) \<and> generation r = gen
       \<and> drive_id r = router_drive t \<and> record_lane (handle_layout (tr_media t)) r = Some (unat slot, unat lane)
       \<and> lane_payload (cfg_span (h_config (tr_media t))) (handle_layout (tr_media t)) (dev_bytes (tr_device t')) (unat slot, unat lane) r = body"
proof -
  let ?h = "tr_media t" and ?l = "handle_layout (tr_media t)"
  obtain d' where d': "write_payload_to_lane_unsynced crc ?h slot lane c gen ident body (tr_device t) = (res, d')" and t': "t' = t\<lparr>tr_device := d'\<rparr>"
    using run by (cases "write_payload_to_lane_unsynced crc ?h slot lane c gen ident body (tr_device t)") (auto simp: write_lane_def on_media_run)
  have p: "parts_ok crc t H" using ok by (simp add: target_ok_def)
  then have up: "media_up crc ?h (tr_device t)" by (simp add: parts_ok_def)
  note w = unsynced_write [OF d' up c]
  have k: "lane_kept ?h (tr_device t) d' (lane_nat q)" if "is_lane ?l (lane_nat q)" "q \<noteq> (slot, lane)" for q
  proof -
    have "lane_nat q \<noteq> (unat slot, unat lane)" using that(2) lane_nat_inj [of q "(slot, lane)"] by (auto simp: lane_nat_def)
    then show ?thesis using w(2) [OF that(1)] by blast
  qed
  then show "\<exists>d'. t' = t\<lparr>tr_device := d'\<rparr> \<and> (\<forall>q. is_lane ?l (lane_nat q) \<longrightarrow> q \<noteq> (slot, lane) \<longrightarrow> lane_kept ?h (tr_device t) d' (lane_nat q))"
    using t' by blast
  have kept: "kept (- {(slot, lane)}) (target_view t H X) (lane_content ?h (dev_bytes d')) (lane_content ?h (dev_durable d'))"
    by (intro kept_contentI k) auto
  have p': "parts_ok crc t' H" unfolding t' by (rule parts_device [OF p w(1)])
  have "target_pub crc t H X t' H X"
    unfolding t' view_device by (rule pub_step.write_fails [OF _ kept]) (simp add: target_view_def h)
  then show "target_ok crc t' H X" using target_ok_step [OF ok _ p'] by (simp add: t')
  assume r: "res = Inr r"
  note fin = w(3) [OF r]
  have home: "record_home ?l r = (slot, lane)"
    using record_lane_home [of ?l r] fin lane_nat_inj [of "record_home ?l r" "(slot, lane)"] by (simp add: lane_nat_def)
  have "is_lane ?l (unat slot, unat lane)"
    using record_lane_is_lane [of ?l r] fin media_ready_layout(2) up by (auto simp: media_up_def handle_layout_def)
  then have "copy_of crc ?l (lane_content ?h (dev_bytes d') (slot, lane)) c r"
    using fin home by (auto simp: copy_of_def lane_content_def lane_nat_def lane_at_def)
  then have "pub_step (record_home ?l) generation (copy_of crc ?l) (target_view t H X)
      ((target_view t H X)\<lparr>pu_media := lane_content ?h (dev_bytes d'), pu_durable := lane_content ?h (dev_durable d'),
        pu_hold := (pu_hold (target_view t H X))(slot := Filled c r)\<rparr>)"
    by (intro pub_step.write_done [where l = lane] kept home) (simp_all add: target_view_def h)
  then have "target_pub crc t H X t' (H(slot := Filled c r)) X"
    unfolding t' view_hold [of _ "H(slot := Filled c r)" X H] view_device by (simp add: target_view_def)
  moreover have "parts_ok crc t' (H(slot := Filled c r))" using p' h by (simp add: parts_ok_def) (metis hold.distinct(1) hold.distinct(3))
  ultimately show "target_ok crc t' (H(slot := Filled c r)) X \<and> record_home ?l r = (slot, lane) \<and> generation r = gen
       \<and> drive_id r = router_drive t \<and> record_lane ?l r = Some (unat slot, unat lane)
       \<and> lane_payload (cfg_span (h_config ?h)) ?l (dev_bytes (tr_device t')) (unat slot, unat lane) r = body"
    using target_ok_step [OF ok] fin home by (simp add: t' router_drive_def)
qed

lemma parts_hold:
  assumes "parts_ok crc t H" "H slot \<noteq> Idle" "h \<noteq> Idle"
  shows "parts_ok crc t (H(slot := h))"
  using assms by (simp add: parts_ok_def)

text \<open>A lane that was filled counts as durable once the device is in step with its durable bytes.\<close>

lemma flushed_step:
  assumes ok: "target_ok crc t H X" and d: "dev_durable (tr_device t) = dev_bytes (tr_device t)" and h: "H slot = Filled c r"
  shows "target_ok crc t (H(slot := Loaded c r)) X"
proof -
  let ?l = "handle_layout (tr_media t)"
  have "pu_durable (target_view t H X) (record_home ?l r) = pu_media (target_view t H X) (record_home ?l r)"
    using d by (simp add: target_view_def)
  moreover have "pu_hold (target_view t H X) slot = Filled c r" using h by (simp add: target_view_def)
  ultimately have "pub_step (record_home ?l) generation (copy_of crc ?l) (target_view t H X)
      ((target_view t H X)\<lparr>pu_hold := (pu_hold (target_view t H X))(slot := Loaded c r)\<rparr>)"
    by (intro pub_step.flushed)
  then have "target_pub crc t H X t (H(slot := Loaded c r)) X"
    unfolding view_hold [of t "H(slot := Loaded c r)" X H] by (simp add: target_view_def)
  moreover have "parts_ok crc t (H(slot := Loaded c r))" using ok by (intro parts_hold) (simp_all add: h target_ok_def)
  ultimately show ?thesis using target_ok_step [OF ok] by simp
qed

lemma barrier_step:
  assumes ok: "target_ok crc t H X" and run: "on_media handle_fdatasync t = (res, t')"
  shows "\<exists>d'. t' = t\<lparr>tr_device := d'\<rparr> \<and> dev_bytes d' = dev_bytes (tr_device t)" "target_ok crc t' H X"
    "res = Inr u \<Longrightarrow> dev_durable (tr_device t') = dev_bytes (tr_device t')"
proof -
  let ?h = "tr_media t" and ?l = "handle_layout (tr_media t)"
  obtain d' where d': "handle_fdatasync (tr_device t) = (res, d')" and t': "t' = t\<lparr>tr_device := d'\<rparr>"
    using run by (cases "handle_fdatasync (tr_device t)") (auto simp: on_media_run)
  have p: "parts_ok crc t H" using ok by (simp add: target_ok_def)
  then have up: "media_up crc ?h (tr_device t)" by (simp add: parts_ok_def)
  note b = barrier [OF d' up]
  show "\<exists>d'. t' = t\<lparr>tr_device := d'\<rparr> \<and> dev_bytes d' = dev_bytes (tr_device t)" using t' b(3) by blast
  have k: "kept UNIV (target_view t H X) (pu_media (target_view t H X)) (lane_content ?h (dev_durable d'))"
    using kept_contentI [of t UNIV d' H X] b(2,3) by (simp add: target_view_def)
  have v: "target_view t' H X = (target_view t H X)\<lparr>pu_durable := lane_content ?h (dev_durable d')\<rparr>"
    unfolding t' view_device by (simp add: b(3)) (simp add: target_view_def)
  have p': "parts_ok crc t' H" unfolding t' by (rule parts_device [OF p b(1)])
  have "target_pub crc t H X t' H X" unfolding v by (rule pub_step.flush [OF k])
  then show "target_ok crc t' H X" using target_ok_step [OF ok _ p'] by (simp add: t')
  show "dev_durable (tr_device t') = dev_bytes (tr_device t')" if "res = Inr u" using b(4) that by (simp add: t')
qed

section \<open>Slots\<close>

lemma modify_slot_fields [simp]:
  "tr_engine (modify_slot slot f t) = tr_engine t" "tr_media (modify_slot slot f t) = tr_media t"
  "tr_device (modify_slot slot f t) = tr_device t" "tr_allocator (modify_slot slot f t) = tr_allocator t"
  "length (tr_slots (modify_slot slot f t)) = length (tr_slots t)" "router_drive (modify_slot slot f t) = router_drive t"
  by (simp_all add: modify_slot_def router_drive_def)

lemma nth_modify_slot:
  "unat s < length (tr_slots t) \<Longrightarrow>
     tr_slots (modify_slot slot f t) ! unat s = (if s = slot then f (tr_slots t ! unat slot) else tr_slots t ! unat s)"
  by (auto simp: modify_slot_def nth_list_update word_unat_eq_iff)

lemma slot_owner_modify:
  assumes "unat slot < length (tr_slots t)"
  shows "slot_owner (modify_slot slot f t) =
    (slot_owner t)(slot := map_option (\<lambda>owner. (po_chunk_id owner, po_record owner)) (sp_current (f (tr_slots t ! unat slot))))"
  using assms by (simp add: fun_eq_iff slot_owner_def nth_modify_slot)

lemma view_modify:
  assumes "unat slot < length (tr_slots t)"
  shows "target_view (modify_slot slot f t) H X = (target_view t H X)\<lparr>pu_owner :=
    (slot_owner t)(slot := map_option (\<lambda>owner. (po_chunk_id owner, po_record owner)) (sp_current (f (tr_slots t ! unat slot))))\<rparr>"
  using slot_owner_modify [OF assms] by (simp add: target_view_def)

lemma parts_modify:
  assumes "parts_ok crc t H" "unat slot < length (tr_slots t)" "sp_busy (f (tr_slots t ! unat slot)) \<longleftrightarrow> h \<noteq> Idle"
  shows "parts_ok crc (modify_slot slot f t) (H(slot := h))"
  using assms by (auto simp: parts_ok_def nth_modify_slot)

lemma held_slot: "parts_ok crc t H \<Longrightarrow> H slot \<noteq> Idle \<Longrightarrow> unat slot < length (tr_slots t) \<and> sp_busy (tr_slots t ! unat slot)"
  by (simp add: parts_ok_def)

text \<open>A step that only changes the publication state of a slot.\<close>

lemma modify_step:
  assumes ok: "target_ok crc t H X" and s: "unat slot < length (tr_slots t)" "sp_busy (f (tr_slots t ! unat slot)) \<longleftrightarrow> h \<noteq> Idle"
    and st: "pub_step (record_home (handle_layout (tr_media t))) generation (copy_of crc (handle_layout (tr_media t))) (target_view t H X)
      ((target_view t H X)\<lparr>pu_owner := (slot_owner t)(slot := map_option (\<lambda>owner. (po_chunk_id owner, po_record owner)) (sp_current (f (tr_slots t ! unat slot)))),
         pu_hold := H(slot := h)\<rparr>)"
  shows "target_ok crc (modify_slot slot f t) (H(slot := h)) X"
proof (rule target_ok_step [OF ok])
  show "parts_ok crc (modify_slot slot f t) (H(slot := h))" using ok s by (intro parts_modify) (auto simp: target_ok_def)
  show "target_pub crc t H X (modify_slot slot f t) (H(slot := h)) X"
    using st unfolding view_modify [OF s(1)] view_hold [of t "H(slot := h)" X H] by (simp add: target_view_def)
qed simp

lemma same_owner: "unat slot < length (tr_slots t) \<Longrightarrow> sp_current (f (tr_slots t ! unat slot)) = sp_current (tr_slots t ! unat slot) \<Longrightarrow>
    (slot_owner t)(slot := map_option (\<lambda>owner. (po_chunk_id owner, po_record owner)) (sp_current (f (tr_slots t ! unat slot)))) = slot_owner t"
  by (auto simp: fun_eq_iff slot_owner_def)

lemma rollback_slot_step:
  assumes ok: "target_ok crc t H X" and h: "H slot \<in> {Reserved l, Filled c r, Loaded c r, Deleting c r, Tombstoned c}"
    and f: "f \<in> {rollback, finish_delete False}"
  shows "target_ok crc (modify_slot slot f t) (H(slot := Idle)) X"
proof -
  have s: "unat slot < length (tr_slots t)" using ok h held_slot [of crc t H slot] by (auto simp: target_ok_def)
  have f': "sp_current (f x) = sp_current x" "\<not> sp_busy (f x)" for x using f by (auto simp: rollback_def finish_delete_def)
  have "pub_step (record_home (handle_layout (tr_media t))) generation (copy_of crc (handle_layout (tr_media t))) (target_view t H X)
      ((target_view t H X)\<lparr>pu_hold := (pu_hold (target_view t H X))(slot := Idle)\<rparr>)"
    using h by (intro pub_step.rollback) (simp add: target_view_def)
  then have "pub_step (record_home (handle_layout (tr_media t))) generation (copy_of crc (handle_layout (tr_media t))) (target_view t H X)
      ((target_view t H X)\<lparr>pu_owner := slot_owner t, pu_hold := H(slot := Idle)\<rparr>)" by (simp add: target_view_def)
  then show ?thesis using modify_step [OF ok s, of f Idle] same_owner [OF s, of f] f' by simp
qed

lemma commit_slot_step:
  assumes ok: "target_ok crc t H X" and h: "H slot = Published c r"
  shows "target_ok crc (modify_slot slot (commit \<lparr>po_chunk_id = c, po_record = r\<rparr>) t) (H(slot := Idle)) X"
    "slot_owner (modify_slot slot (commit \<lparr>po_chunk_id = c, po_record = r\<rparr>) t) slot = Some (fenced (generation \<circ> snd) (c, r) (slot_owner t slot))"
proof -
  let ?f = "commit \<lparr>po_chunk_id = c, po_record = r\<rparr>"
  have s: "unat slot < length (tr_slots t)" using ok h held_slot [of crc t H slot] by (auto simp: target_ok_def)
  have o: "map_option (\<lambda>owner. (po_chunk_id owner, po_record owner)) (sp_current (?f (tr_slots t ! unat slot)))
      = Some (fenced (generation \<circ> snd) (c, r) (slot_owner t slot))"
    using s by (auto simp: commit_def slot_owner_def fenced_def Let_def split: option.split)
  have "pub_step (record_home (handle_layout (tr_media t))) generation (copy_of crc (handle_layout (tr_media t))) (target_view t H X)
      ((target_view t H X)\<lparr>pu_owner := (pu_owner (target_view t H X))(slot := Some (fenced (generation \<circ> snd) (c, r) (pu_owner (target_view t H X) slot))),
        pu_hold := (pu_hold (target_view t H X))(slot := Idle)\<rparr>)"
    by (intro pub_step.commit) (simp add: target_view_def h)
  then show "target_ok crc (modify_slot slot ?f t) (H(slot := Idle)) X"
    using modify_step [OF ok s, of ?f Idle] o by (simp add: target_view_def) (simp add: commit_def Let_def)
  show "slot_owner (modify_slot slot ?f t) slot = Some (fenced (generation \<circ> snd) (c, r) (slot_owner t slot))"
    unfolding slot_owner_modify [OF s] o by simp
qed

text \<open>The reservation: refused with no change, or the slot is held and the lane is not the owner's.\<close>

lemma owner_option: "unat slot < length (tr_slots t) \<Longrightarrow>
    slot_owner t slot = map_option (\<lambda>owner. (po_chunk_id owner, po_record owner)) (sp_current (tr_slots t ! unat slot))"
  by (simp add: slot_owner_def)

lemma target_index: "target_ok crc t H X \<Longrightarrow> kix_get c (tr_engine t) = Inr (engine_index (tr_engine t) c)"
  by (simp add: target_ok_def parts_ok_def engine_inv_def kix_get_index)

lemma kix_lookup_run: "target_ok crc t H X \<Longrightarrow> kix_lookup c t = (Inr (engine_index (tr_engine t) c), t)"
  by (simp add: kix_lookup_def target_index)

lemma reserve_with_cases:
  assumes ok: "target_ok crc t H X" and s: "unat slot < length (tr_slots t)" and run: "reserve_with slot current t = (res, t')"
  shows "t' = t \<and> (\<exists>e. res = Inl e \<and> (e = Waiting \<longleftrightarrow> H slot \<noteq> Idle)) \<or>
    (\<exists>reservation. res = Inr reservation \<and> H slot = Idle
       \<and> rv_current reservation = sp_current (tr_slots t ! unat slot)
       \<and> t' = modify_slot slot (\<lambda>s. s\<lparr>sp_busy := True\<rparr>) t
       \<and> next_publication_lane (handle_layout (tr_media t)) slot
           (baseline (tr_media t) slot current (map_option po_record (sp_current (tr_slots t ! unat slot)))) = Inr (rv_lane reservation))"
proof -
  have busy: "sp_busy (tr_slots t ! unat slot) \<longleftrightarrow> H slot \<noteq> Idle" using ok s by (simp add: target_ok_def parts_ok_def)
  have upd: "t\<lparr>tr_slots := (tr_slots t)[unat slot := tr_slots t ! unat slot]\<rparr> = t" by simp
  show ?thesis
    using run busy upd
    by (auto simp: reserve_with_def on_slot_def reserve_def fresh_publication_lane_def
        next_publication_lane_for_slot_def modify_slot_def service_error_def split: if_splits sum.splits)
qed

lemma reserve_with_step:
  assumes ok: "target_ok crc t H X" and s: "unat slot < length (tr_slots t)" and run: "reserve_with slot current t = (Inr reservation, t')"
  shows "target_ok crc t' (H(slot := Reserved (rv_lane reservation))) X" "tr_engine t' = tr_engine t" "tr_media t' = tr_media t" "tr_device t' = tr_device t"
    "slot_owner t' = slot_owner t" "owner_conflict c reservation \<longleftrightarrow> \<not> only c (slot_owner t slot)" "H slot = Idle"
    "map_option (\<lambda>owner. (po_chunk_id owner, po_record owner)) (rv_current reservation) = slot_owner t slot" "tr_allocator t' = tr_allocator t"
    "length (tr_slots t') = length (tr_slots t)"
proof -
  let ?l = "handle_layout (tr_media t)" and ?f = "\<lambda>s. s\<lparr>sp_busy := True\<rparr>"
  from reserve_with_cases [OF ok s run] have idle: "H slot = Idle"
    and cur: "rv_current reservation = sp_current (tr_slots t ! unat slot)" and t': "t' = modify_slot slot ?f t"
    and lane: "next_publication_lane ?l slot (baseline (tr_media t) slot current (map_option po_record (sp_current (tr_slots t ! unat slot)))) = Inr (rv_lane reservation)"
    by auto
  have away: "record_home ?l r \<noteq> (slot, rv_lane reservation)" if o: "slot_owner t slot = Some (c', r)" for c' r
  proof -
    have b: "baseline (tr_media t) slot current (map_option po_record (sp_current (tr_slots t ! unat slot))) = Some r"
      using o owner_option [OF s] by (auto simp: baseline_def)
    then have rl: "record_lane ?l r \<noteq> None"
      using lane by (auto simp: next_publication_lane_def record_lane_def bind_r_def split: sum.splits)
    show ?thesis using next_lane_away [of ?l slot r "rv_lane reservation"] lane b rl by (cases "fst (record_home ?l r) = slot") auto
  qed
  have "pub_step (record_home ?l) generation (copy_of crc ?l) (target_view t H X)
      ((target_view t H X)\<lparr>pu_hold := (pu_hold (target_view t H X))(slot := Reserved (rv_lane reservation))\<rparr>)"
    by (intro pub_step.reserve) (use idle away in \<open>simp_all add: target_view_def\<close>)
  then show "target_ok crc t' (H(slot := Reserved (rv_lane reservation))) X"
    using modify_step [OF ok s, of ?f "Reserved (rv_lane reservation)"] same_owner [OF s, of ?f] by (simp add: t' target_view_def)
  show "slot_owner t' = slot_owner t" unfolding t' slot_owner_modify [OF s] using same_owner [OF s, of ?f] by simp
  show m: "map_option (\<lambda>owner. (po_chunk_id owner, po_record owner)) (rv_current reservation) = slot_owner t slot"
    using cur owner_option [OF s] by simp
  show "owner_conflict c reservation \<longleftrightarrow> \<not> only c (slot_owner t slot)"
    unfolding m [symmetric] by (auto simp: owner_conflict_def only_def split: option.split)
  show "tr_engine t' = tr_engine t" "tr_media t' = tr_media t" "tr_device t' = tr_device t" "H slot = Idle" "tr_allocator t' = tr_allocator t"
      "length (tr_slots t') = length (tr_slots t)"
    using t' idle by simp_all
qed

lemma reserve_lane_run:
  assumes ok: "target_ok crc t H X"
  shows "reserve_lane c slot t = (if unat slot < length (tr_slots t) then reserve_with slot (engine_index (tr_engine t) c) t else (Inl (service_error BAD_REQUEST True), t))"
  using kix_lookup_run [OF ok, of c] by (simp add: reserve_lane_def st_bind_run slot_publication_def)

lemma reserve_lane_cases:
  assumes ok: "target_ok crc t H X" and run: "reserve_lane c slot t = (res, t')"
  shows "t' = t \<and> (\<exists>e. res = Inl e \<and> (e = Waiting \<longrightarrow> H slot \<noteq> Idle)) \<or>
    (\<exists>reservation. res = Inr reservation \<and> H slot = Idle \<and> unat slot < length (tr_slots t)
       \<and> rv_current reservation = sp_current (tr_slots t ! unat slot)
       \<and> t' = modify_slot slot (\<lambda>s. s\<lparr>sp_busy := True\<rparr>) t
       \<and> next_publication_lane (handle_layout (tr_media t)) slot
           (baseline (tr_media t) slot (engine_index (tr_engine t) c) (map_option po_record (sp_current (tr_slots t ! unat slot)))) = Inr (rv_lane reservation))"
proof (cases "unat slot < length (tr_slots t)")
  case True
  then show ?thesis using run reserve_with_cases [OF ok True, of "engine_index (tr_engine t) c" res t'] by (auto simp: reserve_lane_run [OF ok])
qed (use run in \<open>auto simp: reserve_lane_run [OF ok] service_error_def\<close>)

lemma reserve_lane_step:
  assumes ok: "target_ok crc t H X" and run: "reserve_lane c slot t = (Inr reservation, t')"
  shows "target_ok crc t' (H(slot := Reserved (rv_lane reservation))) X" "tr_engine t' = tr_engine t" "tr_media t' = tr_media t" "tr_device t' = tr_device t"
    "slot_owner t' = slot_owner t" "owner_conflict c reservation \<longleftrightarrow> \<not> only c (slot_owner t slot)" "H slot = Idle"
    "map_option (\<lambda>owner. (po_chunk_id owner, po_record owner)) (rv_current reservation) = slot_owner t slot" "tr_allocator t' = tr_allocator t"
proof -
  have s: "unat slot < length (tr_slots t)" and r: "reserve_with slot (engine_index (tr_engine t) c) t = (Inr reservation, t')"
    using run by (auto simp: reserve_lane_run [OF ok] split: if_splits)
  note reserve_with_step [OF ok s r]
  then show "target_ok crc t' (H(slot := Reserved (rv_lane reservation))) X" "tr_engine t' = tr_engine t" "tr_media t' = tr_media t" "tr_device t' = tr_device t"
    "slot_owner t' = slot_owner t" "owner_conflict c reservation \<longleftrightarrow> \<not> only c (slot_owner t slot)" "H slot = Idle"
    "map_option (\<lambda>owner. (po_chunk_id owner, po_record owner)) (rv_current reservation) = slot_owner t slot" "tr_allocator t' = tr_allocator t"
    by blast+
qed

section \<open>The index\<close>

lemma lookup_update_inverse:
  assumes "map_of (ke_inverse e) d \<noteq> None"
  shows "lookup_granule_chunk d s (update_inverse d slot c g e) =
    (if s = slot then Some (fenced snd (c, g) (lookup_granule_chunk d slot e)) else lookup_granule_chunk d s e)"
  using assms
  by (auto simp: lookup_granule_chunk_def update_inverse_def fenced_owner_def Let_def AList.update_conv' fenced_def split: option.split)

lemma lookup_clear_inverse:
  "lookup_granule_chunk d s (clear_granule_inverse d slot e) = (if s = slot then None else lookup_granule_chunk d s e)"
  by (auto simp: lookup_granule_chunk_def clear_granule_inverse_def AList.update_conv' AList.delete_conv' split: option.split)

lemma update_inverse_drives: "map_of (ke_inverse (update_inverse d slot c g e)) x = None \<longleftrightarrow> map_of (ke_inverse e) x = None"
  by (auto simp: update_inverse_def AList.update_conv' split: option.split)

lemma clear_inverse_fields [simp]:
  "ke_shards (clear_granule_inverse d slot e) = ke_shards e" "ke_drives (clear_granule_inverse d slot e) = ke_drives e"
  "map_of (ke_inverse (clear_granule_inverse d slot e)) x = None \<longleftrightarrow> map_of (ke_inverse e) x = None"
  by (auto simp: clear_granule_inverse_def AList.update_conv' split: option.split)

lemma lookup_cong: "ke_inverse e' = ke_inverse e \<Longrightarrow> lookup_granule_chunk d s e' = lookup_granule_chunk d s e"
  by (simp add: lookup_granule_chunk_def)

lemma spec_upsert_fenced: "spec_upsert c r m = m(c := Some (fenced generation r (m c)))"
  by (auto simp: spec_upsert.simps fenced_def fun_upd_idem split: option.split)

lemma engine_step:
  assumes "parts_ok crc t H" "engine_inv e'" "map_of (ke_inverse e') (router_drive t) \<noteq> None"
    "\<And>c r. engine_index e' c = Some r \<Longrightarrow> drive_id r = router_drive t \<and> record_lane (handle_layout (tr_media t)) r = Some (lane_nat (record_home (handle_layout (tr_media t)) r))"
  shows "parts_ok crc (t\<lparr>tr_engine := e'\<rparr>) H"
  using assms by (simp add: parts_ok_def router_drive_def)

lemma view_engine:
  "target_view (t\<lparr>tr_engine := e'\<rparr>) H X = (target_view t H X)\<lparr>pu_index := engine_index e', pu_inverse := (\<lambda>s. lookup_granule_chunk (router_drive t) s e')\<rparr>"
  by (simp add: target_view_def fun_eq_iff)

lemma client_call_cases:
  assumes "client_call call t = (res, t')"
  obtains e' where "t' = t\<lparr>tr_engine := e'\<rparr>" "call (tr_engine t) = (Returned (Inr ()), e')" "res = Inr ()"
  | e' out e where "t' = t\<lparr>tr_engine := e'\<rparr>" "call (tr_engine t) = (out, e')" "out \<noteq> Returned (Inr ())" "res = Inl e" "e = Waiting \<longleftrightarrow> out = Blocked"
  using assms by (auto simp: client_call_def service_error_def split: prod.splits outcome.splits sum.splits)

text \<open>An operation that changes only the state of the workers.\<close>

lemma drives_step:
  assumes "target_ok crc t H X" "ke_shards e' = ke_shards (tr_engine t)" "ke_inverse e' = ke_inverse (tr_engine t)"
  shows "target_ok crc (t\<lparr>tr_engine := e'\<rparr>) H X"
proof -
  have i: "engine_index e' = engine_index (tr_engine t)" by (rule engine_index_cong [OF assms(2)])
  have "target_view (t\<lparr>tr_engine := e'\<rparr>) H X = target_view t H X"
    unfolding view_engine by (simp add: i lookup_cong [OF assms(3)]) (simp add: target_view_def)
  moreover have "parts_ok crc (t\<lparr>tr_engine := e'\<rparr>) H"
    using assms(1) shards_ok_cong [OF _ assms(2)] inverse_ok_cong [OF _ assms(3)]
    by (intro engine_step) (auto simp: target_ok_def parts_ok_def engine_inv_def i assms(3))
  ultimately show ?thesis using assms(1) by (simp add: target_ok_def)
qed

lemma upsert_failed:
  assumes "target_ok crc t H X" "kix_upsert crc c slot r (tr_engine t) = (out, e')" "out \<noteq> Returned (Inr ())"
  shows "target_ok crc (t\<lparr>tr_engine := e'\<rparr>) H X"
proof -
  have "shards_ok (tr_engine t)" using assms(1) by (simp add: target_ok_def parts_ok_def engine_inv_def)
  from kix_upsert_shape [OF this assms(2)] assms(3) obtain ws where "e' = (tr_engine t)\<lparr>ke_drives := ws\<rparr>" by auto
  then show ?thesis by (intro drives_step [OF assms(1)]) simp_all
qed

lemma upsert_published:
  assumes ok: "target_ok crc t H X" and h: "H slot = Loaded c r" and on: "only c (slot_owner t slot)"
    and rj: "rejoins generation c (generation r) (target_view t H X)"
    and r: "drive_id r = router_drive t" "record_lane (handle_layout (tr_media t)) r = Some p" and c: "chunk_id_ok c"
    and run: "kix_upsert crc c slot r (tr_engine t) = (Returned (Inr ()), e')"
  shows "target_ok crc (t\<lparr>tr_engine := e'\<rparr>) (H(slot := Published c r)) (if engine_index e' c = Some r then X - {c} else X)"
    "engine_index e' = (engine_index (tr_engine t))(c := Some (fenced generation r (engine_index (tr_engine t) c)))"
proof -
  let ?e = "tr_engine t" and ?l = "handle_layout (tr_media t)" and ?d = "router_drive t"
  let ?X = "if engine_index e' c = Some r then X - {c} else X"
  have p: "parts_ok crc t H" using ok by (simp add: target_ok_def)
  have inv: "engine_inv ?e" and dr: "map_of (ke_inverse ?e) ?d \<noteq> None" using p by (simp_all add: parts_ok_def)
  then have sh: "shards_ok ?e" by (simp add: engine_inv_def)
  from upsert_inv [OF inv c run] have inv': "engine_inv e'" and ix: "engine_index e' = (engine_index ?e)(c := Some (fenced generation r (engine_index ?e c)))"
    by (simp_all add: spec_upsert_fenced)
  then show "engine_index e' = (engine_index ?e)(c := Some (fenced generation r (engine_index ?e c)))" by simp
  from kix_upsert_shape [OF sh run] obtain ws where
    e': "e' = update_inverse ?d slot c (generation r) (?e\<lparr>ke_drives := ws, ke_shards := apply_to_shards (delta_upsert c r) ?e\<rparr>)"
    using r(1) by auto
  have lk: "lookup_granule_chunk ?d s e' = ((\<lambda>s. lookup_granule_chunk ?d s ?e)(slot := Some (fenced snd (c, generation r) (lookup_granule_chunk ?d slot ?e)))) s" for s
    unfolding e' using dr lookup_cong [of "?e\<lparr>ke_drives := ws, ke_shards := apply_to_shards (delta_upsert c r) ?e\<rparr>" ?e ?d]
    by (subst lookup_update_inverse) simp_all
  have "pub_step (record_home ?l) generation (copy_of crc ?l) (target_view t H X)
      ((target_view t H X)\<lparr>pu_index := engine_index e',
         pu_inverse := (pu_inverse (target_view t H X))(slot := Some (fenced snd (c, generation r) (pu_inverse (target_view t H X) slot))),
         pu_hold := (pu_hold (target_view t H X))(slot := Published c r), pu_spoiled := ?X\<rparr>)"
    using pub_step.publish [of "target_view t H X" slot c r generation "engine_index e'" "record_home ?l" "copy_of crc ?l", OF _ _ rj] on h ix
    unfolding view_spoiled by (simp add: target_view_def only_def)
  moreover have "target_view (t\<lparr>tr_engine := e'\<rparr>) (H(slot := Published c r)) ?X = (target_view t H X)\<lparr>pu_index := engine_index e',
         pu_inverse := (pu_inverse (target_view t H X))(slot := Some (fenced snd (c, generation r) (pu_inverse (target_view t H X) slot))),
         pu_hold := (pu_hold (target_view t H X))(slot := Published c r), pu_spoiled := ?X\<rparr>"
    by (simp add: target_view_def fun_eq_iff lk)
  ultimately have st: "target_pub crc t H X (t\<lparr>tr_engine := e'\<rparr>) (H(slot := Published c r)) ?X" by simp
  have home: "record_lane ?l r = Some (lane_nat (record_home ?l r))" using r(2) record_lane_home [OF r(2)] by simp
  have old: "drive_id r' = ?d \<and> record_lane ?l r' = Some (lane_nat (record_home ?l r'))" if "engine_index ?e c' = Some r'" for c' r'
    using p that by (simp add: parts_ok_def)
  have "parts_ok crc (t\<lparr>tr_engine := e'\<rparr>) H"
  proof (rule engine_step [OF p inv'])
    show "map_of (ke_inverse e') ?d \<noteq> None" using dr update_inverse_drives by (simp add: e')
    show "drive_id r' = ?d \<and> record_lane ?l r' = Some (lane_nat (record_home ?l r'))" if i: "engine_index e' c' = Some r'" for c' r'
      using i r(1) home old [of c' r'] by (auto simp: ix fenced_def split: if_splits option.splits)
  qed
  then have "parts_ok crc (t\<lparr>tr_engine := e'\<rparr>) (H(slot := Published c r))" by (rule parts_hold) (simp_all add: h)
  then show "target_ok crc (t\<lparr>tr_engine := e'\<rparr>) (H(slot := Published c r)) ?X" using target_ok_step [OF ok st] by simp
qed

section \<open>Deletes\<close>

lemma begin_delete_cases:
  assumes ok: "target_ok crc t H X" and run: "on_slot slot begin_delete t = (res, t')" and s: "unat slot < length (tr_slots t)"
  shows "res = Inl Waiting \<and> t' = t \<and> H slot \<noteq> Idle \<or>
    res = Inr (sp_current (tr_slots t ! unat slot)) \<and> H slot = Idle \<and> t' = modify_slot slot (\<lambda>s. s\<lparr>sp_busy := True\<rparr>) t"
proof -
  have busy: "sp_busy (tr_slots t ! unat slot) \<longleftrightarrow> H slot \<noteq> Idle" using ok s by (simp add: target_ok_def parts_ok_def)
  have upd: "t\<lparr>tr_slots := (tr_slots t)[unat slot := tr_slots t ! unat slot]\<rparr> = t" by simp
  show ?thesis using run busy upd by (auto simp: on_slot_def begin_delete_def modify_slot_def split: if_splits)
qed

lemma claim_step:
  assumes ok: "target_ok crc t H X" and s: "unat slot < length (tr_slots t)" and h: "H slot = Idle"
    and r: "fst (record_home (handle_layout (tr_media t)) r) = slot" and on: "only c (slot_owner t slot)"
  shows "target_ok crc (modify_slot slot (\<lambda>s. s\<lparr>sp_busy := True\<rparr>) t) (H(slot := Deleting c r)) X"
proof -
  let ?l = "handle_layout (tr_media t)"
  have "pub_step (record_home ?l) generation (copy_of crc ?l) (target_view t H X)
      ((target_view t H X)\<lparr>pu_hold := (pu_hold (target_view t H X))(slot := Deleting c r)\<rparr>)"
    using on r h by (intro pub_step.claim) (simp_all add: target_view_def only_def)
  then show ?thesis
    using modify_step [OF ok s, of "\<lambda>s. s\<lparr>sp_busy := True\<rparr>" "Deleting c r"] same_owner [OF s, of "\<lambda>s. s\<lparr>sp_busy := True\<rparr>"] by (simp add: target_view_def)
qed

lemma tombstone_step:
  assumes ok: "target_ok crc t H X" and h: "H slot = Deleting c r" and c: "chunk_id_ok c"
    and p: "record_lane (handle_layout (tr_media t)) r = Some p"
    and run: "on_media (handle_write_tombstone crc (tr_media t) c r g) t = (res, t')"
  shows "\<exists>d'. t' = t\<lparr>tr_device := d'\<rparr> \<and> (\<forall>q. is_lane (handle_layout (tr_media t)) (lane_nat q) \<longrightarrow> lane_nat q \<noteq> p \<longrightarrow> lane_kept (tr_media t) (tr_device t) d' (lane_nat q))"
    "k \<in> {Deleting c r, Tombstoned c} \<Longrightarrow> target_ok crc t' (H(slot := k)) (insert c X)"
proof -
  let ?h = "tr_media t" and ?l = "handle_layout (tr_media t)"
  obtain d' where d': "handle_write_tombstone crc ?h c r g (tr_device t) = (res, d')" and t': "t' = t\<lparr>tr_device := d'\<rparr>"
    using run by (cases "handle_write_tombstone crc ?h c r g (tr_device t)") (auto simp: on_media_run)
  have ps: "parts_ok crc t H" using ok by (simp add: target_ok_def)
  then have up: "media_up crc ?h (tr_device t)" by (simp add: parts_ok_def)
  note w = tombstone_kept [OF d' up c p]
  show "\<exists>d'. t' = t\<lparr>tr_device := d'\<rparr> \<and> (\<forall>q. is_lane ?l (lane_nat q) \<longrightarrow> lane_nat q \<noteq> p \<longrightarrow> lane_kept ?h (tr_device t) d' (lane_nat q))"
    using w(2) t' by blast
  assume k: "k \<in> {Deleting c r, Tombstoned c}"
  have home: "lane_nat (record_home ?l r) = p" by (rule record_lane_home [OF p])
  have kept: "kept (- {record_home ?l r}) (target_view t H X) (lane_content ?h (dev_bytes d')) (lane_content ?h (dev_durable d'))"
    using w(2) home lane_nat_inj by (intro kept_contentI) blast
  have "pub_step (record_home ?l) generation (copy_of crc ?l) (target_view t H X)
      ((target_view t H X)\<lparr>pu_media := lane_content ?h (dev_bytes d'), pu_durable := lane_content ?h (dev_durable d'),
        pu_hold := (pu_hold (target_view t H X))(slot := k), pu_spoiled := insert c (pu_spoiled (target_view t H X))\<rparr>)"
    by (intro pub_step.tombstone [where r = r] kept k) (simp add: target_view_def h)
  then have "target_pub crc t H X t' (H(slot := k)) (insert c X)"
    unfolding t' by (simp add: target_view_def)
  moreover have "parts_ok crc t' (H(slot := k))" unfolding t' using k h by (intro parts_hold parts_device [OF ps w(1)]) auto
  ultimately show "target_ok crc t' (H(slot := k)) (insert c X)" using target_ok_step [OF ok] by (simp add: t')
qed

lemma delete_failed:
  assumes "target_ok crc t H X" "kix_delete crc c (tr_engine t) = (out, e')" "out \<noteq> Returned (Inr ())"
  shows "target_ok crc (t\<lparr>tr_engine := e'\<rparr>) H X"
proof -
  have "shards_ok (tr_engine t)" using assms(1) by (simp add: target_ok_def parts_ok_def engine_inv_def)
  from kix_delete_shape [OF this assms(2)] assms(3) obtain ws where "e' = (tr_engine t)\<lparr>ke_drives := ws\<rparr>" by auto
  then show ?thesis by (intro drives_step [OF assms(1)]) simp_all
qed

lemma delete_retired:
  assumes ok: "target_ok crc t H X" and h: "H slot = Tombstoned c"
    and run: "kix_delete crc c (tr_engine t) = (Returned (Inr ()), e')"
  shows "target_ok crc (t\<lparr>tr_engine := e'\<rparr>) (H(slot := Retired c)) X" "engine_index e' = (engine_index (tr_engine t))(c := None)"
proof -
  let ?e = "tr_engine t" and ?l = "handle_layout (tr_media t)" and ?d = "router_drive t"
  have p: "parts_ok crc t H" using ok by (simp add: target_ok_def)
  have inv: "engine_inv ?e" and dr: "map_of (ke_inverse ?e) ?d \<noteq> None" using p by (simp_all add: parts_ok_def)
  then have sh: "shards_ok ?e" by (simp add: engine_inv_def)
  from delete_inv [OF inv run] have inv': "engine_inv e'" and ix: "engine_index e' = (engine_index ?e)(c := None)" by simp_all
  then show "engine_index e' = (engine_index ?e)(c := None)" by simp
  have ki: "ke_inverse e' = ke_inverse ?e" using kix_delete_shape [OF sh run] by auto
  have "pub_step (record_home ?l) generation (copy_of crc ?l) (target_view t H X)
      ((target_view t H X)\<lparr>pu_index := (pu_index (target_view t H X))(c := None), pu_hold := (pu_hold (target_view t H X))(slot := Retired c)\<rparr>)"
    by (rule pub_step.retire) (simp add: target_view_def h)
  then have st: "target_pub crc t H X (t\<lparr>tr_engine := e'\<rparr>) (H(slot := Retired c)) X"
    by (simp add: target_view_def ix lookup_cong [OF ki])
  have "parts_ok crc (t\<lparr>tr_engine := e'\<rparr>) H"
    using p dr ix ki by (intro engine_step [OF p inv']) (auto simp: parts_ok_def split: if_splits)
  then have "parts_ok crc (t\<lparr>tr_engine := e'\<rparr>) (H(slot := Retired c))" by (rule parts_hold) (simp_all add: h)
  then show "target_ok crc (t\<lparr>tr_engine := e'\<rparr>) (H(slot := Retired c)) X" using target_ok_step [OF ok st] by simp
qed

lemma clear_slot_step:
  assumes ok: "target_ok crc t H X" and h: "H slot = Retired c"
  shows "target_ok crc (t\<lparr>tr_engine := clear_granule_inverse (router_drive t) slot (tr_engine t)\<rparr>) (H(slot := Cleared c)) X"
proof -
  let ?e = "clear_granule_inverse (router_drive t) slot (tr_engine t)" and ?l = "handle_layout (tr_media t)"
  have p: "parts_ok crc t H" using ok by (simp add: target_ok_def)
  have i: "engine_index ?e = engine_index (tr_engine t)" by (rule engine_index_cong) simp
  have "pub_step (record_home ?l) generation (copy_of crc ?l) (target_view t H X)
      ((target_view t H X)\<lparr>pu_inverse := (pu_inverse (target_view t H X))(slot := None), pu_hold := (pu_hold (target_view t H X))(slot := Cleared c)\<rparr>)"
    by (rule pub_step.clear) (simp add: target_view_def h)
  then have st: "target_pub crc t H X (t\<lparr>tr_engine := ?e\<rparr>) (H(slot := Cleared c)) X"
    by (simp add: target_view_def i lookup_clear_inverse fun_upd_def)
  have "parts_ok crc (t\<lparr>tr_engine := ?e\<rparr>) H"
    using p inverse_ok_clear shards_ok_cong [of "tr_engine t" ?e] by (intro engine_step [OF p]) (auto simp: parts_ok_def engine_inv_def i)
  then have "parts_ok crc (t\<lparr>tr_engine := ?e\<rparr>) (H(slot := Cleared c))" by (rule parts_hold) (simp_all add: h)
  then show ?thesis using target_ok_step [OF ok st] by simp
qed

lemma free_slot_step:
  assumes ok: "target_ok crc t H X" and h: "H slot = Cleared c"
  shows "target_ok crc (modify_slot slot (finish_delete True) t) (H(slot := Idle)) X"
proof -
  let ?l = "handle_layout (tr_media t)"
  have s: "unat slot < length (tr_slots t)" using ok h held_slot [of crc t H slot] by (auto simp: target_ok_def)
  have "pub_step (record_home ?l) generation (copy_of crc ?l) (target_view t H X)
      ((target_view t H X)\<lparr>pu_owner := (pu_owner (target_view t H X))(slot := None), pu_hold := (pu_hold (target_view t H X))(slot := Idle)\<rparr>)"
    by (rule pub_step.free) (simp add: target_view_def h)
  then show ?thesis using modify_step [OF ok s, of "finish_delete True" Idle] by (simp add: target_view_def finish_delete_def Let_def)
qed

end
