(* ===== verification/Kst_Spec.thy ===== *)
theory Kst_Spec
  imports Kst_Refine
begin

text \<open>
  What the requests of a storage target do to the chunks it stores, one request at a time: a write is all or
  nothing, a read returns what is stored, a delete removes one chunk. The statements hold for every schedule of
  the media device and every answer of the index.
\<close>

section \<open>What is stored\<close>

text \<open>The generation and the bytes of every chunk in the index, as its record places them on the media.\<close>

definition stored_bytes :: "TargetRouter \<Rightarrow> LocationRecord \<Rightarrow> u8 list" where
  "stored_bytes t r =
     take (unat (logical_length r)) (drop 4096 (lane_bytes (cfg_span (h_config (tr_media t))) (handle_layout (tr_media t)) (dev_bytes (tr_device t))
       (lane_nat (record_home (handle_layout (tr_media t)) r))))"

definition contents :: "TargetRouter \<Rightarrow> ChunkId \<Rightarrow> (u32 \<times> u8 list) option" where
  "contents t c = map_option (\<lambda>r. (generation r, stored_bytes t r)) (engine_index (tr_engine t) c)"

abbreviation at_rest :: target_hold where
  "at_rest \<equiv> \<lambda>_. Idle"

abbreviation serving_ok :: "(u8 list \<Rightarrow> u32) \<Rightarrow> TargetRouter \<Rightarrow> ChunkId set \<Rightarrow> bool" where
  "serving_ok crc t X \<equiv> target_ok crc t at_rest X"

text \<open>A chunk that left copies behind in slots it still owns comes back with at least their generation.\<close>

definition comes_back :: "ChunkId \<Rightarrow> u32 \<Rightarrow> TargetRouter \<Rightarrow> bool" where
  "comes_back c g t \<longleftrightarrow> (engine_index (tr_engine t) c = None \<longrightarrow> (\<forall>s r. slot_owner t s = Some (c, r) \<longrightarrow> generation r \<le> g))"

lemma stored_bytes_payload:
  assumes "lane_at crc (cfg_span (h_config (tr_media t))) (handle_layout (tr_media t)) (dev_bytes (tr_device t)) p = LaneHolds (live_header c r ident)"
    "record_lane (handle_layout (tr_media t)) r = Some p"
  shows "stored_bytes t r = lane_payload (cfg_span (h_config (tr_media t))) (handle_layout (tr_media t)) (dev_bytes (tr_device t)) p r"
  using lane_payload_bytes [OF lane_holdsD(3) [OF assms(1)], of "cfg_span (h_config (tr_media t))" "dev_bytes (tr_device t)"] record_lane_home [OF assms(2)]
  by (simp add: stored_bytes_def live_header_def)

lemma stored_bytes_kept:
  assumes "lane_kept (tr_media t) (tr_device t) d' (lane_nat (record_home (handle_layout (tr_media t)) r))"
  shows "stored_bytes (t\<lparr>tr_device := d'\<rparr>) r = stored_bytes t r"
  using assms by (simp add: stored_bytes_def lane_kept_def Let_def)

lemma stored_bytes_cong: "tr_media t' = tr_media t \<Longrightarrow> dev_bytes (tr_device t') = dev_bytes (tr_device t) \<Longrightarrow> stored_bytes t' r = stored_bytes t r"
  by (simp add: stored_bytes_def)

lemma stored_bytes_engine [simp]: "stored_bytes (t\<lparr>tr_engine := e\<rparr>) r = stored_bytes t r" "stored_bytes (modify_slot slot f t) r = stored_bytes t r"
    "stored_bytes (t\<lparr>tr_allocator := a\<rparr>) r = stored_bytes t r"
  by (rule stored_bytes_cong; simp)+

lemma contents_cong:
  "tr_media t' = tr_media t \<Longrightarrow> dev_bytes (tr_device t') = dev_bytes (tr_device t) \<Longrightarrow> engine_index (tr_engine t') c = engine_index (tr_engine t) c \<Longrightarrow>
     contents t' c = contents t c"
  using stored_bytes_cong [of t' t] by (auto simp: contents_def split: option.split)

lemma index_lane:
  assumes "target_ok crc t H X" "engine_index (tr_engine t) c = Some r"
  shows "record_lane (handle_layout (tr_media t)) r = Some (lane_nat (record_home (handle_layout (tr_media t)) r))"
    "is_lane (handle_layout (tr_media t)) (lane_nat (record_home (handle_layout (tr_media t)) r))" "drive_id r = router_drive t" "chunk_id_ok c"
proof -
  show l: "record_lane (handle_layout (tr_media t)) r = Some (lane_nat (record_home (handle_layout (tr_media t)) r))" and "drive_id r = router_drive t"
    using assms by (simp_all add: target_ok_def parts_ok_def)
  have "media_ready crc (cfg_span (h_config (tr_media t))) (h_superblock (tr_media t)) (tr_device t)"
    using assms(1) by (simp add: target_ok_def parts_ok_def media_up_def)
  from record_lane_is_lane [OF media_ready_layout(2) [OF this]] l
  show "is_lane (handle_layout (tr_media t)) (lane_nat (record_home (handle_layout (tr_media t)) r))" by (simp add: handle_layout_def)
  show "chunk_id_ok c" using index_chunk_ok assms by (auto simp: target_ok_def parts_ok_def engine_inv_def)
qed

text \<open>The chunks in the index are not in a lane that a request has reserved.\<close>

lemma reserved_elsewhere:
  assumes "target_ok crc t H X" "H slot = Reserved lane" "engine_index (tr_engine t) c = Some r"
  shows "record_home (handle_layout (tr_media t)) r \<noteq> (slot, lane)"
  using reserved_free [of "record_home (handle_layout (tr_media t))" generation "copy_of crc (handle_layout (tr_media t))" "target_view t H X" slot lane c r] assms
  by (simp add: target_ok_def target_view_def)

lemma write_lane_contents:
  assumes "target_ok crc t H X" "H slot = Reserved lane" "chunk_id_ok c" "write_lane crc slot lane c gen ident body t = (res, t')"
  shows "contents t' = contents t" "tr_engine t' = tr_engine t" "tr_media t' = tr_media t" "slot_owner t' = slot_owner t" "tr_allocator t' = tr_allocator t"
proof -
  from write_lane_step(1) [OF assms] obtain d' where t': "t' = t\<lparr>tr_device := d'\<rparr>"
    and k: "\<And>q. is_lane (handle_layout (tr_media t)) (lane_nat q) \<Longrightarrow> q \<noteq> (slot, lane) \<Longrightarrow> lane_kept (tr_media t) (tr_device t) d' (lane_nat q)" by blast
  show "contents t' = contents t"
  proof
    fix c'
    show "contents t' c' = contents t c'"
    proof (cases "engine_index (tr_engine t) c'")
      case (Some r)
      have "stored_bytes t' r = stored_bytes t r" unfolding t'
        by (rule stored_bytes_kept [OF k [OF index_lane(2) [OF assms(1) Some] reserved_elsewhere [OF assms(1,2) Some]]])
      then show ?thesis by (simp add: contents_def Some t')
    qed (simp add: contents_def t')
  qed
qed (use write_lane_step(1) [OF assms] in auto)

section \<open>Writes\<close>

text \<open>The lane is written, flushed and published, or something is refused on the way.\<close>

lemma comes_back_rejoins: "comes_back c g t \<Longrightarrow> (\<And>s r. H s \<noteq> Published c r) \<Longrightarrow> rejoins generation c g (target_view t H X)"
  by (auto simp: comes_back_def rejoins_def target_view_def)

text \<open>The two media steps of a write: the lane has the bytes of the request, no other chunk changed.\<close>

lemma write_lane_stored:
  assumes ok: "target_ok crc t H X" and h: "H slot = Reserved lane" and c: "chunk_id_ok c"
    and run: "write_lane crc slot lane c gen ident body t = (Inr r, t')"
  shows "stored_bytes t' r = body"
proof -
  obtain d' where d': "write_payload_to_lane_unsynced crc (tr_media t) slot lane c gen ident body (tr_device t) = (Inr r, d')" and t': "t' = t\<lparr>tr_device := d'\<rparr>"
    using run by (cases "write_payload_to_lane_unsynced crc (tr_media t) slot lane c gen ident body (tr_device t)") (auto simp: write_lane_def on_media_run)
  have "media_up crc (tr_media t) (tr_device t)" using ok by (simp add: target_ok_def parts_ok_def)
  note w = unsynced_write(3) [OF d' this c refl]
  show ?thesis using stored_bytes_payload [of crc t' "(unat slot, unat lane)" c r ident] w by (simp add: t')
qed

lemma barrier_contents:
  assumes "target_ok crc t H X" "on_media handle_fdatasync t = (res, t')"
  shows "contents t' = contents t" "stored_bytes t' r = stored_bytes t r" "tr_engine t' = tr_engine t" "tr_media t' = tr_media t"
    "slot_owner t' = slot_owner t" "tr_allocator t' = tr_allocator t"
proof -
  from barrier_step(1) [OF assms] obtain d' where t': "t' = t\<lparr>tr_device := d'\<rparr>" "dev_bytes d' = dev_bytes (tr_device t)" by blast
  show "contents t' = contents t" using t' by (auto simp: fun_eq_iff intro!: contents_cong)
  show "stored_bytes t' r = stored_bytes t r" using t' by (intro stored_bytes_cong) simp_all
  show "tr_engine t' = tr_engine t" "tr_media t' = tr_media t" "slot_owner t' = slot_owner t" "tr_allocator t' = tr_allocator t" using t' by simp_all
qed

text \<open>The call that publishes a record whose lane is loaded.\<close>

definition superseded :: "TargetRouter \<Rightarrow> ChunkId \<Rightarrow> u32 \<Rightarrow> bool" where
  "superseded t c g \<longleftrightarrow> (case contents t c of Some (g', _) \<Rightarrow> g < g' | None \<Rightarrow> False)"

definition spec_put :: "ChunkId \<Rightarrow> u32 \<Rightarrow> u8 list \<Rightarrow> (ChunkId \<Rightarrow> (u32 \<times> u8 list) option) \<Rightarrow> ChunkId \<Rightarrow> (u32 \<times> u8 list) option" where
  "spec_put c g body m = m(c := Some (fenced fst (g, body) (m c)))"

lemma engine_contents:
  "contents (t\<lparr>tr_engine := e\<rparr>) c = map_option (\<lambda>r. (generation r, stored_bytes t r)) (engine_index e c)"
  by (simp add: contents_def)

lemma publish_contents:
  assumes ok: "target_ok crc t H X" and h: "H slot = Loaded c r" and on: "only c (slot_owner t slot)"
    and rj: "rejoins generation c (generation r) (target_view t H X)"
    and r: "drive_id r = router_drive t" "record_lane (handle_layout (tr_media t)) r = Some p" and c: "chunk_id_ok c"
    and run: "client_call (kix_upsert crc c slot r) t = (Inr (), t')"
  shows "target_ok crc t' (H(slot := Published c r)) (if superseded t c (generation r) then X else X - {c})"
    "contents t' = spec_put c (generation r) (stored_bytes t r) (contents t)"
    "\<exists>e'. t' = t\<lparr>tr_engine := e'\<rparr> \<and> engine_index e' = (engine_index (tr_engine t))(c := Some (fenced generation r (engine_index (tr_engine t) c)))"
proof -
  from run obtain e' where e': "t' = t\<lparr>tr_engine := e'\<rparr>" "kix_upsert crc c slot r (tr_engine t) = (Returned (Inr ()), e')"
    by (cases rule: client_call_cases) auto
  note u = upsert_published [OF ok h on rj r c e'(2)]
  have "engine_index e' c = Some r \<longleftrightarrow> \<not> superseded t c (generation r)"
    using u(2) by (auto simp: superseded_def contents_def fenced_def split: option.split)
  then show "target_ok crc t' (H(slot := Published c r)) (if superseded t c (generation r) then X else X - {c})"
    using u(1) by (cases "superseded t c (generation r)") (simp_all add: e')
  show "contents t' = spec_put c (generation r) (stored_bytes t r) (contents t)"
    unfolding e'(1) using u(2)
    by (auto simp: fun_eq_iff engine_contents spec_put_def fenced_def contents_def split: option.split)
  show "\<exists>e'. t' = t\<lparr>tr_engine := e'\<rparr> \<and> engine_index e' = (engine_index (tr_engine t))(c := Some (fenced generation r (engine_index (tr_engine t) c)))"
    using e'(1) u(2) by blast
qed

lemma publish_failed:
  assumes ok: "target_ok crc t H X" and c: "chunk_id_ok c" and run: "client_call (kix_upsert crc c slot r) t = (Inl e, t')"
  shows "target_ok crc t' H X" "contents t' = contents t" "slot_owner t' = slot_owner t" "tr_media t' = tr_media t"
    "engine_index (tr_engine t') = engine_index (tr_engine t)" "tr_device t' = tr_device t" "tr_allocator t' = tr_allocator t"
proof -
  from run obtain e' out where e': "t' = t\<lparr>tr_engine := e'\<rparr>" "kix_upsert crc c slot r (tr_engine t) = (out, e')" "out \<noteq> Returned (Inr ())"
    by (cases rule: client_call_cases) auto
  show "target_ok crc t' H X" unfolding e'(1) by (rule upsert_failed [OF ok e'(2,3)])
  have "shards_ok (tr_engine t)" using ok by (simp add: target_ok_def parts_ok_def engine_inv_def)
  from kix_upsert_shape [OF this e'(2)] e'(3) have ix: "engine_index e' = engine_index (tr_engine t)"
    by (auto intro: engine_index_cong)
  then show "engine_index (tr_engine t') = engine_index (tr_engine t)" by (simp add: e')
  show "contents t' = contents t" using ix by (auto simp: fun_eq_iff e'(1) intro!: contents_cong)
qed (use run in \<open>auto elim: client_call_cases\<close>)

lemma retire_none:
  assumes "only c (slot_owner t slot)" "map_option (\<lambda>owner. (po_chunk_id owner, po_record owner)) (rv_current rv) = slot_owner t slot"
  shows "retire_superseded crc c rv = st_ret ()"
  using assms(1) unfolding assms(2) [symmetric] by (cases "rv_current rv") (auto simp: retire_superseded_def only_def)

lemma publish_reserved_cases:
  assumes ok: "target_ok crc t H X" and h: "H slot = Reserved (rv_lane rv)" "\<And>s r. H s \<noteq> Published c r" and c: "chunk_id_ok c" and cb: "comes_back c gen t"
    and on: "only c (slot_owner t slot)" and rv: "map_option (\<lambda>owner. (po_chunk_id owner, po_record owner)) (rv_current rv) = slot_owner t slot"
    and run: "publish_reserved crc c slot gen ident body rv t = (res, t')"
  obtains (published) r where "res = Inr r" "target_ok crc t' (H(slot := Published c r)) (if superseded t c gen then X else X - {c})"
      "contents t' = spec_put c gen body (contents t)" "generation r = gen"
  | (fails) e where "res = Inl e" "target_ok crc t' H X" "contents t' = contents t"
proof -
  obtain w t1 where w: "write_lane crc slot (rv_lane rv) c gen ident body t = (w, t1)" by fastforce
  note wc = write_lane_contents [OF ok h(1) c w] and ws = write_lane_step [OF ok h(1) c w]
  show thesis
  proof (cases w)
    case (Inl e)
    then have "res = Inl (map_media_error e)" "t' = t1" using run w by (simp_all add: publish_reserved_def st_bind_def st_map_err_def)
    then show thesis using fails ws(2) wc(1) by simp
  next
    case r: (Inr r)
    note w3 = ws(3) [OF r]
    obtain b t2 where b: "on_media handle_fdatasync t1 = (b, t2)" by fastforce
    note bc = barrier_contents [OF ws(2) b] and same = wc(2-4)
    have H2: "target_ok crc t2 H X" by (rule barrier_step(2) [OF ws(2) b])
    show thesis
    proof (cases b)
      case (Inl e)
      then have "res = Inl (map_media_error e)" "t' = t2" using run w r b by (simp_all add: publish_reserved_def st_bind_def st_map_err_def)
      then show thesis using fails H2 wc(1) bc(1) by simp
    next
      case (Inr u)
      have L2: "target_ok crc t2 (H(slot := Loaded c r)) X" 
        using flushed_step [OF barrier_step(2) [OF conjunct1 [OF w3] b] barrier_step(3) [OF conjunct1 [OF w3] b Inr], of slot c r] by simp
      obtain k t3 where k: "client_call (kix_upsert crc c slot r) t2 = (k, t3)" by fastforce
      show thesis
      proof (cases k)
        case (Inl e)
        then have "res = Inl e" "t' = t3" using run w r b Inr k by (simp_all add: publish_reserved_def st_bind_def st_map_err_def)
        then show thesis using fails publish_failed [OF H2 c k [unfolded Inl]] bc(1) wc(1) by simp
      next
        case k': (Inr v)
        have res: "res = Inr r" "t' = t3" using run w r b Inr k k' retire_none [OF on rv]
          by (simp_all add: publish_reserved_def st_bind_def st_map_err_def)
        have "comes_back c (generation r) t2" using cb w3 bc(3-5) same by (simp add: comes_back_def router_drive_def)
        then have rj: "rejoins generation c (generation r) (target_view t2 (H(slot := Loaded c r)) X)" by (rule comes_back_rejoins) (simp add: h)
        have pre: "(H(slot := Loaded c r)) slot = Loaded c r" "only c (slot_owner t2 slot)" "rejoins generation c (generation r) (target_view t2 (H(slot := Loaded c r)) X)"
            "drive_id r = router_drive t2" "record_lane (handle_layout (tr_media t2)) r = Some (unat slot, unat (rv_lane rv))"
          using h on w3 bc(3-5) same rj by (simp_all add: router_drive_def)
        have "stored_bytes t2 r = body" using bc(2) write_lane_stored [OF ok h(1) c w [unfolded r]] by simp
        moreover have "superseded t2 c = superseded t c" using bc(1) wc(1) by (simp add: superseded_def fun_eq_iff)
        moreover have "client_call (kix_upsert crc c slot r) t2 = (Inr (), t3)" using k k' by simp
        note pc = publish_contents [OF L2 pre c this]
        have "(H(slot := Loaded c r))(slot := Published c r) = H(slot := Published c r)" by (rule fun_upd_upd)
        note pc' = pc(1) [unfolded this]
        ultimately show thesis using published [of r] pc' pc(2) res w3 wc(1) bc(1) by simp
      qed
    qed
  qed
qed

lemma modify_contents [simp]: "contents (modify_slot slot f t) = contents t" "contents (t\<lparr>tr_allocator := a\<rparr>) = contents t"
  by (auto simp: contents_def fun_eq_iff)

lemma rest_upd [simp]: "at_rest(slot := Idle) = at_rest" "(\<lambda>s. if s = slot then h else Idle)(slot := k) = at_rest(slot := k)"
  by (simp_all add: fun_eq_iff)

lemma roll_back:
  assumes "target_ok crc t (at_rest(slot := Reserved lane)) X"
  shows "serving_ok crc (modify_slot slot rollback t) X"
  using rollback_slot_step [OF assms, of slot lane _ _ rollback] by simp

lemma write_to_slot_cases:
  assumes ok: "serving_ok crc t X" and c: "chunk_id_ok c" and cb: "comes_back c gen t"
    and run: "write_chunk_to_slot crc c slot gen ident body t = (res, t')"
  obtains (stored) resp where "res = Inr resp" "sr_status resp = 201" "serving_ok crc t' (if superseded t c gen then X else X - {c})"
      "contents t' = spec_put c gen body (contents t)" "only c (slot_owner t slot)"
  | (refused) e where "res = Inl (Refused e)" "serving_ok crc t' X" "contents t' = contents t"
  | (waits) "res = Inl Waiting" "contents t' = contents t"
proof -
  obtain rs t1 where rs: "reserve_lane c slot t = (rs, t1)" by fastforce
  show thesis
  proof (cases rs)
    case (Inl e)
    then have "t' = t" "\<exists>x. res = Inl (Refused x)" using reserve_lane_cases [OF ok rs] run rs
      by (cases e; auto simp: write_chunk_to_slot_def st_bind_run)+
    then show thesis using refused ok by auto
  next
    case (Inr rv)
    note s = reserve_lane_step [OF ok rs [unfolded Inr]]
    have c1: "contents t1 = contents t" using s(2-4) by (auto simp: fun_eq_iff intro!: contents_cong)
    show thesis
    proof (cases "owner_conflict c rv \<or> inverse_conflict c slot t1")
      case True
      then have "res = Inl (service_error CONFLICT False)" "t' = modify_slot slot rollback t1"
        using run rs Inr by (simp_all add: write_chunk_to_slot_def st_bind_run)
      then show thesis using refused roll_back [OF s(1)] c1 by (auto simp: service_error_def)
    next
      case False
      then have on: "only c (slot_owner t1 slot)" using s(5,6) by simp
      have cb1: "comes_back c gen t1" using cb s(2,5) by (simp add: comes_back_def)
      have su: "superseded t1 c gen = superseded t c gen" by (simp add: superseded_def c1)
      obtain p t2 where p: "publish_reserved crc c slot gen ident body rv t1 = (p, t2)" by fastforce
      have h: "(at_rest(slot := Reserved (rv_lane rv))) slot = Reserved (rv_lane rv)" "\<And>s r. (at_rest(slot := Reserved (rv_lane rv))) s \<noteq> Published c r" by auto
      have rv: "map_option (\<lambda>owner. (po_chunk_id owner, po_record owner)) (rv_current rv) = slot_owner t1 slot" using s(5,8) by simp
      from s(1) h c cb1 on rv p show thesis
      proof (cases rule: publish_reserved_cases)
        case (published r)
        let ?t = "modify_slot slot (commit \<lparr>po_chunk_id = c, po_record = r\<rparr>) t2"
        have "serving_ok crc ?t (if superseded t c gen then X else X - {c})"
          using commit_slot_step(1) [OF published(2), of slot c r] su by (cases "superseded t c gen") simp_all
        moreover have "t' = ?t" "\<exists>d. res = Inr (with_location_headers_and_accounted_bytes 201 d (ucast (stored_length r)))"
          using run rs Inr False p published(1) by (auto simp: write_chunk_to_slot_def st_bind_run)
        ultimately show thesis using stored published(3) c1 on s(5)
          by (auto simp: with_location_headers_and_accounted_bytes_def)
      next
        case (fails e)
        show thesis
        proof (cases e)
          case Waiting
          then show thesis using waits run rs Inr False p fails c1 by (simp add: write_chunk_to_slot_def st_bind_run)
        next
          case (Refused x)
          then have "res = Inl (Refused x)" "t' = modify_slot slot rollback t2"
            using run rs Inr False p fails(1) by (simp_all add: write_chunk_to_slot_def st_bind_run)
          then show thesis using refused roll_back [OF fails(2)] c1 fails(3) on s(5) by auto
        qed
      qed
    qed
  qed
qed

lemma target_allocator: "target_ok crc (t\<lparr>tr_allocator := a\<rparr>) H X = target_ok crc t H X"
  by (simp add: target_ok_def parts_ok_def target_view_def)

text \<open>A granule that the target chooses has no owner.\<close>

lemma idle_slot:
  assumes "target_ok crc t H X" "H slot = Idle"
  shows "lookup_granule_chunk (router_drive t) slot (tr_engine t) = map_option (\<lambda>(c, r). (c, generation r)) (slot_owner t slot)"
    "engine_index (tr_engine t) c = Some r \<Longrightarrow> fst (record_home (handle_layout (tr_media t)) r) = slot \<Longrightarrow> slot_owner t slot = Some (c, r)"
proof -
  have "slot_inv (record_home (handle_layout (tr_media t))) generation (copy_of crc (handle_layout (tr_media t))) (target_view t H X) slot"
    using assms(1) by (simp add: target_ok_def pub_inv_def)
  then show "lookup_granule_chunk (router_drive t) slot (tr_engine t) = map_option (\<lambda>(c, r). (c, generation r)) (slot_owner t slot)"
    "engine_index (tr_engine t) c = Some r \<Longrightarrow> fst (record_home (handle_layout (tr_media t)) r) = slot \<Longrightarrow> slot_owner t slot = Some (c, r)"
    using assms(2) by (simp_all add: slot_inv_def target_view_def owned_def mirrored_def)
qed

text \<open>What a write request may do to a target at rest.\<close>

definition write_effect :: "(u8 list \<Rightarrow> u32) \<Rightarrow> ChunkId \<Rightarrow> u32 \<Rightarrow> u8 list \<Rightarrow> TargetRouter \<Rightarrow> ChunkId set \<Rightarrow> fault + ServiceResponse \<Rightarrow> TargetRouter \<Rightarrow> bool" where
  "write_effect crc c gen body t X res t' \<longleftrightarrow>
     (case res of
        Inr resp \<Rightarrow> sr_status resp = 201 \<and> contents t' = spec_put c gen body (contents t)
          \<and> serving_ok crc t' (if superseded t c gen then X else X - {c})
      | Inl (Refused e) \<Rightarrow> contents t' = contents t \<and> serving_ok crc t' X
      | Inl Waiting \<Rightarrow> contents t' = contents t)"

lemma write_to_slot_effect:
  assumes "serving_ok crc t X" "chunk_id_ok c" "comes_back c gen t" "write_chunk_to_slot crc c slot gen ident body t = (res, t')"
  shows "write_effect crc c gen body t X res t'"
  using assms by (cases rule: write_to_slot_cases) (simp_all add: write_effect_def)

lemma write_payload_effect:
  assumes ok: "serving_ok crc t X" and c: "chunk_id_ok c" and cb: "comes_back c gen t"
    and run: "write_chunk_with_payload crc c slot gen ident body t = (res, t')"
  shows "write_effect crc c gen body t X res t'"
proof (cases "slot = GRANULE_ALLOCATE")
  case True
  obtain g a where g: "allocate_granule t = (g, t\<lparr>tr_allocator := a\<rparr>)"
    by (cases "allocate (\<lambda>slot. lookup_granule_chunk (router_drive t) slot (tr_engine t) \<noteq> None) (tr_allocator t)") (simp add: allocate_granule_def)
  show ?thesis
  proof (cases g)
    case None
    then show ?thesis using run True g ok by (auto simp: write_chunk_with_payload_def write_effect_def service_error_def target_allocator)
  next
    case (Some chosen)
    obtain w t1 where w: "write_chunk_to_slot crc c chosen gen ident body (t\<lparr>tr_allocator := a\<rparr>) = (w, t1)" by fastforce
    have "write_effect crc c gen body (t\<lparr>tr_allocator := a\<rparr>) X w t1"
      using ok c cb w by (intro write_to_slot_effect) (auto simp: target_allocator comes_back_def)
    moreover have "superseded (t\<lparr>tr_allocator := a\<rparr>) = superseded t" by (simp add: fun_eq_iff superseded_def)
    ultimately have e: "write_effect crc c gen body t X w t1" unfolding write_effect_def modify_contents by (simp only:)
    show ?thesis
    proof (cases "w = Inl Waiting")
      case True
      then have "res = w" "t' = t1" using run g Some w \<open>slot = GRANULE_ALLOCATE\<close> by (simp_all add: write_chunk_with_payload_def)
      then show ?thesis using e by simp
    next
      case False
      then have "(res, t') = (w, release_granules [chosen] t1)"
        using run g Some w \<open>slot = GRANULE_ALLOCATE\<close> by (cases w; cases "projl w") (simp_all add: write_chunk_with_payload_def)
      then have "res = w" and t': "t' = t1\<lparr>tr_allocator := fold release [chosen] (tr_allocator t1)\<rparr>" by (simp_all add: release_granules_def)
      then show ?thesis using e unfolding write_effect_def t' modify_contents target_allocator by (simp only:)
    qed
  qed
next
  case False
  then show ?thesis using assms by (intro write_to_slot_effect [OF ok c cb]) (simp add: write_chunk_with_payload_def)
qed

section \<open>Deletes\<close>

text \<open>Only the chunks in the index count among the spoiled ones.\<close>

lemma spoiled_more:
  assumes "target_ok crc t H X" "\<And>c r. engine_index (tr_engine t) c = Some r \<Longrightarrow> c \<in> X \<Longrightarrow> c \<in> Y"
  shows "target_ok crc t H Y"
proof -
  let ?home = "record_home (handle_layout (tr_media t))" and ?holds = "copy_of crc (handle_layout (tr_media t))" and ?p = "target_view t H X"
  have v: "target_view t H Y = ?p\<lparr>pu_spoiled := Y\<rparr>" by (simp add: target_view_def)
  have inv: "pub_inv ?home generation ?holds ?p" using assms(1) by (simp add: target_ok_def)
  have "stored ?home ?holds (?p\<lparr>pu_spoiled := Y\<rparr>)"
    unfolding stored_def
  proof (intro allI impI)
    fix c' r
    assume a: "pu_index (?p\<lparr>pu_spoiled := Y\<rparr>) c' = Some r" "c' \<notin> pu_spoiled (?p\<lparr>pu_spoiled := Y\<rparr>)"
    then have "c' \<notin> X" using assms(2) by (auto simp: target_view_def)
    then show "?holds (pu_media (?p\<lparr>pu_spoiled := Y\<rparr>) (?home r)) c' r \<and> pu_durable (?p\<lparr>pu_spoiled := Y\<rparr>) (?home r) = pu_media (?p\<lparr>pu_spoiled := Y\<rparr>) (?home r)"
      using inv a(1) by (simp add: pub_inv_def stored_def)
  qed
  then have "pub_inv ?home generation ?holds (?p\<lparr>pu_spoiled := Y\<rparr>)"
    using inv by (simp add: pub_inv_def slot_inv_def up_to_date_def)
  then show ?thesis using assms(1) v by (simp add: target_ok_def)
qed

lemma tombstone_contents:
  assumes ok: "target_ok crc t H X" and h: "H slot = Deleting c r" and c: "chunk_id_ok c" and p: "record_lane (handle_layout (tr_media t)) r = Some p"
    and run: "on_media (handle_write_tombstone crc (tr_media t) c r g) t = (res, t')" and other: "c' \<noteq> c"
  shows "contents t' c' = contents t c'"
proof -
  from tombstone_step(1) [OF ok h c p run] obtain d' where t': "t' = t\<lparr>tr_device := d'\<rparr>"
    and k: "\<And>q. is_lane (handle_layout (tr_media t)) (lane_nat q) \<Longrightarrow> lane_nat q \<noteq> p \<Longrightarrow> lane_kept (tr_media t) (tr_device t) d' (lane_nat q)" by blast
  show ?thesis
  proof (cases "engine_index (tr_engine t) c'")
    case (Some r')
    have "record_home (handle_layout (tr_media t)) r' \<noteq> record_home (handle_layout (tr_media t)) r"
      using deleting_free [of "record_home (handle_layout (tr_media t))" generation "copy_of crc (handle_layout (tr_media t))" "target_view t H X" slot c r c' r']
        ok h Some other by (simp add: target_ok_def target_view_def)
    then have "lane_nat (record_home (handle_layout (tr_media t)) r') \<noteq> p" 
      using record_lane_home [OF p] lane_nat_inj [of "record_home (handle_layout (tr_media t)) r'" "record_home (handle_layout (tr_media t)) r"] by auto
    then have "stored_bytes t' r' = stored_bytes t r'"
      unfolding t' by (intro stored_bytes_kept k index_lane(2) [OF ok Some])
    then show ?thesis by (simp add: contents_def Some t')
  qed (simp add: contents_def t')
qed

text \<open>The tombstone and the removal from the index, on a slot that the delete has claimed.\<close>

lemma tombstone_and_retire_cases:
  assumes ok: "target_ok crc t H X" and h: "H slot = Deleting c r" and c: "chunk_id_ok c" and p: "record_lane (handle_layout (tr_media t)) r = Some p"
    and run: "tombstone_and_retire crc c r g t = (res, t')"
  obtains (retired) "res = Inr ()" "target_ok crc t' (H(slot := Retired c)) (insert c X)" "contents t' = (contents t)(c := None)"
      "engine_index (tr_engine t') c = None" "slot_owner t' = slot_owner t" "tr_media t' = tr_media t"
  | (fails) e where "res = Inl e" "target_ok crc t' H (insert c X)" "\<And>c'. c' \<noteq> c \<Longrightarrow> contents t' c' = contents t c'"
      "engine_index (tr_engine t') = engine_index (tr_engine t)"
proof -
  obtain w t1 where w: "on_media (handle_write_tombstone crc (tr_media t) c r g) t = (w, t1)" by fastforce
  note ts = tombstone_step [OF ok h c p w] and tc = tombstone_contents [OF ok h c p w]
  have same: "tr_engine t1 = tr_engine t" "tr_media t1 = tr_media t" "slot_owner t1 = slot_owner t" using ts(1) by auto
  have "H(slot := Deleting c r) = H" using h by (simp add: fun_upd_idem)
  then have H1: "target_ok crc t1 H (insert c X)" using ts(2) [of "Deleting c r"] by simp
  show thesis
  proof (cases w)
    case (Inl e)
    then have "res = Inl (map_media_error e)" "t' = t1" using run w by (simp_all add: tombstone_and_retire_def st_bind_def st_map_err_def)
    then show thesis using fails H1 tc same by simp
  next
    case (Inr u)
    have run': "client_call (kix_delete crc c) t1 = (res, t')" using run w Inr by (simp add: tombstone_and_retire_def st_bind_def st_map_err_def)
    have T1: "target_ok crc t1 (H(slot := Tombstoned c)) (insert c X)" using ts(2) [of "Tombstoned c"] by simp
    from run' show thesis
    proof (cases rule: client_call_cases)
      case (1 e')
      have "(H(slot := Tombstoned c)) slot = Tombstoned c" by simp
      note d = delete_retired [OF T1 this 1(2)]
      have "contents t' = (contents t)(c := None)" 
        using tc d(2) by (simp add: fun_eq_iff 1(1) engine_contents) (simp add: contents_def)
      moreover have "target_ok crc t' (H(slot := Retired c)) (insert c X)" using d(1) unfolding 1(1) fun_upd_upd .
      ultimately show thesis using retired d(2) same 1(3) by (simp add: 1(1))
    next
      case (2 e' out e)
      have sh: "shards_ok (tr_engine t1)" using H1 by (simp add: target_ok_def parts_ok_def engine_inv_def)
      have "engine_index e' = engine_index (tr_engine t1)" using kix_delete_shape [OF sh 2(2)] 2(3) by (auto intro: engine_index_cong)
      then show thesis using fails [OF 2(4)] delete_failed [OF H1 2(2,3)] tc same by (simp add: 2(1) contents_def)
    qed
  qed
qed

lemma delete_check_cases:
  assumes ok: "serving_ok crc t X" and run: "delete_check c expected t = (res, t')"
  obtains (absent) "res = Inr None" "t' = t" "contents t c = None \<or> (\<exists>g v. expected = Some g \<and> contents t c = Some v \<and> fst v \<noteq> g)"
  | (found) r g slot where "res = Inr (Some (r, g, slot))" "t' = t" "engine_index (tr_engine t) c = Some r" "g = generation r + 1"
      "slot = fst (record_home (handle_layout (tr_media t)) r)" "expected = None \<or> expected = Some (generation r)"
  | (refused) "res = Inl (service_error PRECONDITION_FAILED True)" "t' = t"
proof (cases "engine_index (tr_engine t) c")
  case None
  then have "res = Inr None" "t' = t" using run kix_lookup_run [OF ok, of c] by (simp_all add: delete_check_def delete_fence_def st_bind_run)
  then show thesis using absent None by (simp add: contents_def)
next
  case (Some r)
  let ?slot = "fst (record_home (handle_layout (tr_media t)) r)"
  have rl: "record_lane (handle_layout (tr_media t)) r = Some (lane_nat (record_home (handle_layout (tr_media t)) r))" by (rule index_lane(1) [OF ok Some])
  note s = slot_index_home(2) [OF rl]
  have inv: "lookup_granule_chunk (router_drive t) ?slot (tr_engine t) = Some (c, generation r)"
    using idle_slot(1) [OF ok, of ?slot] idle_slot(2) [OF ok _ Some refl] by simp
  show thesis
  proof (cases "checked_add (generation r) 1")
    case None
    then show thesis using run Some kix_lookup_run [OF ok, of c] refused by (simp add: delete_check_def delete_fence_def st_bind_run ok_or_def service_error_def)
  next
    case g: (Some g)
    then have "g = generation r + 1" by (auto simp: checked_add_def split: if_splits)
    moreover have "(res, t') = (if expected = None \<or> expected = Some (generation r) then (Inr (Some (r, g, ?slot)), t) else (Inr None, t))"
      using run Some kix_lookup_run [OF ok, of c] g s inv by (auto simp: delete_check_def delete_fence_def st_bind_run ok_or_def split: option.splits if_splits)
    moreover have "contents t c = Some (generation r, stored_bytes t r)" using Some by (simp add: contents_def)
    ultimately show thesis using found [of r g ?slot] absent Some
      by (cases expected; cases "the expected = generation r") auto
  qed
qed

lemma begin_delete_step:
  assumes ok: "serving_ok crc t X" and ix: "engine_index (tr_engine t) c = Some r" and s: "slot = fst (record_home (handle_layout (tr_media t)) r)"
  shows "slot_publication slot t = (Inr (), t)"
    "on_slot slot begin_delete t = (Inr (Some \<lparr>po_chunk_id = c, po_record = r\<rparr>), modify_slot slot (\<lambda>s. s\<lparr>sp_busy := True\<rparr>) t)"
    "target_ok crc (modify_slot slot (\<lambda>s. s\<lparr>sp_busy := True\<rparr>) t) (at_rest(slot := Deleting c r)) X"
proof -
  have o: "slot_owner t slot = Some (c, r)" using idle_slot(2) [OF ok _ ix] s by simp
  then have len: "unat slot < length (tr_slots t)" by (auto simp: slot_owner_def split: if_splits)
  then show "slot_publication slot t = (Inr (), t)" by (simp add: slot_publication_def)
  have cur: "sp_current (tr_slots t ! unat slot) = Some \<lparr>po_chunk_id = c, po_record = r\<rparr>" using o owner_option [OF len] by auto
  obtain res t1 where b: "on_slot slot begin_delete t = (res, t1)" by fastforce
  show "on_slot slot begin_delete t = (Inr (Some \<lparr>po_chunk_id = c, po_record = r\<rparr>), modify_slot slot (\<lambda>s. s\<lparr>sp_busy := True\<rparr>) t)"
    using begin_delete_cases [OF ok b len] b cur by simp
  show "target_ok crc (modify_slot slot (\<lambda>s. s\<lparr>sp_busy := True\<rparr>) t) (at_rest(slot := Deleting c r)) X"
    by (rule claim_step [OF ok len _ s [symmetric]]) (simp_all add: o only_def)
qed

lemma clear_contents [simp]: "contents (t\<lparr>tr_engine := clear_granule_inverse d slot (tr_engine t)\<rparr>) = contents t"
  using engine_index_cong [of "clear_granule_inverse d slot (tr_engine t)" "tr_engine t"] by (simp add: fun_eq_iff engine_contents) (simp add: contents_def)

lemma delete_free_cases:
  assumes ok: "serving_ok crc t X" and ix: "engine_index (tr_engine t) c = Some r" and s: "slot = fst (record_home (handle_layout (tr_media t)) r)"
    and run: "delete_free crc c r g slot t = (res, t')"
  obtains (deleted) "res = Inr (response_json 200 (DeleteChunkDocument True g))" "serving_ok crc t' (X - {c})" "contents t' = (contents t)(c := None)"
      "slot_owner t' = (slot_owner t)(slot := None)"
  | (fails) e where "res = Inl e" "\<And>c'. c' \<noteq> c \<Longrightarrow> contents t' c' = contents t c'" "engine_index (tr_engine t') = engine_index (tr_engine t)"
      "e \<noteq> Waiting \<Longrightarrow> serving_ok crc t' (insert c X)"
proof -
  let ?b = "modify_slot slot (\<lambda>s. s\<lparr>sp_busy := True\<rparr>) t" and ?H = "at_rest(slot := Deleting c r)"
  note b = begin_delete_step [OF ok ix s]
  have o: "slot_owner t slot = Some (c, r)" using idle_slot(2) [OF ok _ ix] s by simp
  then have len: "unat slot < length (tr_slots t)" by (auto simp: slot_owner_def split: if_splits)
  have h: "?H slot = Deleting c r" by simp
  have c: "chunk_id_ok c" by (rule index_lane(4) [OF ok ix])
  have rl: "record_lane (handle_layout (tr_media ?b)) r = Some (lane_nat (record_home (handle_layout (tr_media t)) r))" using index_lane(1) [OF ok ix] by simp
  obtain w t1 where w: "tombstone_and_retire crc c r g ?b = (w, t1)" by fastforce
  from b(3) h c rl w show thesis
  proof (cases rule: tombstone_and_retire_cases)
    case retired
    let ?t = "t1\<lparr>tr_engine := clear_granule_inverse (router_drive t1) slot (tr_engine t1)\<rparr>"
    have t': "res = Inr (response_json 200 (DeleteChunkDocument True g))" "t' = modify_slot slot (finish_delete True) ?t"
      using run b(1,2) w retired(1) by (simp_all add: delete_free_def st_bind_run)
    have C: "target_ok crc ?t (at_rest(slot := Cleared c)) (insert c X)"
      using clear_slot_step [OF retired(2), of slot c] by simp
    have "serving_ok crc t' (insert c X)" using free_slot_step [OF C, of slot c] t'(2) by simp
    then have "serving_ok crc t' (X - {c})"
      by (rule spoiled_more) (use retired(4) engine_index_cong [of "clear_granule_inverse (router_drive t1) slot (tr_engine t1)" "tr_engine t1"] t'(2) in auto)
    moreover have "contents t' = (contents t)(c := None)" using retired(3) t'(2) by simp
    moreover have "slot_owner t' = (slot_owner t)(slot := None)"
    proof -
      have "unat slot < length (tr_slots ?t)" using held_slot [of crc ?t "at_rest(slot := Cleared c)" slot] C by (simp add: target_ok_def)
      from slot_owner_modify [OF this, of "finish_delete True"] show ?thesis
        using retired(5) t'(2) len same_owner [OF len, of "\<lambda>s. s\<lparr>sp_busy := True\<rparr>"] by (simp add: finish_delete_def slot_owner_modify)
    qed
    ultimately show thesis using deleted t'(1) by blast
  next
    case (fails e)
    show thesis
    proof (cases e)
      case Waiting
      then have "res = Inl e" "t' = t1" using run b(1,2) w fails(1) by (simp_all add: delete_free_def st_bind_run)
      then show thesis using that(2) [of e] fails Waiting by simp
    next
      case (Refused x)
      then have "res = Inl e" "t' = modify_slot slot (finish_delete False) t1" using run b(1,2) w fails(1) by (simp_all add: delete_free_def st_bind_run)
      then show thesis using that(2) [of e] fails rollback_slot_step [OF fails(2), of slot _ c r "finish_delete False"] by simp
    qed
  qed
qed

text \<open>What a delete request may do to a target at rest.\<close>

definition delete_effect :: "(u8 list \<Rightarrow> u32) \<Rightarrow> ChunkId \<Rightarrow> u32 option \<Rightarrow> TargetRouter \<Rightarrow> ChunkId set \<Rightarrow> fault + ServiceResponse \<Rightarrow> TargetRouter \<Rightarrow> bool" where
  "delete_effect crc c expected t X res t' \<longleftrightarrow>
     (case res of
        Inr resp \<Rightarrow>
          (\<exists>g v. resp = response_json 200 (DeleteChunkDocument True (g + 1)) \<and> contents t c = Some (g, v) \<and> (expected = None \<or> expected = Some g)
             \<and> contents t' = (contents t)(c := None) \<and> serving_ok crc t' (X - {c}))
          \<or> (resp = not_deleted \<and> t' = t \<and> (contents t c = None \<or> (\<exists>g v. expected = Some g \<and> contents t c = Some v \<and> fst v \<noteq> g)))
      | Inl e \<Rightarrow> (\<forall>c'. c' \<noteq> c \<longrightarrow> contents t' c' = contents t c') \<and> map_option fst (contents t' c) = map_option fst (contents t c)
          \<and> (e \<noteq> Waiting \<longrightarrow> serving_ok crc t' (insert c X)))"

lemma delete_chunk_effect:
  assumes ok: "serving_ok crc t X" and run: "delete_chunk crc c expected t = (res, t')"
  shows "delete_effect crc c expected t X res t'"
proof -
  obtain k t1 where k: "delete_check c expected t = (k, t1)" by fastforce
  from ok k show ?thesis
  proof (cases rule: delete_check_cases)
    case absent
    then have "res = Inr not_deleted" "t' = t" using run k by (simp_all add: delete_chunk_def st_bind_run)
    then show ?thesis using absent(3) by (auto simp: delete_effect_def)
  next
    case refused
    then have "res = Inl (service_error PRECONDITION_FAILED True)" "t' = t" using run k by (simp_all add: delete_chunk_def st_bind_run)
    moreover have "serving_ok crc t (insert c X)" using ok by (rule spoiled_more) simp
    ultimately show ?thesis by (simp add: delete_effect_def)
  next
    case (found r g slot)
    have run': "delete_free crc c r g slot t = (res, t')" using run k found(1,2) by (simp add: delete_chunk_def st_bind_run)
    have ct: "contents t c = Some (generation r, stored_bytes t r)" using found(3) by (simp add: contents_def)
    from ok found(3,5) run' show ?thesis
    proof (cases rule: delete_free_cases)
      case deleted
      then show ?thesis using ct found(4,6) by (auto simp: delete_effect_def)
    next
      case (fails e)
      then show ?thesis using ct found(3) by (simp add: delete_effect_def contents_def)
    qed
  qed
qed

section \<open>Reads\<close>

text \<open>A chunk whose delete has not begun is on the media, at its record.\<close>

lemma chunk_on_media:
  assumes ok: "target_ok crc t H X" and ix: "engine_index (tr_engine t) c = Some r" and x: "c \<notin> X"
  shows "\<exists>ident. lane_at crc (cfg_span (h_config (tr_media t))) (handle_layout (tr_media t)) (dev_bytes (tr_device t))
      (lane_nat (record_home (handle_layout (tr_media t)) r)) = LaneHolds (live_header c r ident)"
    "lane_bytes (cfg_span (h_config (tr_media t))) (handle_layout (tr_media t)) (dev_durable (tr_device t)) (lane_nat (record_home (handle_layout (tr_media t)) r))
     = lane_bytes (cfg_span (h_config (tr_media t))) (handle_layout (tr_media t)) (dev_bytes (tr_device t)) (lane_nat (record_home (handle_layout (tr_media t)) r))"
proof -
  let ?q = "record_home (handle_layout (tr_media t)) r"
  have "stored (record_home (handle_layout (tr_media t))) (copy_of crc (handle_layout (tr_media t))) (target_view t H X)"
    using ok by (simp add: target_ok_def pub_inv_def)
  then have "copy_of crc (handle_layout (tr_media t)) (lane_content (tr_media t) (dev_bytes (tr_device t)) ?q) c r"
    "lane_content (tr_media t) (dev_durable (tr_device t)) ?q = lane_content (tr_media t) (dev_bytes (tr_device t)) ?q"
    using ix x by (simp_all add: stored_def target_view_def)
  then show "\<exists>ident. lane_at crc (cfg_span (h_config (tr_media t))) (handle_layout (tr_media t)) (dev_bytes (tr_device t)) (lane_nat ?q) = LaneHolds (live_header c r ident)"
    "lane_bytes (cfg_span (h_config (tr_media t))) (handle_layout (tr_media t)) (dev_durable (tr_device t)) (lane_nat ?q)
     = lane_bytes (cfg_span (h_config (tr_media t))) (handle_layout (tr_media t)) (dev_bytes (tr_device t)) (lane_nat ?q)"
    using index_lane(2) [OF ok ix] by (auto simp: copy_of_def lane_content_def lane_at_def)
qed

lemma target_media_on: "target_ok crc t H X \<Longrightarrow> media_on (cfg_span (h_config (tr_media t))) (handle_layout (tr_media t)) (tr_device t)"
  by (simp add: target_ok_def parts_ok_def media_up_def media_ready_def handle_layout_def)

text \<open>The media hold what the index says, so the loop needs one turn.\<close>

lemma read_access:
  assumes ok: "target_ok crc t H X" and ix: "engine_index (tr_engine t) c = Some r" and x: "c \<notin> X"
    and run: "on_media (handle_read_payload crc (tr_media t) c r) t = (res, t')"
  shows "\<exists>d'. t' = t\<lparr>tr_device := d'\<rparr> \<and> still d' = still (tr_device t)" "res = Inr bs \<Longrightarrow> bs = stored_bytes t r"
    "quiet (tr_device t) \<Longrightarrow> res = Inr (stored_bytes t r) \<and> t' = t"
proof -
  let ?h = "tr_media t" and ?l = "handle_layout (tr_media t)" and ?p = "lane_nat (record_home (handle_layout (tr_media t)) r)"
  from chunk_on_media(1) [OF ok ix x] obtain ident where at: "lane_at crc (cfg_span (h_config ?h)) ?l (dev_bytes (tr_device t)) ?p = LaneHolds (live_header c r ident)" by blast
  note m = target_media_on [OF ok] and il = index_lane [OF ok ix]
  have sb: "lane_payload (cfg_span (h_config ?h)) ?l (dev_bytes (tr_device t)) ?p r = stored_bytes t r"
    using stored_bytes_payload [OF at il(1)] by simp
  have lh: "sh_chunk_id (live_header c r ident) = c" "sh_record (live_header c r ident) = r" "sh_state (live_header c r ident) = Live"
    by (simp_all add: live_header_def)
  obtain d' where d': "handle_read_payload crc ?h c r (tr_device t) = (res, d')" and t': "t' = t\<lparr>tr_device := d'\<rparr>"
    using run by (cases "handle_read_payload crc ?h c r (tr_device t)") (auto simp: on_media_run)
  show "\<exists>d'. t' = t\<lparr>tr_device := d'\<rparr> \<and> still d' = still (tr_device t)" using t' keepsD [OF keeps_media_reads(2) d'] by blast
  show "bs = stored_bytes t r" if "res = Inr bs"
    using read_payload_data [OF m il(2) at lh(3), unfolded lh, of bs d'] d' sb that by (simp add: handle_read_payload_def)
  show "res = Inr (stored_bytes t r) \<and> t' = t" if "quiet (tr_device t)"
    using read_payload_lane [OF m il(2) that at lh(3), unfolded lh] d' sb t' by (simp add: handle_read_payload_def)
qed

definition read_reply :: "TargetRouter \<Rightarrow> ChunkId \<Rightarrow> ServiceResponse" where
  "read_reply t c =
     (case engine_index (tr_engine t) c of
        None \<Rightarrow> response_empty NOT_FOUND
      | Some r \<Rightarrow> response_octets 200 (document_from_record r (fst (record_home (handle_layout (tr_media t)) r))) (snd (the (contents t c))))"

lemma read_found:
  assumes ok: "target_ok crc t H X" and ix: "engine_index (tr_engine t) c = Some r" and x: "c \<notin> X"
    and run: "read_published_payload crc c r t = (res, t')"
  shows "\<exists>d'. t' = t\<lparr>tr_device := d'\<rparr> \<and> still d' = still (tr_device t)"
    "res = Inr (Some (r, stored_bytes t r)) \<or> (\<exists>e. res = Inl (Refused e))"
    "quiet (tr_device t) \<Longrightarrow> res = Inr (Some (r, stored_bytes t r)) \<and> t' = t"
proof -
  obtain a t1 where a: "on_media (handle_read_payload crc (tr_media t) c r) t = (a, t1)" by fastforce
  note ra = read_access [OF ok ix x a]
  from ra(1) obtain d' where t1: "t1 = t\<lparr>tr_device := d'\<rparr>" "still d' = still (tr_device t)" by blast
  have ok1: "target_ok crc t1 H X" unfolding t1(1) by (rule target_still [OF ok t1(2)])
  have range: "[0..<Suc PUBLICATION_RETRY_LIMIT] = 0 # [1..<Suc PUBLICATION_RETRY_LIMIT]" by (simp add: upt_rec)
  have run': "publication_loop (\<lambda>r t. on_media (handle_read_payload crc (tr_media t) c r) t) c (0 # [1..<Suc PUBLICATION_RETRY_LIMIT]) r t = (res, t')"
    using run unfolding read_published_payload_def range .
  have fin: "t' = t1 \<and> (case a of Inr bs \<Rightarrow> res = Inr (Some (r, bs)) | Inl e \<Rightarrow> res = Inl (map_media_error e))"
  proof (cases a)
    case (Inl e)
    have "kix_lookup c t1 = (Inr (Some r), t1)" using kix_lookup_run [OF ok1, of c] ix t1(1) by simp
    moreover have "0 < PUBLICATION_RETRY_LIMIT" by (simp add: PUBLICATION_RETRY_LIMIT_def)
    ultimately show ?thesis
      using run' a Inl by (auto simp: publication_retryable_def st_bind_run simp del: upt_Suc split: if_splits)
  next
    case (Inr bs)
    then show ?thesis using run' a by (simp del: upt_Suc)
  qed
  show "\<exists>d'. t' = t\<lparr>tr_device := d'\<rparr> \<and> still d' = still (tr_device t)" using ra(1) fin by blast
  show "res = Inr (Some (r, stored_bytes t r)) \<or> (\<exists>e. res = Inl (Refused e))"
    using fin ra(2) by (cases a) (simp_all add: map_media_error_def service_error_def)
  show "res = Inr (Some (r, stored_bytes t r)) \<and> t' = t" if "quiet (tr_device t)"
    using fin ra(3) [OF that] by simp
qed

end
