(* ===== verification/Kst_Live.thy ===== *)
theory Kst_Live
  imports Kst_Spec Kix_Acked
begin

text \<open>
  Requests complete: on devices that do what they are asked and an index with room in its log, a write to a
  free granule is acknowledged and a delete removes the chunk. A small target shows that the states the
  properties talk about exist.
\<close>

section \<open>Devices that work and an index with room\<close>

definition log_room :: "nat \<Rightarrow> DriveConfig list \<Rightarrow> (u16 \<Rightarrow> log_frame list) \<Rightarrow> u16 \<Rightarrow> bool" where
  "log_room n cfgs logs d \<longleftrightarrow>
     (\<forall>cfg fs dev. cfg \<in> set cfgs \<and> dc_id cfg = d \<and> length fs \<le> n \<and> (\<forall>f\<in>set fs. log_size f = 8192) \<longrightarrow> log_fits cfg (logs d @ fs) dev)"

definition ready :: "(u8 list \<Rightarrow> u32) \<Rightarrow> DriveConfig list \<Rightarrow> nat \<Rightarrow> TargetRouter \<Rightarrow> bool" where
  "ready crc cfgs n t \<longleftrightarrow> quiet (tr_device t)
     \<and> (\<exists>logs w. engine_holds crc cfgs logs (tr_engine t) \<and> map_of (ke_drives (tr_engine t)) (router_drive t) = Some w
          \<and> quiet (da_file (dw_arena w)) \<and> log_room n cfgs logs (router_drive t))"

lemma log_room_append:
  assumes "log_room (Suc n) cfgs logs d" "log_size f = 8192"
  shows "log_room n cfgs (logs(d := logs d @ [f])) d"
  unfolding log_room_def
proof (intro allI impI)
  fix cfg fs dev
  assume "cfg \<in> set cfgs \<and> dc_id cfg = d \<and> length fs \<le> n \<and> (\<forall>f\<in>set fs. log_size f = 8192)"
  then show "log_fits cfg ((logs(d := logs d @ [f])) d @ fs) dev"
    using assms unfolding log_room_def by (auto dest: spec [of _ cfg] spec [of _ "f # fs"])
qed

lemma ready_append:
  assumes rd: "ready crc cfgs (Suc n) t" and d: "delta_ok delta" "chunk_id_ok (de_chunk_id delta)" "stays_on (router_drive t) delta (engine_index (tr_engine t))"
  obtains ws where "drives_append_delta crc (router_drive t) delta (ke_drives (tr_engine t)) = (Returned (Inr ()), ws)"
    "\<And>e' :: KixEngine. ke_drives e' = ws \<Longrightarrow> ke_shards e' = apply_to_shards delta (tr_engine t) \<Longrightarrow> ready crc cfgs n (t\<lparr>tr_engine := e'\<rparr>)"
proof -
  let ?d = "router_drive t" and ?e = "tr_engine t"
  obtain logs w where h: "engine_holds crc cfgs logs ?e" and w: "map_of (ke_drives ?e) ?d = Some w" "quiet (da_file (dw_arena w))"
    and room: "log_room (Suc n) cfgs logs ?d" and q: "quiet (tr_device t)"
    using rd unfolding ready_def by blast
  have dh: "drives_hold crc cfgs logs (ke_drives ?e)" using h by (simp add: engine_holds_def)
  obtain cfg where cfg: "cfg \<in> set cfgs" "dc_id cfg = ?d" "drive_ok crc cfg (logs ?d) w" using drives_hold_worker [OF dh w(1)] .
  have sz: "log_size (DeltaFrame [delta]) = 8192" by (rule sample_frame_size [OF d(1)])
  have "log_fits cfg (logs ?d @ [DeltaFrame [delta]]) (da_file (dw_arena w))"
    using room cfg(1,2) sz by (auto simp: log_room_def)
  from worker_append_acks [OF cfg(3) w(2) d(1) this] obtain w' where
    w': "worker_call crc (ReqAppend delta) w = (Returned (Inr ()), w')" "quiet (da_file (dw_arena w'))" by blast
  have a: "drives_append_delta crc ?d delta (ke_drives ?e) = (Returned (Inr ()), AList.update ?d w' (ke_drives ?e))"
    using w(1) w'(1) by (simp add: drives_append_delta_def drive_call_def)
  note ok = drives_append_ok [OF dh d(1) a]
  show thesis
  proof (rule that [OF a])
    fix e' :: KixEngine
    assume e': "ke_drives e' = AList.update ?d w' (ke_drives ?e)" "ke_shards e' = apply_to_shards delta ?e"
    have "engine_holds crc cfgs (logs(?d := logs ?d @ [DeltaFrame [delta]])) e'"
      using engine_holds_delta(1) [OF h d(2) ok(1) d(3) _ e'(2)] ok(2) e'(1) by simp
    moreover have "map_of (ke_drives e') ?d = Some w'" using e'(1) by (simp add: AList.update_conv')
    ultimately show "ready crc cfgs n (t\<lparr>tr_engine := e'\<rparr>)"
      using q w'(2) log_room_append [OF room sz] unfolding ready_def by auto
  qed
qed

text \<open>The frame: \<open>ready\<close> sees the engine, the device and the drive.\<close>

lemma ready_cong:
  assumes "ready crc cfgs n t" "tr_engine t' = tr_engine t" "quiet (tr_device t')" "router_drive t' = router_drive t"
  shows "ready crc cfgs n t'"
  using assms by (simp add: ready_def)

section \<open>A write completes\<close>

text \<open>The granule is free and the chunk is new, or the granule is where the chunk is.\<close>

definition admits :: "TargetRouter \<Rightarrow> ChunkId \<Rightarrow> u64 \<Rightarrow> bool" where
  "admits t c slot \<longleftrightarrow> slot_owner t slot = map_option (Pair c) (engine_index (tr_engine t) c)"

lemma admits_reserve:
  assumes ok: "serving_ok crc t X" and ad: "admits t c slot" and s: "unat slot < length (tr_slots t)"
  obtains lane where "reserve_lane c slot t = (Inr \<lparr>rv_lane = lane, rv_current = sp_current (tr_slots t ! unat slot)\<rparr>, modify_slot slot (\<lambda>s. s\<lparr>sp_busy := True\<rparr>) t)" "lane < 2"
proof -
  let ?l = "handle_layout (tr_media t)" and ?cur = "sp_current (tr_slots t ! unat slot)"
  have idle: "\<not> sp_busy (tr_slots t ! unat slot)" using ok s by (simp add: target_ok_def parts_ok_def)
  have "baseline (tr_media t) slot (engine_index (tr_engine t) c) (map_option po_record ?cur) = engine_index (tr_engine t) c"
    using ad owner_option [OF s] 
    by (cases ?cur; cases "engine_index (tr_engine t) c") (auto simp: admits_def baseline_def)
  moreover have "\<exists>lane. next_publication_lane ?l slot (engine_index (tr_engine t) c) = Inr lane \<and> lane < 2"
  proof (cases "engine_index (tr_engine t) c")
    case (Some r)
    from index_lane(1) [OF ok Some] show ?thesis
      using Some by (auto simp: record_lane_def next_publication_lane_def bind_r_def CHUNK_MEDIA_PUBLICATION_LANES_def word_mod_less_divisor split: sum.splits)
  qed (simp add: next_publication_lane_def)
  ultimately obtain lane where lane: "fresh_publication_lane (tr_media t) slot (baseline (tr_media t) slot (engine_index (tr_engine t) c) (map_option po_record ?cur)) = Inr lane" "lane < 2"
    by (auto simp: fresh_publication_lane_def next_publication_lane_for_slot_def)
  then show thesis
    using that [of lane] idle s kix_lookup_run [OF ok, of c] ok
    by (simp add: reserve_lane_def reserve_with_def st_bind_run slot_publication_def on_slot_def reserve_def modify_slot_def)
qed


lemma quiet_write_lane:
  assumes ok: "target_ok crc t H X" and q: "quiet (tr_device t)" and c: "chunk_id_ok c" and s: "slot < key_slots (handle_layout (tr_media t))" and lane: "lane < 2"
    and b: "body \<noteq> []" "length body \<le> unat (slot_payload (handle_layout (tr_media t)) (unat slot))"
  obtains r d' where "write_lane crc slot lane c gen ident body t = (Inr r, t\<lparr>tr_device := d'\<rparr>)" "quiet d'"
proof -
  have m: "media_ready crc (cfg_span (h_config (tr_media t))) (h_superblock (tr_media t)) (tr_device t)"
    using ok by (simp add: target_ok_def parts_ok_def media_up_def)
  have l: "chosen_lane (sb_layout (h_superblock (tr_media t))) slot (Explicit lane) = Inr lane" using lane by (simp add: chosen_lane_def)
  from publish_write [OF q m c l _ b(1) _ refl refl, of gen ident Deferred] s b(2) obtain r d' where
    "write_payload_to_lane_unsynced crc (tr_media t) slot lane c gen ident body (tr_device t) = (Inr r, d')" "quiet d'"
    by (auto simp: handle_layout_def write_payload_to_lane_unsynced_def)
  then show thesis using that [of r d'] by (simp add: write_lane_def on_media_run)
qed

lemma admits_no_conflict:
  assumes ok: "serving_ok crc t X" and ad: "admits t c slot"
  shows "only c (slot_owner t slot)" "\<not> inverse_conflict c slot t"
proof -
  show "only c (slot_owner t slot)" using ad by (auto simp: admits_def only_def)
  then show "\<not> inverse_conflict c slot t"
    using idle_slot(1) [OF ok, of slot] by (auto simp: inverse_conflict_def only_def split: option.splits)
qed

lemma inverse_conflict_modify [simp]: "inverse_conflict c slot (modify_slot slot' f t) = inverse_conflict c slot t"
  unfolding inverse_conflict_def modify_slot_fields ..

lemma slot_in_range:
  assumes "target_ok crc t H X" "slot < key_slots (handle_layout (tr_media t))"
  shows "unat slot < length (tr_slots t)"
proof -
  have "length (tr_slots t) = unat (max (key_slots (handle_layout (tr_media t))) 1)" using assms(1) by (simp add: target_ok_def parts_ok_def)
  moreover have "unat (key_slots (handle_layout (tr_media t))) \<le> unat (max (key_slots (handle_layout (tr_media t))) 1)"
    by (simp flip: word_le_nat_alt)
  ultimately show ?thesis using assms(2) by (simp add: word_less_nat_alt)
qed

lemma write_completes:
  assumes ok: "serving_ok crc t X" and rd: "ready crc cfgs (Suc n) t" and c: "chunk_id_ok c"
    and s: "slot < key_slots (handle_layout (tr_media t))" and ad: "admits t c slot"
    and b: "body \<noteq> []" "length body \<le> unat (slot_payload (handle_layout (tr_media t)) (unat slot))"
  obtains r t' where "write_chunk_to_slot crc c slot gen ident body t =
      (Inr (with_location_headers_and_accounted_bytes 201 (document_from_record r slot) (ucast (stored_length r))), t')"
    "ready crc cfgs n t'" "tr_media t' = tr_media t" "generation r = gen" "fst (record_home (handle_layout (tr_media t)) r) = slot"
    "engine_index (tr_engine t') c = Some (fenced generation r (engine_index (tr_engine t) c))"
proof -
  have len: "unat slot < length (tr_slots t)" by (rule slot_in_range [OF ok s])
  obtain lane where rv: "reserve_lane c slot t = (Inr \<lparr>rv_lane = lane, rv_current = sp_current (tr_slots t ! unat slot)\<rparr>, modify_slot slot (\<lambda>s. s\<lparr>sp_busy := True\<rparr>) t)" "lane < 2"
    using admits_reserve [OF ok ad len] .
  let ?rv = "\<lparr>rv_lane = lane, rv_current = sp_current (tr_slots t ! unat slot)\<rparr>" and ?t1 = "modify_slot slot (\<lambda>s. s\<lparr>sp_busy := True\<rparr>) t"
  note rs = reserve_lane_step [OF ok rv(1)] and nc = admits_no_conflict [OF ok ad]
  have q: "quiet (tr_device ?t1)" using rd by (simp add: ready_def)
  obtain r d' where w: "write_lane crc slot lane c gen ident body ?t1 = (Inr r, ?t1\<lparr>tr_device := d'\<rparr>)" "quiet d'"
    using quiet_write_lane [OF rs(1) q c _ rv(2) b(1), of slot gen ident] s b(2) by auto
  have f: "on_media handle_fdatasync (?t1\<lparr>tr_device := d'\<rparr>) = (Inr (), ?t1\<lparr>tr_device := snd (handle_fdatasync d')\<rparr>)" "quiet (snd (handle_fdatasync d'))"
    using fdatasync_quiet [OF w(2)] w(2) by (simp_all add: on_media_run handle_fdatasync_def)
  let ?t2 = "?t1\<lparr>tr_device := snd (handle_fdatasync d')\<rparr>"
  have h: "(at_rest(slot := Reserved (rv_lane ?rv))) slot = Reserved lane" by simp
  have w3: "generation r = gen" "drive_id r = router_drive t" "record_home (handle_layout (tr_media t)) r = (slot, lane)"
    using write_lane_step(3) [OF rs(1) h c w(1) refl] by simp_all
  have "drive_id r' = router_drive t" if "engine_index (tr_engine t) c = Some r'" for r' using index_lane(3) [OF ok that] .
  then have st: "stays_on (router_drive ?t2) (delta_upsert c r) (engine_index (tr_engine ?t2))" using w3 by (simp add: stays_on_def)
  have "ready crc cfgs (Suc n) ?t2" by (rule ready_cong [OF rd]) (simp_all add: f(2))
  from ready_append [OF this _ _ st] c obtain ws where ws: "drives_append_delta crc (router_drive t) (delta_upsert c r) (ke_drives (tr_engine t)) = (Returned (Inr ()), ws)"
    "\<And>e' :: KixEngine. ke_drives e' = ws \<Longrightarrow> ke_shards e' = apply_to_shards (delta_upsert c r) (tr_engine t) \<Longrightarrow> ready crc cfgs n (?t2\<lparr>tr_engine := e'\<rparr>)"
    by (auto simp: delta_ok_def)
  have ei: "engine_inv (tr_engine t)" "shards_ok (tr_engine t)" using ok by (simp_all add: target_ok_def parts_ok_def engine_inv_def)
  from kix_upsert_via [OF ei(2), of crc r c ws slot] ws(1) w3 obtain e' where e': "kix_upsert crc c slot r (tr_engine t) = (Returned (Inr ()), e')"
    "ready crc cfgs n (?t2\<lparr>tr_engine := e'\<rparr>)" using ws(2) by auto
  have "publish_reserved crc c slot gen ident body ?rv ?t1 = (Inr r, ?t2\<lparr>tr_engine := e'\<rparr>)"
    using w f e'(1) retire_none [of c ?t1 slot ?rv crc] nc(1) rs(5,8) by (simp add: publish_reserved_def st_bind_run st_map_err_def client_call_def)
  moreover have "\<not> owner_conflict c ?rv" "\<not> inverse_conflict c slot ?t1" using rs(6) nc by simp_all
  ultimately have fin: "write_chunk_to_slot crc c slot gen ident body t =
      (Inr (with_location_headers_and_accounted_bytes 201 (document_from_record r slot) (ucast (stored_length r))),
       modify_slot slot (commit \<lparr>po_chunk_id = c, po_record = r\<rparr>) (?t2\<lparr>tr_engine := e'\<rparr>))"
    using rv(1) by (simp add: write_chunk_to_slot_def st_bind_run)
  have "engine_index e' c = Some (fenced generation r (engine_index (tr_engine t) c))"
    using upsert_inv [OF ei(1) c e'(1)] by (simp add: spec_upsert_fenced)
  then show thesis by (intro that [OF fin]) (use ready_cong [OF e'(2)] f(2) w3 in \<open>simp_all\<close>)
qed


section \<open>A delete completes\<close>

text \<open>The second half of a delete, for any record of the chunk in the slot that it owns.\<close>

lemma delete_free_completes:
  assumes ok: "serving_ok crc t X" and rd: "ready crc cfgs (Suc n) t" and ix: "engine_index (tr_engine t) c = Some r'"
    and o: "slot_owner t slot = Some (c, ro)" and r: "record_lane (handle_layout (tr_media t)) r = Some p" "fst (record_home (handle_layout (tr_media t)) r) = slot"
  obtains t' where "delete_free crc c r g slot t = (Inr (response_json 200 (DeleteChunkDocument True g)), t')"
    "ready crc cfgs n t'" "tr_media t' = tr_media t" "contents t' = (contents t)(c := None)"
proof -
  let ?b = "modify_slot slot (\<lambda>s. s\<lparr>sp_busy := True\<rparr>) t" and ?H = "at_rest(slot := Deleting c r)"
  have len: "unat slot < length (tr_slots t)" using o by (auto simp: slot_owner_def split: if_splits)
  have cur: "sp_current (tr_slots t ! unat slot) = Some \<lparr>po_chunk_id = c, po_record = ro\<rparr>" using o owner_option [OF len] by auto
  have b: "on_slot slot begin_delete t = (Inr (Some \<lparr>po_chunk_id = c, po_record = ro\<rparr>), ?b)"
    using begin_delete_cases [OF ok _ len, of "fst (on_slot slot begin_delete t)" "snd (on_slot slot begin_delete t)"] cur by (auto simp: prod_eq_iff)
  have B: "target_ok crc ?b ?H X" by (rule claim_step [OF ok len _ r(2)]) (simp_all add: o only_def)
  have c: "chunk_id_ok c" by (rule index_lane(4) [OF ok ix])
  have m: "media_ready crc (cfg_span (h_config (tr_media t))) (h_superblock (tr_media t)) (tr_device t)"
    using ok by (simp add: target_ok_def parts_ok_def media_up_def)
  have q: "quiet (tr_device t)" using rd by (simp add: ready_def)
  obtain d' where d': "handle_write_tombstone crc (tr_media t) c r g (tr_device t) = (Inr (), d')" "quiet d'"
    using publish_tombstone [OF q m c r(1) [unfolded handle_layout_def], of g] unfolding handle_write_tombstone_def by blast
  let ?t2 = "?b\<lparr>tr_device := d'\<rparr>"
  have "ready crc cfgs (Suc n) ?t2" by (rule ready_cong [OF rd]) (simp_all add: d'(2))
  moreover have "stays_on (router_drive ?t2) (delta_delete c) (engine_index (tr_engine ?t2))"
    using ix index_lane(3) [OF ok ix] by (simp add: stays_on_def)
  ultimately obtain ws where ws: "drives_append_delta crc (router_drive t) (delta_delete c) (ke_drives (tr_engine t)) = (Returned (Inr ()), ws)"
    "\<And>e' :: KixEngine. ke_drives e' = ws \<Longrightarrow> ke_shards e' = apply_to_shards (delta_delete c) (tr_engine t) \<Longrightarrow> ready crc cfgs n (?t2\<lparr>tr_engine := e'\<rparr>)"
    using ready_append [of crc cfgs n ?t2 "delta_delete c"] c by (auto simp: delta_ok_def)
  have sh: "shards_ok (tr_engine t)" using ok by (simp add: target_ok_def parts_ok_def engine_inv_def)
  let ?e = "(tr_engine t)\<lparr>ke_drives := ws, ke_shards := apply_to_shards (delta_delete c) (tr_engine t)\<rparr>"
  have e: "kix_delete crc c (tr_engine t) = (Returned (Inr ()), ?e)"
    using ws(1) shard_index_ok [OF sh, of c] ix index_lane(3) [OF ok ix]
    by (simp add: kix_delete_def drive_id_for_def engine_index_def apply_to_shards_def Let_def shard_apply_simps)
  let ?t3 = "?t2\<lparr>tr_engine := ?e\<rparr>"
  let ?t4 = "?t3\<lparr>tr_engine := clear_granule_inverse (router_drive ?t3) slot (tr_engine ?t3)\<rparr>"
  have tr: "tombstone_and_retire crc c r g ?b = (Inr (), ?t3)"
    using d'(1) e by (simp add: tombstone_and_retire_def st_bind_run st_map_err_def on_media_run client_call_def)
  have hb: "?H slot = Deleting c r" "record_lane (handle_layout (tr_media ?b)) r = Some p" using r(1) by simp_all
  from B hb(1) c hb(2) tr have "contents ?t3 = (contents ?b)(c := None)" by (cases rule: tombstone_and_retire_cases) auto
  then have "contents ?t3 = (contents t)(c := None)" by (simp only: modify_contents)
  moreover have fin: "delete_free crc c r g slot t = (Inr (response_json 200 (DeleteChunkDocument True g)), modify_slot slot (finish_delete True) ?t4)"
    using b tr len by (simp add: delete_free_def st_bind_run slot_publication_def)
  moreover have "ready crc cfgs n ?t4" using ws(2) [of "tr_engine ?t4"] by simp
  ultimately show thesis
    by (intro that [OF fin] ready_cong [OF \<open>ready crc cfgs n ?t4\<close>]) (use d'(2) clear_contents [of "router_drive ?t3" slot ?t3] in simp_all)
qed

lemma delete_completes:
  assumes ok: "serving_ok crc t X" and rd: "ready crc cfgs (Suc n) t" and ix: "engine_index (tr_engine t) c = Some r"
    and g: "unat (generation r) + 1 < 2 ^ 32" and ex: "expected = None \<or> expected = Some (generation r)"
  obtains t' where "delete_chunk crc c expected t = (Inr (response_json 200 (DeleteChunkDocument True (generation r + 1))), t')"
    "ready crc cfgs n t'" "tr_media t' = tr_media t" "contents t' = (contents t)(c := None)"
    "delete_check c expected t = (Inr (Some (r, generation r + 1, fst (record_home (handle_layout (tr_media t)) r))), t)"
proof -
  let ?slot = "fst (record_home (handle_layout (tr_media t)) r)"
  have o: "slot_owner t ?slot = Some (c, r)" using idle_slot(2) [OF ok _ ix refl] by simp
  have k: "delete_check c expected t = (Inr (Some (r, generation r + 1, ?slot)), t)"
    using kix_lookup_run [OF ok, of c] ix g ex slot_index_home(2) [OF index_lane(1) [OF ok ix]] idle_slot(1) [OF ok, of ?slot] o
    by (auto simp: delete_check_def delete_fence_def st_bind_run ok_or_def checked_add_def split: if_splits)
  obtain t' where "delete_free crc c r (generation r + 1) ?slot t = (Inr (response_json 200 (DeleteChunkDocument True (generation r + 1))), t')"
    "ready crc cfgs n t'" "tr_media t' = tr_media t" "contents t' = (contents t)(c := None)"
    using delete_free_completes [OF ok rd ix o index_lane(1) [OF ok ix] refl] .
  then show thesis using that k by (simp add: delete_chunk_def st_bind_run)
qed

section \<open>A small target\<close>

definition sample_target :: "(u8 list \<Rightarrow> u32) \<Rightarrow> TargetRouter" where
  "sample_target crc =
     \<lparr>tr_engine = sample_engine [3], tr_media = sample_handle, tr_device = sample_media crc,
      tr_slots = replicate 4 default_state, tr_allocator = GranuleAllocator_new 4\<rparr>"


lemma sample_target_fields [simp]:
  "tr_engine (sample_target crc) = sample_engine [3]" "tr_media (sample_target crc) = sample_handle" "tr_device (sample_target crc) = sample_media crc"
  "router_drive (sample_target crc) = 3" "handle_layout sample_handle = sample_layout" "slot_owner (sample_target crc) s = None"
  "length (tr_slots (sample_target crc)) = 4"
  by (simp_all add: sample_target_def router_drive_def sample_handle_def sample_media_config_def handle_layout_def sample_superblock_def slot_owner_def default_state_def)

lemma sample_handle_opened: "handle_opened sample_handle (sample_media crc)"
proof -
  have "planned_chunk_media_span_bytes sample_layout = Inr 86016"
    using planned_span [OF sample_layout_fits] sample_group_start by (simp add: sample_layout_def)
  then show ?thesis
    unfolding handle_opened_def
    by (intro exI [of _ 86016]) (simp add: sample_handle_def sample_superblock_def sample_media_config_def span_resolves_def sample_media_def)
qed

lemma sample_target_ok: "serving_ok crc (sample_target crc) X"
proof -
  have m: "media_up crc sample_handle (sample_media crc)"
    using sample_media_ready [of crc] sample_handle_opened [of crc] by (simp add: media_up_def) (simp add: sample_handle_def superblock_bytes_def sample_media_def)
  have e: "engine_inv (sample_engine [3])"
    using sample_shards(1) [of "[3]"] by (simp add: engine_inv_def) (simp add: inverse_ok_def sample_engine_def)
  have k: "unat (max (key_slots sample_layout) 1) = 4" by (simp add: sample_layout_def)
  have "parts_ok crc (sample_target crc) at_rest"
    using m e k sample_shards(2) [of "[3]"]
    by (simp add: parts_ok_def) (auto simp: sample_target_def sample_engine_def default_state_def)
  moreover have "lookup_granule_chunk 3 s (sample_engine [3]) = None" for s by (simp add: lookup_granule_chunk_def sample_engine_def)
  ultimately show ?thesis
    using sample_shards(2) [of "[3]"]
    by (simp add: target_ok_def pub_inv_def slot_inv_def owned_def mirrored_def up_to_date_def stored_def target_view_def)
qed

lemma sample_target_empty: "contents (sample_target crc) c = None" "engine_index (tr_engine (sample_target crc)) c = None"
    "admits (sample_target crc) c slot" "comes_back c g (sample_target crc)"
  using sample_shards(2) [of "[3]"] by (simp_all add: contents_def admits_def comes_back_def)

lemma sample_target_ready:
  assumes "n \<le> 50"
  shows "ready crc [sample_drive 3] n (sample_target crc)"
proof -
  have "log_room n [sample_drive 3] (\<lambda>_. []) 3"
    unfolding log_room_def
  proof (intro allI impI)
    fix cfg fs dev
    assume a: "cfg \<in> set [sample_drive 3] \<and> dc_id cfg = 3 \<and> length fs \<le> n \<and> (\<forall>f\<in>set fs. log_size f = 8192)"
    then have "log_len fs = length fs * 8192" by (simp add: log_len_def sum_list_triv cong: map_cong)
    with a assms show "log_fits cfg ([] @ fs) dev" by (auto simp: log_fits_def span_of_def head_of_def)
  qed
  moreover have "map_of (ke_drives (sample_engine [3])) 3 = Some (sample_worker 3)" by (simp add: sample_engine_def)
  ultimately show ?thesis
    using sample_engine_holds [of "[3]" crc] sample_worker_ok(2) [of 3] unfolding ready_def by auto
qed


lemma sample_write_completes:
  assumes "serving_ok crc t X" "ready crc [sample_drive 3] (Suc n) t" "tr_media t = sample_handle" "admits t (sample_chunk b) 0"
    "body \<noteq> []" "length body \<le> 8192" "\<And>r. engine_index (tr_engine t) (sample_chunk b) = Some r \<Longrightarrow> generation r \<le> gen"
  shows "\<exists>r t'. write_chunk_to_slot crc (sample_chunk b) 0 gen default_identity body t =
      (Inr (with_location_headers_and_accounted_bytes 201 (document_from_record r 0) (ucast (stored_length r))), t')
    \<and> ready crc [sample_drive 3] n t' \<and> tr_media t' = sample_handle \<and> engine_index (tr_engine t') (sample_chunk b) = Some r
    \<and> generation r = gen \<and> fst (record_home sample_layout r) = 0"
proof -
  have s: "(0 :: u64) < key_slots (handle_layout (tr_media t))" "length body \<le> unat (slot_payload (handle_layout (tr_media t)) (unat (0 :: u64)))"
    using sample_slot(1,2) assms(3,6) by simp_all
  obtain r t' where r: "write_chunk_to_slot crc (sample_chunk b) 0 gen default_identity body t =
      (Inr (with_location_headers_and_accounted_bytes 201 (document_from_record r 0) (ucast (stored_length r))), t')"
    "ready crc [sample_drive 3] n t'" "tr_media t' = tr_media t" "generation r = gen" "fst (record_home (handle_layout (tr_media t)) r) = 0"
    "engine_index (tr_engine t') (sample_chunk b) = Some (fenced generation r (engine_index (tr_engine t) (sample_chunk b)))"
    using write_completes [OF assms(1,2) sample_chunk_ok s(1) assms(4,5) s(2)] by blast
  moreover have "fenced generation r (engine_index (tr_engine t) (sample_chunk b)) = r"
    using assms(7) r(4) by (auto simp: fenced_def split: option.split)
  ultimately show ?thesis using assms(3) by (intro exI [of _ r] exI [of _ t']) simp
qed


text \<open>The small target after one write.\<close>

lemma sample_written:
  obtains resp r t' where "write_chunk_to_slot crc (sample_chunk 7) 0 5 default_identity [1, 2, 3] (sample_target crc) = (Inr resp, t')"
    "serving_ok crc t' {}" "contents t' = (\<lambda>_. None)(sample_chunk 7 := Some (5, [1, 2, 3]))" "ready crc [sample_drive 3] (Suc (Suc 0)) t'"
    "tr_media t' = sample_handle" "engine_index (tr_engine t') (sample_chunk 7) = Some r" "generation r = 5" "fst (record_home sample_layout r) = 0"
proof -
  let ?t = "sample_target crc" and ?c = "sample_chunk 7"
  have "ready crc [sample_drive 3] (Suc (Suc (Suc 0))) ?t" by (rule sample_target_ready) simp
  from sample_write_completes [OF sample_target_ok this, of 7 "[1, 2, 3]" 5] sample_target_empty obtain r t' where
    w: "write_chunk_to_slot crc ?c 0 5 default_identity [1, 2, 3] ?t = (Inr (with_location_headers_and_accounted_bytes 201 (document_from_record r 0) (ucast (stored_length r))), t')"
    "ready crc [sample_drive 3] (Suc (Suc 0)) t'" "tr_media t' = sample_handle" "engine_index (tr_engine t') ?c = Some r" "generation r = 5" "fst (record_home sample_layout r) = 0"
    by auto
  have e: "contents ?t = (\<lambda>_. None)" using sample_target_empty(1) by (simp add: fun_eq_iff)
  from write_to_slot_effect [OF sample_target_ok [of crc "{}"] sample_chunk_ok sample_target_empty(4) w(1)]
  show thesis using that w e by (simp add: write_effect_def spec_put_def superseded_def fenced_def)
qed

end
