(* ===== verification/Kst_Requests.thy ===== *)
theory Kst_Requests
  imports Kst_Live
begin

text \<open>
  The properties of a storage target that answers one request at a time: what writes, deletes and reads do
  to the stored chunks, that they complete on working devices, and a race of the fenced delete.
\<close>

section \<open>Writes\<close>

text \<open>
  C3. A chunk write is all or nothing, whatever the media device and the index answer. On a target at rest, a
  write of \<open>body\<close> at generation \<open>gen\<close> that is acknowledged (201) stores exactly these bytes for the chunk unless
  the chunk already has a higher generation, and no other chunk changes. A write that is refused changes the
  contents of no chunk, and the target is at rest again. The chunk identifier has 32 bytes, and a chunk that is
  not in the index but still owns granules comes back at no lower generation.
\<close>

theorem write_all_or_nothing:
  assumes "serving_ok crc t X" "chunk_id_ok c" "comes_back c gen t"
    "write_chunk_with_payload crc c slot gen ident body t = (res, t')"
  shows "case res of
      Inr resp \<Rightarrow> sr_status resp = 201 \<and> contents t' = (contents t)(c := Some (fenced fst (gen, body) (contents t c)))
        \<and> serving_ok crc t' (if superseded t c gen then X else X - {c})
    | Inl (Refused e) \<Rightarrow> contents t' = contents t \<and> serving_ok crc t' X
    | Inl Waiting \<Rightarrow> contents t' = contents t"
  using write_payload_effect [OF assms] unfolding write_effect_def spec_put_def .

theorem write_all_or_nothing_witness:
  "\<exists>resp t'. write_chunk_with_payload sample_crc (sample_chunk 7) 0 5 default_identity [1, 2, 3] (sample_target sample_crc) = (Inr resp, t')
     \<and> contents t' = (\<lambda>_. None)(sample_chunk 7 := Some (5, [1, 2, 3]))"
proof -
  let ?t = "sample_target sample_crc" and ?c = "sample_chunk 7"
  obtain resp r t' where "write_chunk_to_slot sample_crc ?c 0 5 default_identity [1, 2, 3] ?t = (Inr resp, t')" using sample_written .
  then have run: "write_chunk_with_payload sample_crc ?c 0 5 default_identity [1, 2, 3] ?t = (Inr resp, t')"
    by (simp add: write_chunk_with_payload_def GRANULE_ALLOCATE_def)
  have "contents ?t = (\<lambda>_. None)" using sample_target_empty(1) by (simp add: fun_eq_iff)
  then show ?thesis
    using write_all_or_nothing [OF sample_target_ok sample_chunk_ok sample_target_empty(4) run, of "{}"] run by (simp add: fenced_def)
qed

section \<open>Reads\<close>



section \<open>Deletes\<close>

text \<open>
  C8. A delete removes one chunk, and only the generation it was asked for. On a target at rest, a delete that
  reports success removed exactly this chunk from the contents; it happens only if the chunk was stored and, when
  the request names a generation, at that generation. A delete that reports that there was nothing to delete
  changed nothing, and the chunk is absent or has another generation. A delete that is refused leaves every other
  chunk as it was, and the chunk in the index at its generation.
\<close>

theorem delete_removes_only_its_chunk:
  assumes "serving_ok crc t X" "delete_chunk crc c expected t = (res, t')"
  shows "case res of
      Inr resp \<Rightarrow>
        (\<exists>g body. resp = response_json 200 (DeleteChunkDocument True (g + 1)) \<and> contents t c = Some (g, body) \<and> (expected = None \<or> expected = Some g)
           \<and> contents t' = (contents t)(c := None) \<and> serving_ok crc t' (X - {c}))
        \<or> (resp = not_deleted \<and> t' = t \<and> (contents t c = None \<or> (\<exists>g v. expected = Some g \<and> contents t c = Some v \<and> fst v \<noteq> g)))
    | Inl e \<Rightarrow> (\<forall>c'. c' \<noteq> c \<longrightarrow> contents t' c' = contents t c') \<and> map_option fst (contents t' c) = map_option fst (contents t c)
        \<and> (e \<noteq> Waiting \<longrightarrow> serving_ok crc t' (insert c X))"
  using delete_chunk_effect [OF assms] unfolding delete_effect_def .

theorem delete_removes_only_its_chunk_witness:
  "\<exists>t t'. contents t (sample_chunk 7) = Some (5, [1, 2, 3])
     \<and> delete_chunk sample_crc (sample_chunk 7) (Some 5) t = (Inr (response_json 200 (DeleteChunkDocument True 6)), t')
     \<and> contents t' (sample_chunk 7) = None"
proof -
  obtain resp r t where t: "serving_ok sample_crc t {}" "contents t = (\<lambda>_. None)(sample_chunk 7 := Some (5, [1, 2, 3]))" "ready sample_crc [sample_drive 3] (Suc (Suc 0)) t"
    "engine_index (tr_engine t) (sample_chunk 7) = Some r" "generation r = 5"
    using sample_written .
  obtain t' where d: "delete_chunk sample_crc (sample_chunk 7) (Some 5) t = (Inr (response_json 200 (DeleteChunkDocument True 6)), t')"
    using delete_completes [OF t(1,3,4), of "Some 5"] t(5) by auto
  have "contents t' (sample_chunk 7) = None"
    using delete_removes_only_its_chunk [OF t(1) d] by (auto simp: not_deleted_def response_json_def)
  then show ?thesis using t(2) d by (intro exI [of _ t] exI [of _ t']) simp
qed

section \<open>Requests complete\<close>

text \<open>
  C11. On working devices, a write is acknowledged and read back. If the target is at rest, the media device and
  the log of the drive do what they are asked, the log has room for one more record, and the granule is free for
  a new chunk or already holds the chunk, then a write of a non-empty body that fits the granule returns 201, and
  the read that follows returns 200 with exactly these bytes, unless the chunk has a higher generation.
\<close>

theorem write_acknowledged_and_read_back:
  assumes "serving_ok crc t X" "ready crc cfgs (Suc n) t" "chunk_id_ok c" "comes_back c gen t" "admits t c slot"
    "slot < key_slots (handle_layout (tr_media t))" "body \<noteq> []" "length body \<le> unat (slot_payload (handle_layout (tr_media t)) (unat slot))"
    "\<not> superseded t c gen"
  shows "\<exists>resp t1 loc t2. write_chunk_to_slot crc c slot gen ident body t = (Inr resp, t1) \<and> sr_status resp = 201
    \<and> handle_read crc c [] t1 = (Inr (response_octets 200 loc body), t2) \<and> ready crc cfgs n t1"
proof -
  obtain r t1 where w: "write_chunk_to_slot crc c slot gen ident body t =
      (Inr (with_location_headers_and_accounted_bytes 201 (document_from_record r slot) (ucast (stored_length r))), t1)" "ready crc cfgs n t1"
    using write_completes [OF assms(1-3,6,5,7,8)] by blast
  have e: "contents t1 = spec_put c gen body (contents t)" "serving_ok crc t1 (X - {c})"
    using write_to_slot_effect [OF assms(1,3,4) w(1)] assms(9) by (simp_all add: write_effect_def)
  then have s: "\<exists>r. engine_index (tr_engine t1) c = Some r \<and> stored_bytes t1 r = body"
    using assms(9) by (auto simp: contents_def spec_put_def superseded_def fenced_def fun_eq_iff split: option.splits if_splits dest: spec [of _ c])
  then obtain r' where r': "engine_index (tr_engine t1) c = Some r'" "stored_bytes t1 r' = body" by blast
  obtain p t2 where p: "read_published_payload crc c r' t1 = (p, t2)" by fastforce
  have "quiet (tr_device t1)" using w(2) by (simp add: ready_def)
  with read_found(3) [OF e(2) r'(1) _ p] r'(2) have p': "p = Inr (Some (r', body))" "t2 = t1" by auto
  have "location_document r' t1 = Inr (document_from_record r' (fst (record_home (handle_layout (tr_media t1)) r')))"
    using slot_index_home(2) [OF index_lane(1) [OF e(2) r'(1)]] by (simp add: location_document_def)
  then have "handle_read crc c [] t1 = (Inr (response_octets 200 (document_from_record r' (fst (record_home (handle_layout (tr_media t1)) r'))) body), t1)"
    using kix_lookup_run [OF e(2), of c] r'(1) p p' by (simp add: handle_read_def no_body_def st_bind_def)
  moreover have "sr_status (with_location_headers_and_accounted_bytes 201 (document_from_record r slot) (ucast (stored_length r))) = 201"
    by (simp add: with_location_headers_and_accounted_bytes_def)
  ultimately show ?thesis using w by blast
qed

theorem write_acknowledged_and_read_back_witness:
  "\<exists>resp t1 loc t2. write_chunk_to_slot sample_crc (sample_chunk 7) 0 5 default_identity [1, 2, 3] (sample_target sample_crc) = (Inr resp, t1)
     \<and> handle_read sample_crc (sample_chunk 7) [] t1 = (Inr (response_octets 200 loc [1, 2, 3]), t2)"
proof -
  let ?t = "sample_target sample_crc"
  have "ready sample_crc [sample_drive 3] (Suc 0) ?t" by (rule sample_target_ready) simp
  from write_acknowledged_and_read_back [OF sample_target_ok this sample_chunk_ok sample_target_empty(4,3), of 0 "[1, 2, 3]" 7 5 default_identity]
  have "\<exists>resp t1 loc t2. write_chunk_to_slot sample_crc (sample_chunk 7) 0 5 default_identity [1, 2, 3] ?t = (Inr resp, t1) \<and> sr_status resp = 201
     \<and> handle_read sample_crc (sample_chunk 7) [] t1 = (Inr (response_octets 200 loc [1, 2, 3]), t2) \<and> ready sample_crc [sample_drive 3] 0 t1"
    using sample_slot(1,2) sample_target_empty(1) by (simp add: superseded_def)
  then show ?thesis by blast
qed

section \<open>The fenced delete\<close>

text \<open>
  C32. The generation fence of a delete is not kept until the chunk is removed. A chunk is stored at generation 5. A
  delete fenced to generation 5 passes its check; before it claims the slot, a write of generation 6 is
  acknowledged, and the chunk is stored at generation 6. The delete goes on: it reports success for generation 5
  and removes the chunk, so the acknowledged write of generation 6 is gone.
\<close>

theorem fenced_delete_removes_newer_write:
  shows "\<exists>resp1 t1 r g slot resp2 t2 t3.
     write_chunk_to_slot crc (sample_chunk 7) 0 5 default_identity [1, 2, 3] (sample_target crc) = (Inr resp1, t1)
   \<and> delete_check (sample_chunk 7) (Some 5) t1 = (Inr (Some (r, g, slot)), t1)
   \<and> write_chunk_to_slot crc (sample_chunk 7) 0 6 default_identity [9] t1 = (Inr resp2, t2) \<and> sr_status resp2 = 201
   \<and> contents t2 (sample_chunk 7) = Some (6, [9])
   \<and> delete_free crc (sample_chunk 7) r g slot t2 = (Inr (response_json 200 (DeleteChunkDocument True 6)), t3)
   \<and> contents t3 (sample_chunk 7) = None"
proof -
  let ?c = "sample_chunk 7"
  obtain resp1 r t1 where t1: "write_chunk_to_slot crc ?c 0 5 default_identity [1, 2, 3] (sample_target crc) = (Inr resp1, t1)" "serving_ok crc t1 {}"
    "contents t1 = (\<lambda>_. None)(?c := Some (5, [1, 2, 3]))" "ready crc [sample_drive 3] (Suc (Suc 0)) t1" "tr_media t1 = sample_handle"
    "engine_index (tr_engine t1) ?c = Some r" "generation r = 5" "fst (record_home sample_layout r) = 0"
    using sample_written .
  have chk: "delete_check ?c (Some 5) t1 = (Inr (Some (r, 6, 0)), t1)"
    using delete_completes [OF t1(2,4,6), of "Some 5"] t1(5,7,8) by auto
  have o1: "slot_owner t1 0 = Some (?c, r)" using idle_slot(2) [OF t1(2) _ t1(6)] t1(5,8) by simp
  then have "admits t1 ?c 0" using t1(6) by (simp add: admits_def)
  from sample_write_completes [OF t1(2,4,5) this, of "[9]" 6] t1(6,7) obtain r2 t2 where
    w2: "write_chunk_to_slot crc ?c 0 6 default_identity [9] t1 = (Inr (with_location_headers_and_accounted_bytes 201 (document_from_record r2 0) (ucast (stored_length r2))), t2)"
    "ready crc [sample_drive 3] (Suc 0) t2" "tr_media t2 = sample_handle" "engine_index (tr_engine t2) ?c = Some r2" "fst (record_home sample_layout r2) = 0"
    by auto
  have cb: "comes_back ?c 6 t1" using t1(6) by (simp add: comes_back_def)
  have e2: "serving_ok crc t2 {}" "contents t2 ?c = Some (6, [9])"
    using write_to_slot_effect [OF t1(2) sample_chunk_ok cb w2(1)] t1(3) by (simp_all add: write_effect_def superseded_def spec_put_def fenced_def)
  have o2: "slot_owner t2 0 = Some (?c, r2)" using idle_slot(2) [OF e2(1) _ w2(4)] w2(3,5) by simp
  obtain t3 where "delete_free crc ?c r 6 0 t2 = (Inr (response_json 200 (DeleteChunkDocument True 6)), t3)" "contents t3 = (contents t2)(?c := None)"
    using delete_free_completes [OF e2(1) w2(2,4) o2, of r "lane_nat (record_home sample_layout r)" 6] index_lane(1) [OF t1(2,6)] t1(5,8) w2(3) by auto
  with t1(1) chk w2(1) e2(2) show ?thesis by (auto simp: with_location_headers_and_accounted_bytes_def)
qed

end
