(* ===== verification/Kst_Restart.thy ===== *)
theory Kst_Restart
  imports Kst_Requests
begin

text \<open>
  A restart of a storage target: the index is reopened, the media are opened again, and the owners of the slots
  are rebuilt from the entries of the index. What the target stored is what it serves again.
\<close>

section \<open>Rebuilding the owners of the slots\<close>









section \<open>The devices after a crash\<close>





section \<open>The router\<close>




section \<open>The restart\<close>




end
