(* ===== verification/Kst_Threads.thy ===== *)
theory Kst_Threads
  imports Kst_Restart
begin

text \<open>
  A storage target that works on many requests at once. The handlers of \<open>poc/kst/src/service.rs\<close> run on worker
  threads; what they share is behind locks, so a handler is a sequence of atomic steps: a lookup in the index,
  the reservation of a slot, a media write, the durability barrier, a change of the index, the release of the
  slot. \<open>thread_step\<close> is one such step, of a chunk write, a packed write or a delete; a request that waits for a
  slot has none.
\<close>

section \<open>Requests and their steps\<close>

record job =
  jb_chunk :: ChunkId
  jb_slot :: u64
  jb_generation :: u32
  jb_identity :: ChunkSelfDescribingIdentity
  jb_body :: "u8 list"

definition entry_job :: "PackedWriteEntry \<Rightarrow> job" where
  "entry_job e =
     \<lparr>jb_chunk = we_chunk_id e, jb_slot = we_slot_index e, jb_generation = we_generation e,
      jb_identity = entry_identity (we_identity e), jb_body = we_payload e\<rparr>"

datatype stage = Staged job SlotPublicationReservation LocationRecord | Skipped PackedWriteReplyEntry

type_synonym slot_hold = "(ChunkId, LocationRecord, u64) hold"

datatype answer = Response "fault + ServiceResponse" | Replies "fault + PackedWriteReplyEntry list"

text \<open>
  Where a request is, with what it has in its variables. \<open>Undo\<close> lets a slot go and goes on; the hold it names is
  what the request had done with the slot. \<open>Hung\<close> waits for a drive worker that does not answer.
\<close>

datatype phase =
  Write_Lookup job
| Write_Reserve job "LocationRecord option"
| Write_Guard job SlotPublicationReservation
| Write_Media job SlotPublicationReservation
| Write_Barrier job SlotPublicationReservation LocationRecord
| Write_Publish job SlotPublicationReservation LocationRecord
| Write_Commit job SlotPublicationReservation LocationRecord
| Pack_Lookup "job list" "stage list"
| Pack_Reserve job "LocationRecord option" "job list" "stage list"
| Pack_Media job SlotPublicationReservation "job list" "stage list"
| Pack_Abort fault "stage list"
| Pack_Barrier "stage list"
| Pack_Publish "io_error option" "stage list" "PackedWriteReplyEntry list"
| Pack_Upsert job SlotPublicationReservation LocationRecord "stage list" "PackedWriteReplyEntry list"
| Pack_Commit job SlotPublicationReservation LocationRecord "stage list" "PackedWriteReplyEntry list"
| Delete_Lookup ChunkId "u32 option"
| Delete_Fence ChunkId "u32 option" LocationRecord
| Delete_Claim ChunkId LocationRecord u32 u64
| Delete_Media ChunkId LocationRecord u32 u64
| Delete_Retire ChunkId u32 u64
| Delete_Clear ChunkId u32 u64
| Delete_Finish ChunkId u32 u64
| Undo u64 slot_hold phase
| Answered answer
| Hung "(u64 \<times> slot_hold) list"

abbreviation respond :: "fault + ServiceResponse \<Rightarrow> phase" where
  "respond r \<equiv> Answered (Response r)"

abbreviation job_reply :: "job \<Rightarrow> u16 \<Rightarrow> PackedWriteLocation option \<Rightarrow> u8 list option \<Rightarrow> PackedWriteReplyEntry" where
  "job_reply j \<equiv> reply_entry (jb_chunk j) (jb_slot j) (jb_generation j)"

definition is_staged :: "stage \<Rightarrow> bool" where
  "is_staged s = (case s of Staged _ _ _ \<Rightarrow> True | Skipped _ \<Rightarrow> False)"

text \<open>What a request has of the slots; the entries of a pack are written until the barrier, and durable after it.\<close>

fun stage_hold :: "(ChunkId \<Rightarrow> LocationRecord \<Rightarrow> slot_hold) \<Rightarrow> stage \<Rightarrow> (u64 \<times> slot_hold) list" where
  "stage_hold k (Staged j rv r) = [(jb_slot j, k (jb_chunk j) r)]"
| "stage_hold k (Skipped reply) = []"

definition stage_holds :: "(ChunkId \<Rightarrow> LocationRecord \<Rightarrow> slot_hold) \<Rightarrow> stage list \<Rightarrow> (u64 \<times> slot_hold) list" where
  "stage_holds k staged = concat (map (stage_hold k) staged)"

fun phase_holds :: "phase \<Rightarrow> (u64 \<times> slot_hold) list" where
  "phase_holds (Write_Guard j rv) = [(jb_slot j, Reserved (rv_lane rv))]"
| "phase_holds (Write_Media j rv) = [(jb_slot j, Reserved (rv_lane rv))]"
| "phase_holds (Write_Barrier j rv r) = [(jb_slot j, Filled (jb_chunk j) r)]"
| "phase_holds (Write_Publish j rv r) = [(jb_slot j, Loaded (jb_chunk j) r)]"
| "phase_holds (Write_Commit j rv r) = [(jb_slot j, Published (jb_chunk j) r)]"
| "phase_holds (Pack_Lookup js staged) = stage_holds Filled staged"
| "phase_holds (Pack_Reserve j cur js staged) = stage_holds Filled staged"
| "phase_holds (Pack_Media j rv js staged) = (jb_slot j, Reserved (rv_lane rv)) # stage_holds Filled staged"
| "phase_holds (Pack_Abort e staged) = stage_holds Filled staged"
| "phase_holds (Pack_Barrier staged) = stage_holds Filled staged"
| "phase_holds (Pack_Publish err staged rs) = stage_holds (if err = None then Loaded else Filled) staged"
| "phase_holds (Pack_Upsert j rv r staged rs) = (jb_slot j, Loaded (jb_chunk j) r) # stage_holds Loaded staged"
| "phase_holds (Pack_Commit j rv r staged rs) = (jb_slot j, Published (jb_chunk j) r) # stage_holds Loaded staged"
| "phase_holds (Delete_Media c r g slot) = [(slot, Deleting c r)]"
| "phase_holds (Delete_Retire c g slot) = [(slot, Tombstoned c)]"
| "phase_holds (Delete_Clear c g slot) = [(slot, Retired c)]"
| "phase_holds (Delete_Finish c g slot) = [(slot, Cleared c)]"
| "phase_holds (Undo slot h ph) = (slot, h) # phase_holds ph"
| "phase_holds (Hung hs) = hs"
| "phase_holds _ = []"

text \<open>The lane that a delete which finds another owner keeps away from.\<close>

definition other_lane :: "TargetRouter \<Rightarrow> u64 \<Rightarrow> u64" where
  "other_lane t slot =
     (case slot_owner t slot of Some (_, r) \<Rightarrow> if snd (record_home (handle_layout (tr_media t)) r) = 0 then 1 else 0 | None \<Rightarrow> 0)"

subsection \<open>Chunk writes\<close>

fun write_step :: "(u8 list \<Rightarrow> u32) \<Rightarrow> phase \<Rightarrow> TargetRouter \<Rightarrow> (phase \<times> TargetRouter) option" where
  "write_step crc (Write_Lookup j) t =
     (case st_bind (slot_publication (jb_slot j)) (\<lambda>_. kix_lookup (jb_chunk j)) t of
        (Inl e, t') \<Rightarrow> Some (respond (Inl e), t')
      | (Inr cur, t') \<Rightarrow> Some (Write_Reserve j cur, t'))"
| "write_step crc (Write_Reserve j cur) t =
     (case reserve_with (jb_slot j) cur t of
        (Inl Waiting, t') \<Rightarrow> None
      | (Inl e, t') \<Rightarrow> Some (respond (Inl e), t')
      | (Inr rv, t') \<Rightarrow> Some (Write_Guard j rv, t'))"
| "write_step crc (Write_Guard j rv) t =
     Some (if owner_conflict (jb_chunk j) rv \<or> inverse_conflict (jb_chunk j) (jb_slot j) t
           then Undo (jb_slot j) (Reserved (rv_lane rv)) (respond (Inl (service_error CONFLICT False)))
           else Write_Media j rv, t)"
| "write_step crc (Write_Media j rv) t =
     (case write_lane crc (jb_slot j) (rv_lane rv) (jb_chunk j) (jb_generation j) (jb_identity j) (jb_body j) t of
        (Inl e, t') \<Rightarrow> Some (Undo (jb_slot j) (Reserved (rv_lane rv)) (respond (Inl (map_media_error e))), t')
      | (Inr r, t') \<Rightarrow> Some (Write_Barrier j rv r, t'))"
| "write_step crc (Write_Barrier j rv r) t =
     (case on_media handle_fdatasync t of
        (Inl e, t') \<Rightarrow> Some (Undo (jb_slot j) (Filled (jb_chunk j) r) (respond (Inl (map_media_error e))), t')
      | (Inr _, t') \<Rightarrow> Some (Write_Publish j rv r, t'))"
| "write_step crc (Write_Publish j rv r) t =
     (case client_call (kix_upsert crc (jb_chunk j) (jb_slot j) r) t of
        (Inl Waiting, t') \<Rightarrow> Some (Hung [(jb_slot j, Loaded (jb_chunk j) r)], t')
      | (Inl e, t') \<Rightarrow> Some (Undo (jb_slot j) (Loaded (jb_chunk j) r) (respond (Inl e)), t')
      | (Inr _, t') \<Rightarrow> Some (Write_Commit j rv r, t'))"
| "write_step crc (Write_Commit j rv r) t =
     (case retire_superseded crc (jb_chunk j) rv t of
        (Inl Waiting, t') \<Rightarrow> Some (Hung [(jb_slot j, Published (jb_chunk j) r)], t')
      | (Inl e, t') \<Rightarrow> Some (Undo (jb_slot j) (Published (jb_chunk j) r) (respond (Inl e)), t')
      | (Inr _, t') \<Rightarrow>
          Some (respond (Inr (with_location_headers_and_accounted_bytes 201 (document_from_record r (jb_slot j)) (ucast (stored_length r)))),
                modify_slot (jb_slot j) (commit \<lparr>po_chunk_id = jb_chunk j, po_record = r\<rparr>) t'))"
| "write_step crc _ t = None"

subsection \<open>Packed writes\<close>

fun pack_step :: "(u8 list \<Rightarrow> u32) \<Rightarrow> (entry_error \<Rightarrow> u8 list) \<Rightarrow> phase \<Rightarrow> TargetRouter \<Rightarrow> (phase \<times> TargetRouter) option" where
  "pack_step crc error_text (Pack_Lookup [] staged) t =
     Some (if list_ex is_staged staged then Pack_Barrier staged else Pack_Publish None staged [], t)"
| "pack_step crc error_text (Pack_Lookup (j # js) staged) t =
     (case st_bind (slot_publication (jb_slot j)) (\<lambda>_. kix_lookup (jb_chunk j)) t of
        (Inl e, t') \<Rightarrow> Some (Pack_Abort e staged, t')
      | (Inr cur, t') \<Rightarrow> Some (Pack_Reserve j cur js staged, t'))"
| "pack_step crc error_text (Pack_Reserve j cur js staged) t =
     (case reserve_with (jb_slot j) cur t of
        (Inl Waiting, t') \<Rightarrow> None
      | (Inl e, t') \<Rightarrow> Some (Pack_Abort e staged, t')
      | (Inr rv, t') \<Rightarrow> Some (Pack_Media j rv js staged, t'))"
| "pack_step crc error_text (Pack_Media j rv js staged) t =
     (case write_lane crc (jb_slot j) (rv_lane rv) (jb_chunk j) (jb_generation j) (jb_identity j) (jb_body j) t of
        (Inl e, t') \<Rightarrow>
          Some (Undo (jb_slot j) (Reserved (rv_lane rv))
            (Pack_Lookup js (staged @ [Skipped (job_reply j 422 None (Some (error_text (MediaRejected e))))])), t')
      | (Inr r, t') \<Rightarrow> Some (Pack_Lookup js (staged @ [Staged j rv r]), t'))"
| "pack_step crc error_text (Pack_Abort e []) t = Some (Answered (Replies (Inl e)), t)"
| "pack_step crc error_text (Pack_Abort e (Skipped reply # staged)) t = Some (Pack_Abort e staged, t)"
| "pack_step crc error_text (Pack_Abort e (Staged j rv r # staged)) t = Some (Undo (jb_slot j) (Filled (jb_chunk j) r) (Pack_Abort e staged), t)"
| "pack_step crc error_text (Pack_Barrier staged) t =
     (case on_media handle_fdatasync t of
        (Inl e, t') \<Rightarrow> Some (Pack_Publish (Some e) staged [], t')
      | (Inr _, t') \<Rightarrow> Some (Pack_Publish None staged [], t'))"
| "pack_step crc error_text (Pack_Publish err [] rs) t = Some (Answered (Replies (Inr rs)), t)"
| "pack_step crc error_text (Pack_Publish err (Skipped reply # staged) rs) t = Some (Pack_Publish err staged (rs @ [reply]), t)"
| "pack_step crc error_text (Pack_Publish (Some e) (Staged j rv r # staged) rs) t =
     Some (Undo (jb_slot j) (Filled (jb_chunk j) r)
       (Pack_Publish (Some e) staged (rs @ [job_reply j 500 None (Some (error_text (BarrierFailed e)))])), t)"
| "pack_step crc error_text (Pack_Publish None (Staged j rv r # staged) rs) t =
     (let refuse = (\<lambda>err. Undo (jb_slot j) (Loaded (jb_chunk j) r) (Pack_Publish None staged (rs @ [job_reply j 409 None (Some (error_text err))])))
      in Some (if owner_conflict (jb_chunk j) rv then refuse (SlotOwned (reserved_owner (jb_chunk j) rv))
               else if inverse_conflict (jb_chunk j) (jb_slot j) t
               then refuse (GranuleOwned (case lookup_granule_chunk (router_drive t) (jb_slot j) (tr_engine t) of Some (oc, _) \<Rightarrow> oc | None \<Rightarrow> jb_chunk j))
               else Pack_Upsert j rv r staged rs, t))"
| "pack_step crc error_text (Pack_Upsert j rv r staged rs) t =
     (case client_call (kix_upsert crc (jb_chunk j) (jb_slot j) r) t of
        (Inl Waiting, t') \<Rightarrow> Some (Hung ((jb_slot j, Loaded (jb_chunk j) r) # stage_holds Loaded staged), t')
      | (Inl e, t') \<Rightarrow>
          Some (Undo (jb_slot j) (Loaded (jb_chunk j) r)
            (Pack_Publish None staged (rs @ [job_reply j 500 (location_option r t') (Some (error_text NotPublished))])), t')
      | (Inr _, t') \<Rightarrow> Some (Pack_Commit j rv r staged rs, t'))"
| "pack_step crc error_text (Pack_Commit j rv r staged rs) t =
     (case retire_superseded crc (jb_chunk j) rv t of
        (Inl Waiting, t') \<Rightarrow> Some (Hung ((jb_slot j, Published (jb_chunk j) r) # stage_holds Loaded staged), t')
      | (Inl e, t') \<Rightarrow>
          Some (Undo (jb_slot j) (Published (jb_chunk j) r)
            (Pack_Publish None staged (rs @ [job_reply j 500 (location_option r t') (Some (error_text (NotRetired (reserved_owner (jb_chunk j) rv))))])), t')
      | (Inr _, t') \<Rightarrow>
          (let t'' = modify_slot (jb_slot j) (commit \<lparr>po_chunk_id = jb_chunk j, po_record = r\<rparr>) t' in
           Some (Pack_Publish None staged (rs @
             [case location_option r t'' of
                Some loc \<Rightarrow> job_reply j 201 (Some loc) None
              | None \<Rightarrow> job_reply j 500 None (Some (error_text NotMapped))]), t'')))"
| "pack_step crc error_text _ t = None"

subsection \<open>Deletes\<close>

fun delete_step :: "(u8 list \<Rightarrow> u32) \<Rightarrow> phase \<Rightarrow> TargetRouter \<Rightarrow> (phase \<times> TargetRouter) option" where
  "delete_step crc (Delete_Lookup c expected) t =
     (case kix_lookup c t of
        (Inl e, t') \<Rightarrow> Some (respond (Inl e), t')
      | (Inr None, t') \<Rightarrow> Some (respond (Inr not_deleted), t')
      | (Inr (Some r), t') \<Rightarrow> Some (Delete_Fence c expected r, t'))"
| "delete_step crc (Delete_Fence c expected r) t =
     (case delete_fence c expected r t of
        (Inl e, t') \<Rightarrow> Some (respond (Inl e), t')
      | (Inr None, t') \<Rightarrow> Some (respond (Inr not_deleted), t')
      | (Inr (Some (r, g, slot)), t') \<Rightarrow> Some (Delete_Claim c r g slot, t'))"
| "delete_step crc (Delete_Claim c r g slot) t =
     (case st_bind (slot_publication slot) (\<lambda>_. on_slot slot begin_delete) t of
        (Inl Waiting, t') \<Rightarrow> None
      | (Inl e, t') \<Rightarrow> Some (respond (Inl e), t')
      | (Inr owner, t') \<Rightarrow>
          Some (if (case owner of Some x \<Rightarrow> po_chunk_id x \<noteq> c | None \<Rightarrow> False)
                then Undo slot (Reserved (other_lane t slot)) (respond (Inl (service_error CONFLICT True)))
                else Delete_Media c r g slot, t'))"
| "delete_step crc (Delete_Media c r g slot) t =
     (case on_media (handle_write_tombstone crc (tr_media t) c r g) t of
        (Inl e, t') \<Rightarrow> Some (Undo slot (Deleting c r) (respond (Inl (map_media_error e))), t')
      | (Inr _, t') \<Rightarrow> Some (Delete_Retire c g slot, t'))"
| "delete_step crc (Delete_Retire c g slot) t =
     (case client_call (kix_delete crc c) t of
        (Inl Waiting, t') \<Rightarrow> Some (Hung [(slot, Tombstoned c)], t')
      | (Inl e, t') \<Rightarrow> Some (Undo slot (Tombstoned c) (respond (Inl e)), t')
      | (Inr _, t') \<Rightarrow> Some (Delete_Clear c g slot, t'))"
| "delete_step crc (Delete_Clear c g slot) t =
     Some (Delete_Finish c g slot, t\<lparr>tr_engine := clear_granule_inverse (router_drive t) slot (tr_engine t)\<rparr>)"
| "delete_step crc (Delete_Finish c g slot) t =
     Some (respond (Inr (response_json 200 (DeleteChunkDocument True g))), modify_slot slot (finish_delete True) t)"
| "delete_step crc _ t = None"

subsection \<open>All of them\<close>

fun thread_step :: "(u8 list \<Rightarrow> u32) \<Rightarrow> (entry_error \<Rightarrow> u8 list) \<Rightarrow> phase \<Rightarrow> TargetRouter \<Rightarrow> (phase \<times> TargetRouter) option" where
  "thread_step crc error_text (Undo slot h ph) t = Some (ph, modify_slot slot rollback t)"
| "thread_step crc error_text ph t =
     (case write_step crc ph t of
        Some x \<Rightarrow> Some x
      | None \<Rightarrow> (case pack_step crc error_text ph t of Some x \<Rightarrow> Some x | None \<Rightarrow> delete_step crc ph t))"

end
