(* ===== verification/Kst_Steps.thy ===== *)
theory Kst_Steps
  imports Kst_Threads
begin

text \<open>
  What one step of one request does to a target on which other requests are at work: it keeps the invariant of the
  target, touches only slots that it holds or that are idle, and changes the stored chunks only where it publishes
  a record, overwrites a lane with a tombstone, or retires a chunk. Every write of a chunk goes to one slot, which
  \<open>\<sigma>\<close> gives: the placement decides it.
\<close>

section \<open>What a request knows\<close>

definition job_ok :: "(ChunkId \<Rightarrow> u64) \<Rightarrow> job \<Rightarrow> bool" where
  "job_ok \<sigma> j \<longleftrightarrow> jb_slot j = \<sigma> (jb_chunk j) \<and> chunk_id_ok (jb_chunk j)"

definition reserved_as :: "TargetRouter \<Rightarrow> job \<Rightarrow> SlotPublicationReservation \<Rightarrow> bool" where
  "reserved_as t j rv \<longleftrightarrow> map_option (\<lambda>owner. (po_chunk_id owner, po_record owner)) (rv_current rv) = slot_owner t (jb_slot j)"

definition placed :: "TargetRouter \<Rightarrow> LocationRecord \<Rightarrow> bool" where
  "placed t r \<longleftrightarrow> record_lane (handle_layout (tr_media t)) r = Some (lane_nat (record_home (handle_layout (tr_media t)) r))"

abbreviation home_slot :: "TargetRouter \<Rightarrow> LocationRecord \<Rightarrow> u64" where
  "home_slot t r \<equiv> fst (record_home (handle_layout (tr_media t)) r)"

definition written_as :: "TargetRouter \<Rightarrow> job \<Rightarrow> LocationRecord \<Rightarrow> bool" where
  "written_as t j r \<longleftrightarrow> placed t r \<and> home_slot t r = jb_slot j \<and> generation r = jb_generation j
     \<and> drive_id r = router_drive t \<and> stored_bytes t r = jb_body j"

fun stage_ok :: "(ChunkId \<Rightarrow> u64) \<Rightarrow> TargetRouter \<Rightarrow> stage \<Rightarrow> bool" where
  "stage_ok \<sigma> t (Staged j rv r) \<longleftrightarrow> job_ok \<sigma> j \<and> reserved_as t j rv \<and> written_as t j r"
| "stage_ok \<sigma> t (Skipped reply) \<longleftrightarrow> True"

text \<open>A hold that ends without a trace.\<close>

fun revocable :: "slot_hold \<Rightarrow> bool" where
  "revocable (Reserved l) \<longleftrightarrow> True"
| "revocable (Filled c r) \<longleftrightarrow> True"
| "revocable (Loaded c r) \<longleftrightarrow> True"
| "revocable (Deleting c r) \<longleftrightarrow> True"
| "revocable (Tombstoned c) \<longleftrightarrow> True"
| "revocable _ \<longleftrightarrow> False"

definition victim_ok :: "(ChunkId \<Rightarrow> u64) \<Rightarrow> TargetRouter \<Rightarrow> ChunkId \<Rightarrow> LocationRecord \<Rightarrow> bool" where
  "victim_ok \<sigma> t c r \<longleftrightarrow> chunk_id_ok c \<and> placed t r \<and> home_slot t r = \<sigma> c"

abbreviation slot_exists :: "TargetRouter \<Rightarrow> u64 \<Rightarrow> bool" where
  "slot_exists t slot \<equiv> unat slot < length (tr_slots t)"

abbreviation free_for :: "TargetRouter \<Rightarrow> job \<Rightarrow> bool" where
  "free_for t j \<equiv> only (jb_chunk j) (slot_owner t (jb_slot j))"

fun phase_ok :: "(ChunkId \<Rightarrow> u64) \<Rightarrow> TargetRouter \<Rightarrow> phase \<Rightarrow> bool" where
  "phase_ok \<sigma> t (Write_Lookup j) \<longleftrightarrow> job_ok \<sigma> j"
| "phase_ok \<sigma> t (Write_Reserve j cur) \<longleftrightarrow> job_ok \<sigma> j \<and> slot_exists t (jb_slot j)"
| "phase_ok \<sigma> t (Write_Guard j rv) \<longleftrightarrow> job_ok \<sigma> j \<and> reserved_as t j rv"
| "phase_ok \<sigma> t (Write_Media j rv) \<longleftrightarrow> job_ok \<sigma> j \<and> reserved_as t j rv \<and> free_for t j"
| "phase_ok \<sigma> t (Write_Barrier j rv r) \<longleftrightarrow> job_ok \<sigma> j \<and> reserved_as t j rv \<and> free_for t j \<and> written_as t j r"
| "phase_ok \<sigma> t (Write_Publish j rv r) \<longleftrightarrow> job_ok \<sigma> j \<and> reserved_as t j rv \<and> free_for t j \<and> written_as t j r"
| "phase_ok \<sigma> t (Write_Commit j rv r) \<longleftrightarrow> job_ok \<sigma> j \<and> reserved_as t j rv \<and> free_for t j"
| "phase_ok \<sigma> t (Pack_Lookup js staged) \<longleftrightarrow> list_all (job_ok \<sigma>) js \<and> list_all (stage_ok \<sigma> t) staged"
| "phase_ok \<sigma> t (Pack_Reserve j cur js staged) \<longleftrightarrow>
     job_ok \<sigma> j \<and> slot_exists t (jb_slot j) \<and> list_all (job_ok \<sigma>) js \<and> list_all (stage_ok \<sigma> t) staged"
| "phase_ok \<sigma> t (Pack_Media j rv js staged) \<longleftrightarrow>
     job_ok \<sigma> j \<and> reserved_as t j rv \<and> list_all (job_ok \<sigma>) js \<and> list_all (stage_ok \<sigma> t) staged"
| "phase_ok \<sigma> t (Pack_Abort e staged) \<longleftrightarrow> list_all (stage_ok \<sigma> t) staged"
| "phase_ok \<sigma> t (Pack_Barrier staged) \<longleftrightarrow> list_all (stage_ok \<sigma> t) staged"
| "phase_ok \<sigma> t (Pack_Publish err staged rs) \<longleftrightarrow> list_all (stage_ok \<sigma> t) staged"
| "phase_ok \<sigma> t (Pack_Upsert j rv r staged rs) \<longleftrightarrow>
     job_ok \<sigma> j \<and> reserved_as t j rv \<and> free_for t j \<and> written_as t j r \<and> list_all (stage_ok \<sigma> t) staged"
| "phase_ok \<sigma> t (Pack_Commit j rv r staged rs) \<longleftrightarrow>
     job_ok \<sigma> j \<and> reserved_as t j rv \<and> free_for t j \<and> list_all (stage_ok \<sigma> t) staged"
| "phase_ok \<sigma> t (Delete_Lookup c expected) \<longleftrightarrow> True"
| "phase_ok \<sigma> t (Delete_Fence c expected r) \<longleftrightarrow> victim_ok \<sigma> t c r"
| "phase_ok \<sigma> t (Delete_Claim c r g slot) \<longleftrightarrow> victim_ok \<sigma> t c r \<and> slot = \<sigma> c"
| "phase_ok \<sigma> t (Delete_Media c r g slot) \<longleftrightarrow> victim_ok \<sigma> t c r \<and> slot = \<sigma> c"
| "phase_ok \<sigma> t (Delete_Retire c g slot) \<longleftrightarrow> slot = \<sigma> c"
| "phase_ok \<sigma> t (Delete_Clear c g slot) \<longleftrightarrow> slot = \<sigma> c"
| "phase_ok \<sigma> t (Delete_Finish c g slot) \<longleftrightarrow> slot = \<sigma> c"
| "phase_ok \<sigma> t (Undo slot h ph) \<longleftrightarrow> revocable h \<and> phase_ok \<sigma> t ph"
| "phase_ok \<sigma> t (Answered a) \<longleftrightarrow> True"
| "phase_ok \<sigma> t (Hung hs) \<longleftrightarrow> (\<forall>(s, h) \<in> set hs. h \<noteq> Idle)"

text \<open>Every record and every owner is where the placement puts the chunk; an owner that is not in the index is being deleted.\<close>

definition anchored :: "(ChunkId \<Rightarrow> u64) \<Rightarrow> TargetRouter \<Rightarrow> target_hold \<Rightarrow> bool" where
  "anchored \<sigma> t H \<longleftrightarrow>
     (\<forall>c r. engine_index (tr_engine t) c = Some r \<longrightarrow> home_slot t r = \<sigma> c)
     \<and> (\<forall>s c r. slot_owner t s = Some (c, r) \<longrightarrow> s = \<sigma> c \<and> (engine_index (tr_engine t) c \<noteq> None \<or> H s = Retired c \<or> H s = Cleared c))
     \<and> (\<forall>s c r. H s = Published c r \<longrightarrow> s = \<sigma> c \<and> engine_index (tr_engine t) c \<noteq> None)"

text \<open>The slots that a list of holds names, and that the target holds them so.\<close>

abbreviation held :: "(u64 \<times> slot_hold) list \<Rightarrow> u64 set" where
  "held hs \<equiv> fst ` set hs"

definition agrees :: "target_hold \<Rightarrow> (u64 \<times> slot_hold) list \<Rightarrow> bool" where
  "agrees H hs \<longleftrightarrow> distinct (map fst hs) \<and> (\<forall>(s, h) \<in> set hs. H s = h)"

definition here :: "(u8 list \<Rightarrow> u32) \<Rightarrow> (ChunkId \<Rightarrow> u64) \<Rightarrow> phase \<Rightarrow> TargetRouter \<Rightarrow> target_hold \<Rightarrow> ChunkId set \<Rightarrow> bool" where
  "here crc \<sigma> ph t H X \<longleftrightarrow> target_ok crc t H X \<and> anchored \<sigma> t H \<and> phase_ok \<sigma> t ph \<and> agrees H (phase_holds ph)"

section \<open>What a step does\<close>

datatype event = Silent | Puts job | Spoils ChunkId | Drops ChunkId

definition event :: "phase \<Rightarrow> phase \<Rightarrow> event" where
  "event ph ph' =
     (case ph of
        Write_Publish j _ _ \<Rightarrow> (case ph' of Write_Commit _ _ _ \<Rightarrow> Puts j | _ \<Rightarrow> Silent)
      | Pack_Upsert j _ _ _ _ \<Rightarrow> (case ph' of Pack_Commit _ _ _ _ _ \<Rightarrow> Puts j | _ \<Rightarrow> Silent)
      | Delete_Media c _ _ _ \<Rightarrow> Spoils c
      | Delete_Retire c _ _ \<Rightarrow> (case ph' of Delete_Clear _ _ _ \<Rightarrow> Drops c | _ \<Rightarrow> Silent)
      | _ \<Rightarrow> Silent)"

definition put_effect :: "job \<Rightarrow> TargetRouter \<Rightarrow> ChunkId set \<Rightarrow> TargetRouter \<Rightarrow> ChunkId set \<Rightarrow> bool" where
  "put_effect j t X t' X' \<longleftrightarrow>
     contents t' = spec_put (jb_chunk j) (jb_generation j) (jb_body j) (contents t)
     \<and> X' = (if superseded t (jb_chunk j) (jb_generation j) then X else X - {jb_chunk j})"

fun happens :: "event \<Rightarrow> TargetRouter \<Rightarrow> ChunkId set \<Rightarrow> TargetRouter \<Rightarrow> ChunkId set \<Rightarrow> bool" where
  "happens Silent t X t' X' \<longleftrightarrow> contents t' = contents t \<and> X' = X"
| "happens (Puts j) t X t' X' \<longleftrightarrow> put_effect j t X t' X'"
| "happens (Spoils c) t X t' X' \<longleftrightarrow>
     (\<forall>c'. c' \<noteq> c \<longrightarrow> contents t' c' = contents t c') \<and> map_option fst (contents t' c) = map_option fst (contents t c) \<and> X' = insert c X"
| "happens (Drops c) t X t' X' \<longleftrightarrow> contents t' = (contents t)(c := None) \<and> X' = X"

text \<open>Only slots that the request has, or takes from idle, change their hold.\<close>

definition moved :: "(u64 \<times> slot_hold) list \<Rightarrow> (u64 \<times> slot_hold) list \<Rightarrow> target_hold \<Rightarrow> target_hold \<Rightarrow> bool" where
  "moved hs hs' H H' \<longleftrightarrow>
     (\<forall>s. s \<notin> held hs' \<longrightarrow> H' s = (if s \<in> held hs then Idle else H s)) \<and> (\<forall>s. s \<in> held hs' \<longrightarrow> s \<notin> held hs \<longrightarrow> H s = Idle)"

text \<open>What other requests rely on: owners of their slots, bytes of records there.\<close>

definition undisturbed :: "u64 set \<Rightarrow> TargetRouter \<Rightarrow> TargetRouter \<Rightarrow> bool" where
  "undisturbed S t t' \<longleftrightarrow> tr_media t' = tr_media t \<and> length (tr_slots t') = length (tr_slots t)
     \<and> (\<forall>s. s \<notin> S \<longrightarrow> slot_owner t' s = slot_owner t s)
     \<and> (\<forall>r. placed t r \<longrightarrow> home_slot t r \<notin> S \<longrightarrow> stored_bytes t' r = stored_bytes t r)"

definition advances :: "(u8 list \<Rightarrow> u32) \<Rightarrow> (ChunkId \<Rightarrow> u64) \<Rightarrow> phase \<Rightarrow> TargetRouter \<Rightarrow> target_hold \<Rightarrow> ChunkId set
    \<Rightarrow> phase \<Rightarrow> TargetRouter \<Rightarrow> target_hold \<Rightarrow> ChunkId set \<Rightarrow> bool" where
  "advances crc \<sigma> ph t H X ph' t' H' X' \<longleftrightarrow>
     here crc \<sigma> ph' t' H' X' \<and> moved (phase_holds ph) (phase_holds ph') H H' \<and> undisturbed (held (phase_holds ph)) t t'
     \<and> happens (event ph ph') t X t' X'"

section \<open>Other requests\<close>

lemma undisturbed_fields:
  assumes "undisturbed S t t'"
  shows "tr_media t' = tr_media t" "router_drive t' = router_drive t" "placed t' r = placed t r" "slot_exists t' s = slot_exists t s"
    "victim_ok \<sigma> t' c r = victim_ok \<sigma> t c r"
  using assms by (simp_all add: undisturbed_def router_drive_def placed_def victim_ok_def)

lemma reserved_frame: "undisturbed S t t' \<Longrightarrow> jb_slot j \<notin> S \<Longrightarrow> reserved_as t' j rv = reserved_as t j rv"
  by (simp add: undisturbed_def reserved_as_def)

lemma free_frame: "undisturbed S t t' \<Longrightarrow> jb_slot j \<notin> S \<Longrightarrow> free_for t' j = free_for t j"
  by (simp add: undisturbed_def)

lemma written_frame:
  assumes "undisturbed S t t'" "written_as t j r" "jb_slot j \<notin> S"
  shows "written_as t' j r"
  using assms undisturbed_fields [OF assms(1)] by (auto simp: written_as_def) (auto simp: undisturbed_def)

lemma stage_frame:
  assumes "undisturbed S t t'" "stage_ok \<sigma> t x" "held (stage_hold k x) \<inter> S = {}"
  shows "stage_ok \<sigma> t' x"
  using assms reserved_frame [OF assms(1)] written_frame [OF assms(1)] by (cases x) auto

lemma stages_frame:
  assumes "undisturbed S t t'" "list_all (stage_ok \<sigma> t) staged" "held (stage_holds k staged) \<inter> S = {}"
  shows "list_all (stage_ok \<sigma> t') staged"
  using assms stage_frame [OF assms(1), of \<sigma> _ k] by (fastforce simp: list_all_iff stage_holds_def)

lemma phase_frame:
  assumes u: "undisturbed S t t'"
  shows "phase_ok \<sigma> t ph \<Longrightarrow> held (phase_holds ph) \<inter> S = {} \<Longrightarrow> phase_ok \<sigma> t' ph"
proof (induction ph)
  case (Pack_Publish err staged rs)
  then show ?case using stages_frame [OF u] by simp
qed (auto simp: undisturbed_fields [OF u] reserved_frame [OF u] free_frame [OF u] intro: written_frame [OF u] stages_frame [OF u])

section \<open>Holds\<close>

lemma agreesD: "agrees H hs \<Longrightarrow> (s, h) \<in> set hs \<Longrightarrow> H s = h"
  by (auto simp: agrees_def)

lemma agrees_Cons: "agrees H ((s, h) # hs) \<longleftrightarrow> s \<notin> held hs \<and> H s = h \<and> agrees H hs"
  by (auto simp: agrees_def)

lemma agrees_Nil [simp]: "agrees H []"
  by (simp add: agrees_def)

lemma agrees_upd: "agrees H hs \<Longrightarrow> s \<notin> held hs \<Longrightarrow> agrees (H(s := h)) hs"
  by (force simp: agrees_def)

lemma moved_refl: "agrees H hs \<Longrightarrow> moved hs hs H H"
  by (simp add: moved_def)

lemma moved_replace: "moved ((s, h) # hs) ((s, h') # hs) H (H(s := h'))"
  by (auto simp: moved_def)

lemma moved_release: "agrees H ((s, h) # hs) \<Longrightarrow> moved ((s, h) # hs) hs H (H(s := Idle))"
  by (auto simp: moved_def agrees_Cons)

lemma moved_acquire: "H s = Idle \<Longrightarrow> moved hs ((s, h) # hs) H (H(s := h))"
  by (auto simp: moved_def)

lemma moved_cong: "held hs1 = held hs \<Longrightarrow> held hs1' = held hs' \<Longrightarrow> moved hs1 hs1' H H' = moved hs hs' H H'"
  by (simp add: moved_def)

lemma agrees_snoc: "agrees H (hs @ [x]) = agrees H (x # hs)"
  by (auto simp: agrees_def)

lemma stage_holds_simps [simp]:
  "stage_holds k [] = []" "stage_holds k (Skipped reply # staged) = stage_holds k staged"
  "stage_holds k (Staged j rv r # staged) = (jb_slot j, k (jb_chunk j) r) # stage_holds k staged"
  "stage_holds k (staged @ [Skipped reply]) = stage_holds k staged"
  "stage_holds k (staged @ [Staged j rv r]) = stage_holds k staged @ [(jb_slot j, k (jb_chunk j) r)]"
  by (simp_all add: stage_holds_def)

lemma stage_holds_busy:
  assumes "\<forall>c r. k c r \<noteq> Idle"
  shows "(s, h) \<in> set (stage_holds k staged) \<Longrightarrow> h \<noteq> Idle"
proof (induction staged)
  case (Cons x staged)
  then show ?case using assms by (cases x) (auto, metis)
qed simp

lemma revocable_busy: "revocable h \<Longrightarrow> h \<noteq> Idle"
  by (cases h) simp_all

lemma phase_busy: "phase_ok \<sigma> t ph \<Longrightarrow> (s, h) \<in> set (phase_holds ph) \<Longrightarrow> h \<noteq> Idle"
proof (induction ph)
  case (Pack_Publish err staged rs)
  then show ?case using stage_holds_busy [of Filled s h staged] stage_holds_busy [of Loaded s h staged] by (simp split: if_splits)
qed (auto dest: stage_holds_busy [of Filled, simplified] stage_holds_busy [of Loaded, simplified] revocable_busy)

lemma idle_not_held:
  assumes "here crc \<sigma> ph t H X" "H s = Idle"
  shows "s \<notin> held (phase_holds ph)"
proof
  assume "s \<in> held (phase_holds ph)"
  then obtain h where "(s, h) \<in> set (phase_holds ph)" by auto
  then show False using assms phase_busy [of \<sigma> t ph s h] agreesD [of H "phase_holds ph" s h] by (auto simp: here_def)
qed

section \<open>Kinds of steps\<close>

lemma undisturbed_refl [simp]: "undisturbed S t t"
  by (simp add: undisturbed_def)

lemma undisturbed_mono: "undisturbed S t t' \<Longrightarrow> S \<subseteq> S' \<Longrightarrow> undisturbed S' t t'"
  by (auto simp: undisturbed_def)

lemma undisturbed_engine [simp]: "undisturbed S t (t\<lparr>tr_engine := e\<rparr>)"
  by (simp add: undisturbed_def)

lemma undisturbed_modify: "undisturbed {slot} t (modify_slot slot f t)"
proof -
  have "slot_owner (modify_slot slot f t) s = slot_owner t s" if "s \<noteq> slot" for s
    using that by (simp add: slot_owner_def nth_modify_slot)
  then show ?thesis by (simp add: undisturbed_def)
qed

lemma undisturbed_claim: "undisturbed S t (modify_slot slot (\<lambda>s. s\<lparr>sp_busy := True\<rparr>) t)"
  by (auto simp: undisturbed_def slot_owner_def nth_modify_slot)

lemma placed_lane:
  assumes "target_ok crc t H X" "placed t r"
  shows "is_lane (handle_layout (tr_media t)) (lane_nat (record_home (handle_layout (tr_media t)) r))"
proof -
  have "media_ready crc (cfg_span (h_config (tr_media t))) (h_superblock (tr_media t)) (tr_device t)"
    using assms(1) by (simp add: target_ok_def parts_ok_def media_up_def)
  from record_lane_is_lane [OF media_ready_layout(2) [OF this]] assms(2) show ?thesis by (simp add: placed_def handle_layout_def)
qed

lemma undisturbed_device:
  assumes "target_ok crc t H X"
    "\<And>q. is_lane (handle_layout (tr_media t)) (lane_nat q) \<Longrightarrow> fst q \<notin> S \<Longrightarrow> lane_kept (tr_media t) (tr_device t) d' (lane_nat q)"
  shows "undisturbed S t (t\<lparr>tr_device := d'\<rparr>)"
  using assms(2) stored_bytes_kept placed_lane [OF assms(1)] by (auto simp: undisturbed_def)

text \<open>The ways the holds of a request change: not at all, one slot goes on, one slot ends, one slot begins.\<close>

lemma advance_stay:
  assumes "here crc \<sigma> ph t H X" "phase_holds ph' = phase_holds ph" "target_ok crc t' H X'" "anchored \<sigma> t' H" "phase_ok \<sigma> t' ph'"
    "undisturbed {} t t'" "happens (event ph ph') t X t' X'"
  shows "advances crc \<sigma> ph t H X ph' t' H X'"
  using assms moved_refl [of H "phase_holds ph"] undisturbed_mono [of "{}" t t'] by (simp add: advances_def here_def)

lemma advance_replace:
  assumes "here crc \<sigma> ph t H X" "phase_holds ph = (s, h) # hs" "phase_holds ph' = (s, h') # hs" "target_ok crc t' (H(s := h')) X'"
    "anchored \<sigma> t' (H(s := h'))" "phase_ok \<sigma> t' ph'" "undisturbed {s} t t'" "happens (event ph ph') t X t' X'"
  shows "advances crc \<sigma> ph t H X ph' t' (H(s := h')) X'"
  using assms moved_replace [of s h hs h' H] undisturbed_mono [of "{s}" t t'] agrees_upd [of H hs s h']
  by (simp add: advances_def here_def agrees_Cons)

lemma advance_release:
  assumes "here crc \<sigma> ph t H X" "phase_holds ph = (s, h) # hs" "phase_holds ph' = hs" "target_ok crc t' (H(s := Idle)) X'"
    "anchored \<sigma> t' (H(s := Idle))" "phase_ok \<sigma> t' ph'" "undisturbed {s} t t'" "happens (event ph ph') t X t' X'"
  shows "advances crc \<sigma> ph t H X ph' t' (H(s := Idle)) X'"
  using assms moved_release [of H s h hs] undisturbed_mono [of "{s}" t t'] agrees_upd [of H hs s Idle]
  by (simp add: advances_def here_def agrees_Cons)

lemma advance_acquire:
  assumes "here crc \<sigma> ph t H X" "H s = Idle" "phase_holds ph' = (s, h) # phase_holds ph" "target_ok crc t' (H(s := h)) X'"
    "anchored \<sigma> t' (H(s := h))" "phase_ok \<sigma> t' ph'" "undisturbed {} t t'" "happens (event ph ph') t X t' X'"
  shows "advances crc \<sigma> ph t H X ph' t' (H(s := h)) X'"
  using assms moved_acquire [of H s "phase_holds ph" h] undisturbed_mono [of "{}" t t'] agrees_upd [of H "phase_holds ph" s h]
    idle_not_held [of crc \<sigma> ph t H X s]
  by (simp add: advances_def here_def agrees_Cons)

text \<open>The anchors, while index and owners stay.\<close>

lemma anchored_upd:
  assumes "anchored \<sigma> t H" "tr_media t' = tr_media t" "engine_index (tr_engine t') = engine_index (tr_engine t)" "slot_owner t' = slot_owner t"
    "\<And>c. H s = Retired c \<or> H s = Cleared c \<Longrightarrow> h = Retired c \<or> h = Cleared c" "\<And>c r. h \<noteq> Published c r"
  shows "anchored \<sigma> t' (H(s := h))"
  using assms by (simp add: anchored_def) metis

lemma anchored_same:
  assumes "anchored \<sigma> t H" "tr_media t' = tr_media t" "engine_index (tr_engine t') = engine_index (tr_engine t)" "slot_owner t' = slot_owner t"
  shows "anchored \<sigma> t' H"
  using assms by (simp add: anchored_def)


section \<open>Steps on the target\<close>

lemma lookup_step:
  assumes "target_ok crc t H X"
  shows "st_bind (slot_publication s) (\<lambda>_. kix_lookup c) t =
    (if slot_exists t s then (Inr (engine_index (tr_engine t) c), t) else (Inl (service_error BAD_REQUEST True), t))"
  using kix_lookup_run [OF assms] by (simp add: st_bind_def slot_publication_def)

lemma reserve_step:
  assumes ok: "target_ok crc t H X" and a: "anchored \<sigma> t H" and s: "slot_exists t (jb_slot j)"
    and run: "reserve_with (jb_slot j) cur t = (Inr rv, t')"
  shows "H (jb_slot j) = Idle" "target_ok crc t' (H(jb_slot j := Reserved (rv_lane rv))) X" "anchored \<sigma> t' (H(jb_slot j := Reserved (rv_lane rv)))"
    "undisturbed {} t t'" "contents t' = contents t" "reserved_as t' j rv"
proof -
  note st = reserve_with_step [OF ok s run]
  show i: "H (jb_slot j) = Idle" "target_ok crc t' (H(jb_slot j := Reserved (rv_lane rv))) X" using st by blast+
  show "anchored \<sigma> t' (H(jb_slot j := Reserved (rv_lane rv)))" using a st(2,3,5) i(1) by (intro anchored_upd [OF a]) simp_all
  have "stored_bytes t' r = stored_bytes t r" for r using st(3,4) by (intro stored_bytes_cong) simp_all
  then show "undisturbed {} t t'" using st(3,5,10) by (simp add: undisturbed_def)
  show "contents t' = contents t" using st(2-4) by (intro ext contents_cong) simp_all
  show "reserved_as t' j rv" using st(5,8) by (simp add: reserved_as_def)
qed

lemma reserve_fails:
  assumes "target_ok crc t H X" "slot_exists t s" "reserve_with s cur t = (Inl e, t')"
  shows "t' = t" "e = Waiting \<longleftrightarrow> H s \<noteq> Idle"
  using reserve_with_cases [OF assms] by auto

lemma media_target:
  assumes ok: "target_ok crc t H X" and a: "anchored \<sigma> t H" and j: "job_ok \<sigma> j" and h: "H (jb_slot j) = Reserved lane"
    and run: "write_lane crc (jb_slot j) lane (jb_chunk j) (jb_generation j) (jb_identity j) (jb_body j) t = (res, t')"
  shows "target_ok crc t' H X" "anchored \<sigma> t' H" "undisturbed {jb_slot j} t t'" "contents t' = contents t" "slot_owner t' = slot_owner t"
    "tr_engine t' = tr_engine t"
    "res = Inr r \<Longrightarrow> target_ok crc t' (H(jb_slot j := Filled (jb_chunk j) r)) X \<and> written_as t' j r"
proof -
  have c: "chunk_id_ok (jb_chunk j)" using j by (simp add: job_ok_def)
  note w = write_lane_step [OF ok h c run] and wc = write_lane_contents [OF ok h c run]
  show "target_ok crc t' H X" "contents t' = contents t" "slot_owner t' = slot_owner t" "tr_engine t' = tr_engine t" using w(2) wc by blast+
  show "anchored \<sigma> t' H" using wc by (intro anchored_same [OF a]) simp_all
  from w(1) obtain d' where t': "t' = t\<lparr>tr_device := d'\<rparr>"
    and k: "\<And>q. is_lane (handle_layout (tr_media t)) (lane_nat q) \<Longrightarrow> q \<noteq> (jb_slot j, lane) \<Longrightarrow> lane_kept (tr_media t) (tr_device t) d' (lane_nat q)" by blast
  show "undisturbed {jb_slot j} t t'" unfolding t' by (rule undisturbed_device [OF ok k]) auto
  show "target_ok crc t' (H(jb_slot j := Filled (jb_chunk j) r)) X \<and> written_as t' j r" if "res = Inr r"
    using w(3) [OF that] write_lane_stored [OF ok h c run [unfolded that]] wc(3)
    by (simp add: written_as_def placed_def router_drive_def lane_nat_def)
qed

lemma sync_step:
  assumes ok: "target_ok crc t H X" and a: "anchored \<sigma> t H" and run: "on_media handle_fdatasync t = (res, t')"
  shows "target_ok crc t' H X" "anchored \<sigma> t' H" "undisturbed {} t t'" "contents t' = contents t" "slot_owner t' = slot_owner t" "tr_engine t' = tr_engine t"
    "res = Inr u \<Longrightarrow> dev_durable (tr_device t') = dev_bytes (tr_device t')"
proof -
  note b = barrier_step [OF ok run] and bc = barrier_contents [OF ok run]
  show "target_ok crc t' H X" "contents t' = contents t" "slot_owner t' = slot_owner t" "tr_engine t' = tr_engine t" using b(2) bc by blast+
  show "anchored \<sigma> t' H" using bc by (intro anchored_same [OF a]) simp_all
  have "length (tr_slots t') = length (tr_slots t)" using b(1) by auto
  then show "undisturbed {} t t'" using bc by (simp add: undisturbed_def)
qed (rule barrier_step(3) [OF ok run])


text \<open>After the barrier of a pack, all its lanes are durable.\<close>

fun flush_holds :: "stage list \<Rightarrow> target_hold \<Rightarrow> target_hold" where
  "flush_holds [] H = H"
| "flush_holds (Staged j rv r # staged) H = flush_holds staged (H(jb_slot j := Loaded (jb_chunk j) r))"
| "flush_holds (Skipped reply # staged) H = flush_holds staged H"

lemma flush_all:
  assumes "target_ok crc t H X" "anchored \<sigma> t H" "dev_durable (tr_device t) = dev_bytes (tr_device t)" "agrees H (stage_holds Filled staged)"
  shows "target_ok crc t (flush_holds staged H) X \<and> anchored \<sigma> t (flush_holds staged H)"
  using assms(1,2,4)
proof (induction staged arbitrary: H)
  case (Cons x staged)
  show ?case
  proof (cases x)
    case (Staged j rv r)
    have h: "H (jb_slot j) = Filled (jb_chunk j) r" "jb_slot j \<notin> held (stage_holds Filled staged)" "agrees H (stage_holds Filled staged)"
      using Cons.prems(3) by (simp_all add: Staged agrees_Cons)
    have "anchored \<sigma> t (H(jb_slot j := Loaded (jb_chunk j) r))" using h(1) by (intro anchored_upd [OF Cons.prems(2)]) simp_all
    from Cons.IH [OF flushed_step [OF Cons.prems(1) assms(3) h(1)] this agrees_upd [OF h(3,2)]]
    show ?thesis unfolding Staged flush_holds.simps .
  qed (use Cons in simp)
qed simp

lemma held_stages: "held (stage_holds k staged) = held (stage_holds k' staged)"
proof (induction staged)
  case (Cons x staged)
  then show ?case by (cases x) simp_all
qed simp

lemma flush_agrees: "agrees H (stage_holds Filled staged) \<Longrightarrow> agrees (flush_holds staged H) (stage_holds Loaded staged)
    \<and> (\<forall>s. s \<notin> held (stage_holds Loaded staged) \<longrightarrow> flush_holds staged H s = H s)"
proof (induction staged arbitrary: H)
  case (Cons x staged)
  show ?case
  proof (cases x)
    case (Staged j rv r)
    define K where "K = H(jb_slot j := Loaded (jb_chunk j) r)"
    have h: "jb_slot j \<notin> held (stage_holds Filled staged)" "agrees K (stage_holds Filled staged)"
      using Cons.prems by (auto simp: Staged agrees_Cons K_def intro: agrees_upd)
    have k: "K (jb_slot j) = Loaded (jb_chunk j) r" "\<And>s. s \<noteq> jb_slot j \<Longrightarrow> K s = H s" by (simp_all add: K_def)
    from Cons.IH [OF h(2)] h(1) k
    show ?thesis unfolding Staged flush_holds.simps stage_holds_simps agrees_Cons held_stages [of Filled staged Loaded] K_def [symmetric] by auto
  qed (use Cons in simp)
qed simp

lemma anchoredD:
  assumes "anchored \<sigma> t H"
  shows "engine_index (tr_engine t) c = Some r \<Longrightarrow> home_slot t r = \<sigma> c"
    "slot_owner t s = Some (c, r) \<Longrightarrow> s = \<sigma> c \<and> (engine_index (tr_engine t) c \<noteq> None \<or> H s = Retired c \<or> H s = Cleared c)"
    "H s = Published c r \<Longrightarrow> s = \<sigma> c \<and> engine_index (tr_engine t) c \<noteq> None"
  using assms by (simp_all add: anchored_def) metis+

lemma anchored_rejoins:
  assumes "anchored \<sigma> t H" "job_ok \<sigma> j" "H (jb_slot j) = Loaded (jb_chunk j) r"
  shows "rejoins generation (jb_chunk j) g (target_view t H X)"
  unfolding rejoins_def
proof (intro impI allI)
  fix s r' assume n: "pu_index (target_view t H X) (jb_chunk j) = None"
    and "pu_owner (target_view t H X) s = Some (jb_chunk j, r') \<or> pu_hold (target_view t H X) s = Published (jb_chunk j) r'"
  then have "slot_owner t s = Some (jb_chunk j, r') \<or> H s = Published (jb_chunk j) r'" by (simp add: target_view_def)
  moreover have "engine_index (tr_engine t) (jb_chunk j) = None" using n by (simp add: target_view_def)
  ultimately have "H (jb_slot j) = Retired (jb_chunk j) \<or> H (jb_slot j) = Cleared (jb_chunk j)"
    using anchoredD(2) [OF assms(1), of s "jb_chunk j" r'] anchoredD(3) [OF assms(1), of s "jb_chunk j" r'] assms(2) by (auto simp: job_ok_def)
  then show "generation r' \<le> g" using assms(3) by simp
qed

lemma put_step:
  assumes ok: "target_ok crc t H X" and a: "anchored \<sigma> t H" and j: "job_ok \<sigma> j" and h: "H (jb_slot j) = Loaded (jb_chunk j) r"
    and w: "written_as t j r" and f: "free_for t j" and run: "client_call (kix_upsert crc (jb_chunk j) (jb_slot j) r) t = (Inr u, t')"
  shows "\<exists>X'. target_ok crc t' (H(jb_slot j := Published (jb_chunk j) r)) X' \<and> put_effect j t X t' X'"
    "anchored \<sigma> t' (H(jb_slot j := Published (jb_chunk j) r))" "slot_owner t' = slot_owner t" "undisturbed S t t'"
proof -
  have r: "drive_id r = router_drive t" "record_lane (handle_layout (tr_media t)) r = Some (lane_nat (record_home (handle_layout (tr_media t)) r))"
    and g: "generation r = jb_generation j" "stored_bytes t r = jb_body j" "home_slot t r = jb_slot j" "chunk_id_ok (jb_chunk j)" "jb_slot j = \<sigma> (jb_chunk j)"
    using w j by (simp_all add: written_as_def placed_def job_ok_def)
  note p = publish_contents [OF ok h f anchored_rejoins [OF a j h] r g(4) run [unfolded unit_eq [of u]]]
  from p(1,2) show "\<exists>X'. target_ok crc t' (H(jb_slot j := Published (jb_chunk j) r)) X' \<and> put_effect j t X t' X'"
    unfolding put_effect_def g(1,2) by blast
  from p(3) obtain e' where e': "t' = t\<lparr>tr_engine := e'\<rparr>"
    and ix: "engine_index e' = (engine_index (tr_engine t))(jb_chunk j := Some (fenced generation r (engine_index (tr_engine t) (jb_chunk j))))" by blast
  then show "slot_owner t' = slot_owner t" "undisturbed S t t'" by simp_all
  have "home_slot t r' = \<sigma> c" if "engine_index e' c = Some r'" for c r'
    using that anchoredD(1) [OF a] g(3,5) by (auto simp: ix fenced_def split: if_splits option.splits)
  moreover have "s = \<sigma> c \<and> (engine_index e' c \<noteq> None \<or> (H(jb_slot j := Published (jb_chunk j) r)) s = Retired c \<or> (H(jb_slot j := Published (jb_chunk j) r)) s = Cleared c)"
    if "slot_owner t s = Some (c, r')" for s c r'
    using anchoredD(2) [OF a that] h g(5) by (auto simp: ix)
  moreover have "s = \<sigma> c \<and> engine_index e' c \<noteq> None" if "(H(jb_slot j := Published (jb_chunk j) r)) s = Published c r'" for s c r'
    using that anchoredD(3) [OF a, of s c r'] g(5) by (auto simp: ix split: if_splits)
  ultimately show "anchored \<sigma> t' (H(jb_slot j := Published (jb_chunk j) r))" by (simp add: e' anchored_def)
qed


lemma put_fails:
  assumes ok: "target_ok crc t H X" and a: "anchored \<sigma> t H" and c: "chunk_id_ok c" and run: "client_call (kix_upsert crc c slot r) t = (Inl e, t')"
  shows "target_ok crc t' H X" "anchored \<sigma> t' H" "contents t' = contents t" "undisturbed S t t'"
proof -
  note p = publish_failed [OF ok c run]
  show "target_ok crc t' H X" "contents t' = contents t" using p by blast+
  show "anchored \<sigma> t' H" using p by (intro anchored_same [OF a]) simp_all
  from run show "undisturbed S t t'" by (cases rule: client_call_cases) simp_all
qed

lemma commit_target:
  assumes ok: "target_ok crc t H X" and a: "anchored \<sigma> t H" and j: "job_ok \<sigma> j" and h: "H (jb_slot j) = Published (jb_chunk j) r"
  defines "t' \<equiv> modify_slot (jb_slot j) (commit \<lparr>po_chunk_id = jb_chunk j, po_record = r\<rparr>) t"
  shows "target_ok crc t' (H(jb_slot j := Idle)) X" "anchored \<sigma> t' (H(jb_slot j := Idle))" "undisturbed {jb_slot j} t t'" "contents t' = contents t"
proof -
  note cs = commit_slot_step [OF ok h, folded t'_def]
  show "target_ok crc t' (H(jb_slot j := Idle)) X" by (rule cs(1))
  show u: "undisturbed {jb_slot j} t t'" "contents t' = contents t" unfolding t'_def by (simp_all add: undisturbed_modify)
  have g: "jb_slot j = \<sigma> (jb_chunk j)" "engine_index (tr_engine t) (jb_chunk j) \<noteq> None" using anchoredD(3) [OF a h] by simp_all
  have f: "tr_engine t' = tr_engine t" "tr_media t' = tr_media t" by (simp_all add: t'_def)
  have own: "s = \<sigma> c \<and> (engine_index (tr_engine t') c \<noteq> None \<or> (H(jb_slot j := Idle)) s = Retired c \<or> (H(jb_slot j := Idle)) s = Cleared c)"
    if o: "slot_owner t' s = Some (c, r')" for s c r'
  proof (cases "s = jb_slot j")
    case True
    then have "(c, r') = (jb_chunk j, r) \<or> slot_owner t s = Some (c, r')" using o cs(2) by (auto simp: fenced_def split: option.splits if_splits)
    then show ?thesis
    proof
      assume "slot_owner t s = Some (c, r')"
      from anchoredD(2) [OF a this] h True show ?thesis by (auto simp: f)
    qed (use g True f in auto)
  next
    case False
    then have "slot_owner t s = Some (c, r')" using u(1) o by (simp add: undisturbed_def)
    from anchoredD(2) [OF a this] False show ?thesis by (auto simp: f)
  qed
  have pub: "s = \<sigma> c \<and> engine_index (tr_engine t') c \<noteq> None" if "(H(jb_slot j := Idle)) s = Published c r'" for s c r'
    using that anchoredD(3) [OF a, of s c r'] f by (simp split: if_splits)
  have "home_slot t' r' = \<sigma> c" if "engine_index (tr_engine t') c = Some r'" for c r'
    using that anchoredD(1) [OF a] by (simp add: f)
  with own pub show "anchored \<sigma> t' (H(jb_slot j := Idle))" unfolding anchored_def by blast
qed

lemma undo_step:
  assumes ok: "target_ok crc t H X" and a: "anchored \<sigma> t H" and h: "H s = h" "revocable h"
  defines "t' \<equiv> modify_slot s rollback t"
  shows "target_ok crc t' (H(s := Idle)) X" "anchored \<sigma> t' (H(s := Idle))" "undisturbed {s} t t'" "contents t' = contents t"
proof -
  show "undisturbed {s} t t'" "contents t' = contents t" unfolding t'_def by (simp_all add: undisturbed_modify)
  show "target_ok crc t' (H(s := Idle)) X"
    unfolding t'_def using h(2) rollback_slot_step [OF ok, of s _ _ _ rollback] h(1) by (cases h) auto
  have "slot_owner t' = slot_owner t" by (auto simp: t'_def slot_owner_def nth_modify_slot rollback_def fun_eq_iff)
  then show "anchored \<sigma> t' (H(s := Idle))"
    using h by (intro anchored_upd [OF a]) (simp_all add: t'_def, cases h, simp_all)
qed


text \<open>A delete claims the slot; if it finds another owner there, it is as a writer that will not write.\<close>

lemma busy_step:
  assumes ok: "target_ok crc t H X" and s: "slot_exists t slot" and h: "H slot = Idle"
  defines "t' \<equiv> modify_slot slot (\<lambda>s. s\<lparr>sp_busy := True\<rparr>) t"
  shows "target_ok crc t' (H(slot := Reserved (other_lane t slot))) X"
proof -
  let ?l = "handle_layout (tr_media t)" and ?lane = "other_lane t slot"
  have away: "record_home ?l r \<noteq> (slot, ?lane)" if "slot_owner t slot = Some (c, r)" for c r
    using that by (cases "record_home ?l r") (auto simp: other_lane_def)
  have "pub_step (record_home ?l) generation (copy_of crc ?l) (target_view t H X)
      ((target_view t H X)\<lparr>pu_hold := (pu_hold (target_view t H X))(slot := Reserved ?lane)\<rparr>)"
    by (intro pub_step.reserve) (use h away in \<open>simp_all add: target_view_def\<close>)
  then show ?thesis
    unfolding t'_def using modify_step [OF ok s, of "\<lambda>s. s\<lparr>sp_busy := True\<rparr>" "Reserved ?lane"] same_owner [OF s, of "\<lambda>s. s\<lparr>sp_busy := True\<rparr>"]
    by (simp add: target_view_def)
qed

lemma claim_cases:
  assumes ok: "target_ok crc t H X" and a: "anchored \<sigma> t H" and v: "victim_ok \<sigma> t c r" "slot = \<sigma> c"
    and run: "st_bind (slot_publication slot) (\<lambda>_. on_slot slot begin_delete) t = (res, t')"
  obtains (waits) "res = Inl Waiting" "H slot \<noteq> Idle"
  | (refused) e where "res = Inl (Refused e)" "t' = t"
  | (claimed) owner where "res = Inr owner" "H slot = Idle" "undisturbed {} t t'" "contents t' = contents t"
      "(case owner of Some x \<Rightarrow> po_chunk_id x \<noteq> c | None \<Rightarrow> False) \<Longrightarrow> target_ok crc t' (H(slot := Reserved (other_lane t slot))) X"
      "\<not> (case owner of Some x \<Rightarrow> po_chunk_id x \<noteq> c | None \<Rightarrow> False) \<Longrightarrow> target_ok crc t' (H(slot := Deleting c r)) X"
      "\<And>h. (\<And>c r. h \<noteq> Published c r) \<Longrightarrow> anchored \<sigma> t' (H(slot := h))"
proof (cases "slot_exists t slot")
  case s: True
  have b: "on_slot slot begin_delete t = (res, t')" using run s by (simp add: st_bind_def slot_publication_def)
  from begin_delete_cases [OF ok b s] show thesis
  proof
    assume i: "res = Inr (sp_current (tr_slots t ! unat slot)) \<and> H slot = Idle \<and> t' = modify_slot slot (\<lambda>s. s\<lparr>sp_busy := True\<rparr>) t"
    then have t': "t' = modify_slot slot (\<lambda>s. s\<lparr>sp_busy := True\<rparr>) t" and h: "H slot = Idle" by simp_all
    have o: "slot_owner t' = slot_owner t" by (auto simp: t' slot_owner_def nth_modify_slot fun_eq_iff)
    have on: "only c (slot_owner t slot)" if "\<not> (case sp_current (tr_slots t ! unat slot) of Some x \<Rightarrow> po_chunk_id x \<noteq> c | None \<Rightarrow> False)"
      using that by (auto simp: owner_option [OF s] only_def split: option.splits)
    have r: "home_slot t r = slot" using v by (simp add: victim_ok_def)
    show thesis
    proof (rule claimed [of "sp_current (tr_slots t ! unat slot)"])
      show "target_ok crc t' (H(slot := Reserved (other_lane t slot))) X" unfolding t' by (rule busy_step [OF ok s h])
      show "target_ok crc t' (H(slot := Deleting c r)) X"
        if "\<not> (case sp_current (tr_slots t ! unat slot) of Some x \<Rightarrow> po_chunk_id x \<noteq> c | None \<Rightarrow> False)"
        unfolding t' by (rule claim_step [OF ok s h r on [OF that]])
      show "anchored \<sigma> t' (H(slot := h'))" if "\<And>c r. h' \<noteq> Published c r" for h'
        using that h o by (intro anchored_upd [OF a]) (simp_all add: t')
    qed (use i in \<open>simp_all add: t' undisturbed_claim\<close>)
  qed (use waits in auto)
next
  case False
  then have "res = Inl (service_error BAD_REQUEST True)" "t' = t" using run by (simp_all add: st_bind_def slot_publication_def)
  then show thesis using refused by (simp add: service_error_def)
qed

lemma spoil_step:
  assumes ok: "target_ok crc t H X" and a: "anchored \<sigma> t H" and v: "victim_ok \<sigma> t c r" "slot = \<sigma> c" and h: "H slot = Deleting c r"
    and run: "on_media (handle_write_tombstone crc (tr_media t) c r g) t = (res, t')"
  shows "target_ok crc t' H (insert c X)" "target_ok crc t' (H(slot := Tombstoned c)) (insert c X)" "undisturbed {slot} t t'"
    "anchored \<sigma> t' H" "anchored \<sigma> t' (H(slot := Tombstoned c))" "happens (Spoils c) t X t' (insert c X)"
proof -
  have c: "chunk_id_ok c" and p: "record_lane (handle_layout (tr_media t)) r = Some (lane_nat (record_home (handle_layout (tr_media t)) r))"
    and s: "home_slot t r = slot" using v by (simp_all add: victim_ok_def placed_def)
  note ts = tombstone_step [OF ok h c p run] and tc = tombstone_contents [OF ok h c p run]
  from ts(1) obtain d' where t': "t' = t\<lparr>tr_device := d'\<rparr>"
    and k: "\<And>q. is_lane (handle_layout (tr_media t)) (lane_nat q) \<Longrightarrow> lane_nat q \<noteq> lane_nat (record_home (handle_layout (tr_media t)) r)
      \<Longrightarrow> lane_kept (tr_media t) (tr_device t) d' (lane_nat q)" by blast
  have "H(slot := Deleting c r) = H" using h by (simp add: fun_upd_idem)
  then show "target_ok crc t' H (insert c X)" using ts(2) [of "Deleting c r"] by simp
  show "target_ok crc t' (H(slot := Tombstoned c)) (insert c X)" using ts(2) by simp
  show "undisturbed {slot} t t'" unfolding t'
  proof (rule undisturbed_device [OF ok k])
    show "lane_nat q \<noteq> lane_nat (record_home (handle_layout (tr_media t)) r)" if "fst q \<notin> {slot}" for q using that s lane_nat_inj by blast
  qed
  show "anchored \<sigma> t' H" by (rule anchored_same [OF a]) (simp_all add: t')
  show "anchored \<sigma> t' (H(slot := Tombstoned c))" by (rule anchored_upd [OF a]) (simp_all add: t' h)
  have "map_option fst (contents t' c) = map_option fst (contents t c)" by (simp add: contents_def t' option.map_comp comp_def)
  then show "happens (Spoils c) t X t' (insert c X)" using tc by simp
qed


lemma drop_step:
  assumes ok: "target_ok crc t H X" and a: "anchored \<sigma> t H" and h: "H slot = Tombstoned c" "slot = \<sigma> c"
    and run: "client_call (kix_delete crc c) t = (Inr u, t')"
  shows "target_ok crc t' (H(slot := Retired c)) X" "anchored \<sigma> t' (H(slot := Retired c))" "undisturbed S t t'" "contents t' = (contents t)(c := None)"
proof -
  from run obtain e' where t': "t' = t\<lparr>tr_engine := e'\<rparr>" and d: "kix_delete crc c (tr_engine t) = (Returned (Inr ()), e')"
    by (cases rule: client_call_cases) auto
  note dr = delete_retired [OF ok h(1) d]
  show "target_ok crc t' (H(slot := Retired c)) X" "undisturbed S t t'" using dr(1) by (simp_all add: t')
  show "contents t' = (contents t)(c := None)" using dr(2) by (simp add: fun_eq_iff t' engine_contents) (simp add: contents_def)
  have own: "s = \<sigma> c' \<and> (engine_index e' c' \<noteq> None \<or> (H(slot := Retired c)) s = Retired c' \<or> (H(slot := Retired c)) s = Cleared c')"
    if "slot_owner t s = Some (c', r)" for s c' r
    using anchoredD(2) [OF a that] h by (cases "c' = c") (auto simp: dr(2))
  have pub: "s = \<sigma> c' \<and> engine_index e' c' \<noteq> None" if "(H(slot := Retired c)) s = Published c' r" for s c' r
    using that anchoredD(3) [OF a, of s c' r] h by (auto simp: dr(2) split: if_splits)
  have "home_slot t r = \<sigma> c'" if "engine_index e' c' = Some r" for c' r
    using that anchoredD(1) [OF a] by (simp add: dr(2) split: if_splits)
  with own pub show "anchored \<sigma> t' (H(slot := Retired c))" unfolding anchored_def t' by simp
qed

lemma drop_fails:
  assumes ok: "target_ok crc t H X" and a: "anchored \<sigma> t H" and run: "client_call (kix_delete crc c) t = (Inl e, t')"
  shows "target_ok crc t' H X" "anchored \<sigma> t' H" "undisturbed S t t'" "contents t' = contents t"
proof -
  from run obtain e' out where t': "t' = t\<lparr>tr_engine := e'\<rparr>" and d: "kix_delete crc c (tr_engine t) = (out, e')" "out \<noteq> Returned (Inr ())"
    by (cases rule: client_call_cases) auto
  have sh: "shards_ok (tr_engine t)" using ok by (simp add: target_ok_def parts_ok_def engine_inv_def)
  have ix: "engine_index e' = engine_index (tr_engine t)" using kix_delete_shape [OF sh d(1)] d(2) by (auto intro: engine_index_cong)
  show "target_ok crc t' H X" unfolding t' by (rule delete_failed [OF ok d])
  show "anchored \<sigma> t' H" by (rule anchored_same [OF a]) (simp_all add: t' ix)
  show "undisturbed S t t'" "contents t' = contents t" by (simp_all add: t' ix fun_eq_iff engine_contents) (simp add: contents_def)
qed

lemma clear_target:
  assumes ok: "target_ok crc t H X" and a: "anchored \<sigma> t H" and h: "H slot = Retired c"
  defines "t' \<equiv> t\<lparr>tr_engine := clear_granule_inverse (router_drive t) slot (tr_engine t)\<rparr>"
  shows "target_ok crc t' (H(slot := Cleared c)) X" "anchored \<sigma> t' (H(slot := Cleared c))" "undisturbed S t t'" "contents t' = contents t"
proof -
  show "target_ok crc t' (H(slot := Cleared c)) X" unfolding t'_def by (rule clear_slot_step [OF ok h])
  have "engine_index (tr_engine t') = engine_index (tr_engine t)" unfolding t'_def by (rule engine_index_cong) simp
  then show "anchored \<sigma> t' (H(slot := Cleared c))" using h by (intro anchored_upd [OF a]) (simp_all add: t'_def)
qed (simp_all add: t'_def)

lemma free_target:
  assumes ok: "target_ok crc t H X" and a: "anchored \<sigma> t H" and h: "H slot = Cleared c"
  defines "t' \<equiv> modify_slot slot (finish_delete True) t"
  shows "target_ok crc t' (H(slot := Idle)) X" "anchored \<sigma> t' (H(slot := Idle))" "undisturbed {slot} t t'" "contents t' = contents t"
proof -
  show "target_ok crc t' (H(slot := Idle)) X" unfolding t'_def by (rule free_slot_step [OF ok h])
  show u: "undisturbed {slot} t t'" "contents t' = contents t" unfolding t'_def by (simp_all add: undisturbed_modify)
  have "unat slot < length (tr_slots t)" using ok h held_slot [of crc t H slot] by (simp add: target_ok_def)
  then have o: "slot_owner t' slot = None" by (simp add: t'_def slot_owner_modify finish_delete_def)
  have own: "s = \<sigma> c' \<and> (engine_index (tr_engine t) c' \<noteq> None \<or> (H(slot := Idle)) s = Retired c' \<or> (H(slot := Idle)) s = Cleared c')"
    if "slot_owner t' s = Some (c', r)" for s c' r
  proof -
    have "s \<noteq> slot" using that o by auto
    then have "slot_owner t s = Some (c', r)" using u(1) that by (simp add: undisturbed_def)
    from anchoredD(2) [OF a this] \<open>s \<noteq> slot\<close> show ?thesis by auto
  qed
  have pub: "s = \<sigma> c' \<and> engine_index (tr_engine t) c' \<noteq> None" if "(H(slot := Idle)) s = Published c' r" for s c' r
    using that anchoredD(3) [OF a, of s c' r] by (simp split: if_splits)
  have "tr_engine t' = tr_engine t" "tr_media t' = tr_media t" by (simp_all add: t'_def)
  with own pub anchoredD(1) [OF a] show "anchored \<sigma> t' (H(slot := Idle))" unfolding anchored_def by simp
qed


section \<open>Steps of a request\<close>

abbreviation goes :: "(u8 list \<Rightarrow> u32) \<Rightarrow> (ChunkId \<Rightarrow> u64) \<Rightarrow> phase \<Rightarrow> TargetRouter \<Rightarrow> target_hold \<Rightarrow> ChunkId set \<Rightarrow> phase \<Rightarrow> TargetRouter \<Rightarrow> bool" where
  "goes crc \<sigma> ph t H X ph' t' \<equiv> \<exists>H' X'. advances crc \<sigma> ph t H X ph' t' H' X'"

lemma hereD:
  assumes "here crc \<sigma> ph t H X"
  shows "target_ok crc t H X" "anchored \<sigma> t H" "phase_ok \<sigma> t ph" "agrees H (phase_holds ph)"
  using assms by (simp_all add: here_def)

lemma goes_on:
  assumes "here crc \<sigma> ph t H X" "phase_holds ph' = phase_holds ph" "phase_ok \<sigma> t ph'" "event ph ph' = Silent"
  shows "goes crc \<sigma> ph t H X ph' t"
  using advance_stay [OF assms(1,2) hereD(1,2) [OF assms(1)] assms(3)] assms(4) by auto

lemma write_lookup:
  assumes here: "here crc \<sigma> (Write_Lookup j) t H X" and run: "write_step crc (Write_Lookup j) t = Some (ph', t')"
  shows "goes crc \<sigma> (Write_Lookup j) t H X ph' t'"
proof -
  have "t' = t" "ph' = respond (Inl (service_error BAD_REQUEST True)) \<or> (\<exists>cur. ph' = Write_Reserve j cur) \<and> slot_exists t (jb_slot j)"
    using run lookup_step [OF hereD(1) [OF here]] by (auto split: if_splits)
  then show ?thesis using hereD(3) [OF here] by (auto intro!: goes_on [OF here] simp: event_def)
qed

lemma write_reserve:
  assumes here: "here crc \<sigma> (Write_Reserve j cur) t H X" and run: "write_step crc (Write_Reserve j cur) t = Some (ph', t')"
  shows "goes crc \<sigma> (Write_Reserve j cur) t H X ph' t'"
proof -
  note ok = hereD [OF here]
  have s: "slot_exists t (jb_slot j)" using ok(3) by simp
  obtain res t1 where r: "reserve_with (jb_slot j) cur t = (res, t1)" by fastforce
  show ?thesis
  proof (cases res)
    case (Inl e)
    then have "t' = t" "ph' = respond (Inl e)" using run r reserve_fails(1) [OF ok(1) s r [unfolded Inl]] by (auto split: fault.splits)
    then show ?thesis by (auto intro!: goes_on [OF here] simp: event_def)
  next
    case (Inr rv)
    then have t': "t' = t1" "ph' = Write_Guard j rv" using run r by simp_all
    note st = reserve_step [OF ok(1,2) s r [unfolded Inr]]
    show ?thesis unfolding t'
      using advance_acquire [OF here st(1) _ st(2,3) _ st(4), of "Write_Guard j rv"] st(5,6) ok(3) by (auto simp: event_def)
  qed
qed

lemma reserved_conflict: "reserved_as t j rv \<Longrightarrow> owner_conflict (jb_chunk j) rv \<longleftrightarrow> \<not> free_for t j"
  unfolding reserved_as_def by (auto simp: owner_conflict_def only_def split: option.splits) (metis)

lemma write_guard:
  assumes here: "here crc \<sigma> (Write_Guard j rv) t H X" and run: "write_step crc (Write_Guard j rv) t = Some (ph', t')"
  shows "goes crc \<sigma> (Write_Guard j rv) t H X ph' t'"
proof -
  have "t' = t" "ph' = Undo (jb_slot j) (Reserved (rv_lane rv)) (respond (Inl (service_error CONFLICT False))) \<or> ph' = Write_Media j rv \<and> free_for t j"
    using run hereD(3) [OF here] reserved_conflict [of t j rv] by (auto split: if_splits)
  then show ?thesis using hereD(3) [OF here] by (auto intro!: goes_on [OF here] simp: event_def)
qed

lemma write_media:
  assumes here: "here crc \<sigma> (Write_Media j rv) t H X" and run: "write_step crc (Write_Media j rv) t = Some (ph', t')"
  shows "goes crc \<sigma> (Write_Media j rv) t H X ph' t'"
proof -
  note ok = hereD [OF here]
  have j: "job_ok \<sigma> j" and h: "H (jb_slot j) = Reserved (rv_lane rv)" using ok(3,4) by (simp_all add: agrees_Cons)
  obtain res t1 where r: "write_lane crc (jb_slot j) (rv_lane rv) (jb_chunk j) (jb_generation j) (jb_identity j) (jb_body j) t = (res, t1)" by fastforce
  note m = media_target [OF ok(1,2) j h r]
  show ?thesis
  proof (cases res)
    case (Inl e)
    then have t': "t' = t1" "ph' = Undo (jb_slot j) (Reserved (rv_lane rv)) (respond (Inl (map_media_error e)))" using run r by simp_all
    have "H(jb_slot j := Reserved (rv_lane rv)) = H" using h by (simp add: fun_upd_idem)
    then show ?thesis unfolding t'
      using advance_replace [OF here, of "jb_slot j" "Reserved (rv_lane rv)" "[]" "Undo (jb_slot j) (Reserved (rv_lane rv)) (respond (Inl (map_media_error e)))" "Reserved (rv_lane rv)" t1 X] m(1-4)
      by (auto simp: event_def)
  next
    case (Inr r1)
    then have t': "t' = t1" "ph' = Write_Barrier j rv r1" using run r by simp_all
    have "anchored \<sigma> t1 (H(jb_slot j := Filled (jb_chunk j) r1))" using h m(5,6) by (intro anchored_upd [OF m(2)]) simp_all
    then show ?thesis unfolding t'
      using advance_replace [OF here, of "jb_slot j" "Reserved (rv_lane rv)" "[]" "Write_Barrier j rv r1" "Filled (jb_chunk j) r1" t1 X] m(3-5) m(7) [OF Inr] ok(3)
      by (auto simp: event_def reserved_as_def)
  qed
qed


lemma write_barrier:
  assumes here: "here crc \<sigma> (Write_Barrier j rv r) t H X" and run: "write_step crc (Write_Barrier j rv r) t = Some (ph', t')"
  shows "goes crc \<sigma> (Write_Barrier j rv r) t H X ph' t'"
proof -
  note ok = hereD [OF here]
  have h: "H (jb_slot j) = Filled (jb_chunk j) r" using ok(4) by (simp add: agrees_Cons)
  obtain res t1 where f: "on_media handle_fdatasync t = (res, t1)" by fastforce
  note b = sync_step [OF ok(1,2) f]
  show ?thesis
  proof (cases res)
    case (Inl e)
    then have t': "t' = t1" "ph' = Undo (jb_slot j) (Filled (jb_chunk j) r) (respond (Inl (map_media_error e)))" using run f by simp_all
    show ?thesis unfolding t' by (intro exI, rule advance_stay [OF here _ b(1,2) _ b(3)]) (simp_all add: event_def b(4))
  next
    case (Inr u)
    then have t': "t' = t1" "ph' = Write_Publish j rv r" using run f by simp_all
    have "anchored \<sigma> t1 (H(jb_slot j := Loaded (jb_chunk j) r))" using h b(5,6) by (intro anchored_upd [OF b(2)]) simp_all
    moreover have "phase_ok \<sigma> t1 (Write_Publish j rv r)" using phase_frame [OF b(3), of \<sigma> "Write_Publish j rv r"] ok(3) by simp
    ultimately show ?thesis unfolding t'
      using advance_replace [OF here, of "jb_slot j" "Filled (jb_chunk j) r" "[]" "Write_Publish j rv r" "Loaded (jb_chunk j) r" t1 X]
        flushed_step [OF b(1) b(7) [OF Inr] h] b(4) undisturbed_mono [OF b(3)] by (auto simp: event_def)
  qed
qed

lemma write_publish:
  assumes here: "here crc \<sigma> (Write_Publish j rv r) t H X" and run: "write_step crc (Write_Publish j rv r) t = Some (ph', t')"
  shows "goes crc \<sigma> (Write_Publish j rv r) t H X ph' t'"
proof -
  note ok = hereD [OF here]
  have h: "H (jb_slot j) = Loaded (jb_chunk j) r" and j: "job_ok \<sigma> j" and w: "written_as t j r" "free_for t j"
    using ok(3,4) by (simp_all add: agrees_Cons)
  have c: "chunk_id_ok (jb_chunk j)" using j by (simp add: job_ok_def)
  obtain res t1 where u: "client_call (kix_upsert crc (jb_chunk j) (jb_slot j) r) t = (res, t1)" by fastforce
  show ?thesis
  proof (cases res)
    case (Inl e)
    then have t': "t' = t1" "phase_holds ph' = [(jb_slot j, Loaded (jb_chunk j) r)]" "phase_ok \<sigma> t1 ph'" "event (Write_Publish j rv r) ph' = Silent"
      using run u by (auto simp: event_def split: fault.splits)
    note p = put_fails [OF ok(1,2) c u [unfolded Inl]]
    show ?thesis unfolding t'(1) by (intro exI, rule advance_stay [OF here _ p(1,2) t'(3)]) (simp_all add: p(3,4) t'(2,4))
  next
    case (Inr v)
    then have t': "t' = t1" "ph' = Write_Commit j rv r" using run u by simp_all
    note p = put_step [OF ok(1,2) j h w u [unfolded Inr]]
    from p(1) obtain X' where x: "target_ok crc t1 (H(jb_slot j := Published (jb_chunk j) r)) X'" "put_effect j t X t1 X'" by blast
    show ?thesis unfolding t'
      using advance_replace [OF here, of "jb_slot j" "Loaded (jb_chunk j) r" "[]" "Write_Commit j rv r" "Published (jb_chunk j) r" t1 X']
        x p(2,3) p(4) [of "{jb_slot j}"] ok(3) by (auto simp: event_def reserved_as_def)
  qed
qed

lemma retire_nothing: "reserved_as t j rv \<Longrightarrow> free_for t j \<Longrightarrow> retire_superseded crc (jb_chunk j) rv t = (Inr (), t)"
  using retire_none [of "jb_chunk j" t "jb_slot j" rv crc] by (simp add: reserved_as_def st_ret_def)

lemma write_commit:
  assumes here: "here crc \<sigma> (Write_Commit j rv r) t H X" and run: "write_step crc (Write_Commit j rv r) t = Some (ph', t')"
  shows "goes crc \<sigma> (Write_Commit j rv r) t H X ph' t'"
proof -
  note ok = hereD [OF here]
  have h: "H (jb_slot j) = Published (jb_chunk j) r" and j: "job_ok \<sigma> j" using ok(3,4) by (simp_all add: agrees_Cons)
  have t': "t' = modify_slot (jb_slot j) (commit \<lparr>po_chunk_id = jb_chunk j, po_record = r\<rparr>) t" "\<exists>a. ph' = Answered a"
    using run retire_nothing [of t j rv crc] ok(3) by auto
  note c = commit_target [OF ok(1,2) j h, folded t'(1)]
  from t'(2) obtain a where a: "ph' = Answered a" by blast
  show ?thesis unfolding a
    using advance_release [OF here, of "jb_slot j" "Published (jb_chunk j) r" "[]" "Answered a" t' X] c by (auto simp: event_def)
qed

lemma undo_goes:
  assumes here: "here crc \<sigma> (Undo s h ph) t H X"
  shows "goes crc \<sigma> (Undo s h ph) t H X ph (modify_slot s rollback t)"
proof -
  note ok = hereD [OF here]
  have h: "H s = h" "revocable h" and s: "s \<notin> held (phase_holds ph)" using ok(3,4) by (simp_all add: agrees_Cons)
  note u = undo_step [OF ok(1,2) h]
  have "phase_ok \<sigma> (modify_slot s rollback t) ph" using phase_frame [OF u(3)] ok(3) s by simp
  note r = advance_release [OF here _ _ u(1,2) this u(3)]
  show ?thesis by (intro exI, rule r) (simp_all add: event_def u(4))
qed


lemma stage_holds_none: "\<not> list_ex is_staged staged \<Longrightarrow> stage_holds k staged = []"
  by (induction staged) (auto simp: stage_holds_def is_staged_def split: stage.splits)

lemma pack_lookup:
  assumes here: "here crc \<sigma> (Pack_Lookup js staged) t H X" and run: "pack_step crc error_text (Pack_Lookup js staged) t = Some (ph', t')"
  shows "goes crc \<sigma> (Pack_Lookup js staged) t H X ph' t'"
proof (cases js)
  case Nil
  have "t' = t" "ph' = Pack_Barrier staged \<or> ph' = Pack_Publish None staged [] \<and> \<not> list_ex is_staged staged"
    using run Nil by (auto split: if_splits)
  then show ?thesis using hereD(3) [OF here] by (auto intro!: goes_on [OF here] simp: event_def stage_holds_none)
next
  case (Cons j js')
  have "t' = t" "(\<exists>e. ph' = Pack_Abort e staged) \<or> (\<exists>cur. ph' = Pack_Reserve j cur js' staged) \<and> slot_exists t (jb_slot j)"
    using run Cons lookup_step [OF hereD(1) [OF here]] by (auto split: if_splits)
  then show ?thesis unfolding Cons using hereD(3) [OF here] by (auto intro!: goes_on [OF here [unfolded Cons]] simp: event_def Cons)
qed

lemma pack_reserve:
  assumes here: "here crc \<sigma> (Pack_Reserve j cur js staged) t H X" and run: "pack_step crc error_text (Pack_Reserve j cur js staged) t = Some (ph', t')"
  shows "goes crc \<sigma> (Pack_Reserve j cur js staged) t H X ph' t'"
proof -
  note ok = hereD [OF here]
  have s: "slot_exists t (jb_slot j)" using ok(3) by simp
  obtain res t1 where r: "reserve_with (jb_slot j) cur t = (res, t1)" by fastforce
  show ?thesis
  proof (cases res)
    case (Inl e)
    then have "t' = t" "ph' = Pack_Abort e staged" using run r reserve_fails(1) [OF ok(1) s r [unfolded Inl]] by (auto split: fault.splits)
    then show ?thesis using ok(3) by (auto intro!: goes_on [OF here] simp: event_def)
  next
    case (Inr rv)
    then have t': "t' = t1" "ph' = Pack_Media j rv js staged" using run r by simp_all
    note st = reserve_step [OF ok(1,2) s r [unfolded Inr]]
    have "phase_ok \<sigma> t1 (Pack_Media j rv js staged)" using st(6) ok(3) stages_frame [OF st(4), of \<sigma> staged Filled] by simp
    then show ?thesis unfolding t'
      using advance_acquire [OF here st(1) _ st(2,3) _ st(4), of "Pack_Media j rv js staged"] st(5) by (auto simp: event_def)
  qed
qed

lemma pack_media:
  assumes here: "here crc \<sigma> (Pack_Media j rv js staged) t H X" and run: "pack_step crc error_text (Pack_Media j rv js staged) t = Some (ph', t')"
  shows "goes crc \<sigma> (Pack_Media j rv js staged) t H X ph' t'"
proof -
  note ok = hereD [OF here]
  have j: "job_ok \<sigma> j" and h: "H (jb_slot j) = Reserved (rv_lane rv)" "jb_slot j \<notin> held (stage_holds Filled staged)" "agrees H (stage_holds Filled staged)"
    using ok(3,4) by (simp_all add: agrees_Cons)
  obtain res t1 where r: "write_lane crc (jb_slot j) (rv_lane rv) (jb_chunk j) (jb_generation j) (jb_identity j) (jb_body j) t = (res, t1)" by fastforce
  note m = media_target [OF ok(1,2) j h(1) r]
  have st: "list_all (stage_ok \<sigma> t1) staged" using stages_frame [OF m(3), of \<sigma> staged Filled] ok(3) h(2) by simp
  show ?thesis
  proof (cases res)
    case (Inl e)
    then have t': "t' = t1" "\<exists>reply. ph' = Undo (jb_slot j) (Reserved (rv_lane rv)) (Pack_Lookup js (staged @ [Skipped reply]))" using run r by auto
    from t'(2) obtain reply where ph': "ph' = Undo (jb_slot j) (Reserved (rv_lane rv)) (Pack_Lookup js (staged @ [Skipped reply]))" by blast
    have "H(jb_slot j := Reserved (rv_lane rv)) = H" using h by (simp add: fun_upd_idem)
    then show ?thesis unfolding t'(1)
      using advance_replace [OF here, of "jb_slot j" "Reserved (rv_lane rv)" "stage_holds Filled staged" ph' "Reserved (rv_lane rv)" t1 X] m(1-4) st ok(3)
      by (auto simp: event_def ph')
  next
    case (Inr r1)
    then have t': "t' = t1" "ph' = Pack_Lookup js (staged @ [Staged j rv r1])" using run r by simp_all
    let ?H = "H(jb_slot j := Filled (jb_chunk j) r1)"
    have a: "anchored \<sigma> t1 ?H" using h m(5,6) by (intro anchored_upd [OF m(2)]) simp_all
    have "reserved_as t1 j rv" using ok(3) m(5) by (simp add: reserved_as_def)
    then have "phase_ok \<sigma> t1 ph'" using st ok(3) m(7) [OF Inr] j by (simp add: t'(2))
    moreover have "agrees ?H (phase_holds ph')" using agrees_upd [OF h(3,2)] h(2) by (simp add: t'(2) agrees_snoc agrees_Cons)
    moreover have "moved (phase_holds (Pack_Media j rv js staged)) (phase_holds ph') H ?H"
      using moved_replace [of "jb_slot j" "Reserved (rv_lane rv)" "stage_holds Filled staged" "Filled (jb_chunk j) r1" H]
      by (simp add: t'(2) moved_def)
    ultimately have "advances crc \<sigma> (Pack_Media j rv js staged) t H X ph' t1 ?H X"
      using a m(4) m(7) [OF Inr] undisturbed_mono [OF m(3)] by (simp add: advances_def here_def t'(2) event_def)
    then show ?thesis unfolding t'(1) by blast
  qed
qed

lemma pack_abort:
  assumes here: "here crc \<sigma> (Pack_Abort e staged) t H X" and run: "pack_step crc error_text (Pack_Abort e staged) t = Some (ph', t')"
  shows "goes crc \<sigma> (Pack_Abort e staged) t H X ph' t'"
proof -
  have "t' = t \<and> phase_holds ph' = stage_holds Filled staged \<and> phase_ok \<sigma> t ph'"
  proof (cases staged)
    case (Cons x rest)
    then show ?thesis using run hereD(3) [OF here] by (cases x) auto
  qed (use run in auto)
  then show ?thesis using goes_on [OF here, of ph'] by (simp add: event_def)
qed

lemma pack_barrier:
  assumes here: "here crc \<sigma> (Pack_Barrier staged) t H X" and run: "pack_step crc error_text (Pack_Barrier staged) t = Some (ph', t')"
  shows "goes crc \<sigma> (Pack_Barrier staged) t H X ph' t'"
proof -
  note ok = hereD [OF here]
  have ag: "agrees H (stage_holds Filled staged)" using ok(4) by simp
  obtain res t1 where f: "on_media handle_fdatasync t = (res, t1)" by fastforce
  note b = sync_step [OF ok(1,2) f]
  have st: "list_all (stage_ok \<sigma> t1) staged" using stages_frame [OF b(3), of \<sigma> staged Filled] ok(3) by simp
  show ?thesis
  proof (cases res)
    case (Inl e)
    then have t': "t' = t1" "ph' = Pack_Publish (Some e) staged []" using run f by simp_all
    show ?thesis unfolding t' by (intro exI, rule advance_stay [OF here _ b(1,2) _ b(3)]) (simp_all add: event_def b(4) st)
  next
    case (Inr u)
    then have t': "t' = t1" "ph' = Pack_Publish None staged []" using run f by simp_all
    note fl = flush_all [OF b(1,2) b(7) [OF Inr] ag] and fa = flush_agrees [OF ag] and hs = held_stages [of Filled staged Loaded]
    have "moved (stage_holds Filled staged) (stage_holds Loaded staged) H (flush_holds staged H)"
      unfolding moved_def hs using fa by simp
    then have "advances crc \<sigma> (Pack_Barrier staged) t H X ph' t1 (flush_holds staged H) X"
      using fl fa st b(4) undisturbed_mono [OF b(3)] by (simp add: advances_def here_def t'(2) event_def)
    then show ?thesis unfolding t'(1) by blast
  qed
qed

lemma pack_publish:
  assumes here: "here crc \<sigma> (Pack_Publish err staged rs) t H X" and run: "pack_step crc error_text (Pack_Publish err staged rs) t = Some (ph', t')"
  shows "goes crc \<sigma> (Pack_Publish err staged rs) t H X ph' t'"
proof -
  have "t' = t \<and> phase_holds ph' = phase_holds (Pack_Publish err staged rs) \<and> phase_ok \<sigma> t ph'"
  proof (cases staged)
    case (Cons x rest)
    show ?thesis
    proof (cases x)
      case (Staged j rv r)
      then show ?thesis using run hereD(3) [OF here] Cons reserved_conflict [of t j rv] by (cases err) (auto simp: Let_def split: if_splits)
    qed (use run hereD(3) [OF here] Cons in auto)
  qed (use run in auto)
  then show ?thesis using goes_on [OF here, of ph'] by (simp add: event_def)
qed

lemma pack_upsert:
  assumes here: "here crc \<sigma> (Pack_Upsert j rv r staged rs) t H X" and run: "pack_step crc error_text (Pack_Upsert j rv r staged rs) t = Some (ph', t')"
  shows "goes crc \<sigma> (Pack_Upsert j rv r staged rs) t H X ph' t'"
proof -
  note ok = hereD [OF here]
  have h: "H (jb_slot j) = Loaded (jb_chunk j) r" "jb_slot j \<notin> held (stage_holds Loaded staged)" and j: "job_ok \<sigma> j" and w: "written_as t j r" "free_for t j"
    using ok(3,4) by (simp_all add: agrees_Cons)
  have c: "chunk_id_ok (jb_chunk j)" using j by (simp add: job_ok_def)
  obtain res t1 where u: "client_call (kix_upsert crc (jb_chunk j) (jb_slot j) r) t = (res, t1)" by fastforce
  show ?thesis
  proof (cases res)
    case (Inl e)
    note p = put_fails [OF ok(1,2) c u [unfolded Inl]]
    have st: "list_all (stage_ok \<sigma> t1) staged" using stages_frame [OF p(4) [of "{}"], of \<sigma> staged Loaded] ok(3) by simp
    have busy: "\<forall>(s, h) \<in> set (stage_holds Loaded staged). h \<noteq> Idle" using stage_holds_busy [of Loaded] by auto
    have t': "t' = t1" "phase_holds ph' = phase_holds (Pack_Upsert j rv r staged rs)" "phase_ok \<sigma> t1 ph'"
        "event (Pack_Upsert j rv r staged rs) ph' = Silent"
      using run u st busy Inl by (auto simp: event_def split: fault.splits)
    show ?thesis unfolding t'(1) by (intro exI, rule advance_stay [OF here t'(2) p(1,2) t'(3)]) (simp_all add: p(3,4) t'(4))
  next
    case (Inr v)
    then have t': "t' = t1" "ph' = Pack_Commit j rv r staged rs" using run u by simp_all
    note p = put_step [OF ok(1,2) j h(1) w u [unfolded Inr]]
    have st: "list_all (stage_ok \<sigma> t1) staged" using stages_frame [OF p(4) [of "{}"], of \<sigma> staged Loaded] ok(3) by simp
    from p(1) obtain X' where x: "target_ok crc t1 (H(jb_slot j := Published (jb_chunk j) r)) X'" "put_effect j t X t1 X'" by blast
    show ?thesis unfolding t'
      using advance_replace [OF here, of "jb_slot j" "Loaded (jb_chunk j) r" "stage_holds Loaded staged" "Pack_Commit j rv r staged rs" "Published (jb_chunk j) r" t1 X']
        x p(2,3) p(4) [of "{jb_slot j}"] ok(3) st by (auto simp: event_def reserved_as_def)
  qed
qed

lemma pack_commit:
  assumes here: "here crc \<sigma> (Pack_Commit j rv r staged rs) t H X" and run: "pack_step crc error_text (Pack_Commit j rv r staged rs) t = Some (ph', t')"
  shows "goes crc \<sigma> (Pack_Commit j rv r staged rs) t H X ph' t'"
proof -
  note ok = hereD [OF here]
  have h: "H (jb_slot j) = Published (jb_chunk j) r" "jb_slot j \<notin> held (stage_holds Loaded staged)" and j: "job_ok \<sigma> j"
    using ok(3,4) by (simp_all add: agrees_Cons)
  have t': "t' = modify_slot (jb_slot j) (commit \<lparr>po_chunk_id = jb_chunk j, po_record = r\<rparr>) t" "\<exists>rs'. ph' = Pack_Publish None staged rs'"
    using run retire_nothing [of t j rv crc] ok(3) by (auto simp: Let_def)
  note c = commit_target [OF ok(1,2) j h(1), folded t'(1)]
  from t'(2) obtain rs' where ph': "ph' = Pack_Publish None staged rs'" by blast
  have st: "list_all (stage_ok \<sigma> t') staged" using stages_frame [OF c(3), of \<sigma> staged Loaded] ok(3) h(2) by simp
  show ?thesis unfolding ph'
    using advance_release [OF here, of "jb_slot j" "Published (jb_chunk j) r" "stage_holds Loaded staged" "Pack_Publish None staged rs'" t' X] c st
    by (auto simp: event_def)
qed

lemma delete_early:
  assumes here: "here crc \<sigma> ph t H X" and run: "delete_step crc ph t = Some (ph', t')"
    and ph: "ph = Delete_Lookup c expected \<or> ph = Delete_Fence c expected r"
  shows "goes crc \<sigma> ph t H X ph' t'"
proof -
  note ok = hereD [OF here]
  have "t' = t \<and> phase_holds ph' = phase_holds ph \<and> phase_ok \<sigma> t ph' \<and> event ph ph' = Silent" using ph
  proof
    assume ph: "ph = Delete_Lookup c expected"
    show ?thesis
    proof (cases "engine_index (tr_engine t) c")
      case (Some r)
      then have "victim_ok \<sigma> t c r" using index_lane(1,4) [OF ok(1) Some] anchoredD(1) [OF ok(2) Some] by (simp add: victim_ok_def placed_def)
      then show ?thesis using run ph Some kix_lookup_run [OF ok(1), of c] by (auto simp: event_def)
    qed (use run ph kix_lookup_run [OF ok(1), of c] in \<open>auto simp: event_def\<close>)
  next
    assume ph: "ph = Delete_Fence c expected r"
    then have v: "victim_ok \<sigma> t c r" using ok(3) by simp
    obtain res t1 where f: "delete_fence c expected r t = (res, t1)" by fastforce
    then have "t1 = t" "(\<exists>e. res = Inl e) \<or> res = Inr None \<or> (\<exists>g. res = Inr (Some (r, g, \<sigma> c)))"
      using v by (auto simp: delete_fence_def st_bind_def st_lift_def victim_ok_def dest: slot_index_home(1) split: sum.splits option.splits if_splits)
    then show ?thesis using run ph f v by (auto simp: event_def)
  qed
  then show ?thesis using goes_on [OF here, of ph'] by auto
qed

lemma delete_claim:
  assumes here: "here crc \<sigma> (Delete_Claim c r g slot) t H X" and run: "delete_step crc (Delete_Claim c r g slot) t = Some (ph', t')"
  shows "goes crc \<sigma> (Delete_Claim c r g slot) t H X ph' t'"
proof -
  note ok = hereD [OF here]
  have v: "victim_ok \<sigma> t c r" "slot = \<sigma> c" using ok(3) by simp_all
  obtain res t1 where b: "st_bind (slot_publication slot) (\<lambda>_. on_slot slot begin_delete) t = (res, t1)" by fastforce
  from ok(1,2) v b show ?thesis
  proof (cases rule: claim_cases)
    case (refused e)
    then have "t' = t" "ph' = respond (Inl (Refused e))" using run b by simp_all
    then show ?thesis by (auto intro!: goes_on [OF here] simp: event_def)
  next
    case (claimed owner)
    have v': "victim_ok \<sigma> t1 c r" using v(1) undisturbed_fields(5) [OF claimed(3)] by simp
    show ?thesis
    proof (cases "case owner of Some x \<Rightarrow> po_chunk_id x \<noteq> c | None \<Rightarrow> False")
      case True
      then have t': "t' = t1" "ph' = Undo slot (Reserved (other_lane t slot)) (respond (Inl (service_error CONFLICT True)))" using run b claimed(1) by simp_all
      show ?thesis unfolding t'
        by (intro exI, rule advance_acquire [OF here claimed(2) _ claimed(5) [OF True] claimed(7) _ claimed(3)]) (simp_all add: event_def claimed(4))
    next
      case False
      then have t': "t' = t1" "ph' = Delete_Media c r g slot" using run b claimed(1) by simp_all
      show ?thesis unfolding t'
        by (intro exI, rule advance_acquire [OF here claimed(2) _ claimed(6) [OF False] claimed(7) _ claimed(3)]) (use v v' in \<open>simp_all add: event_def claimed(4)\<close>)
    qed
  qed (use run b in simp)
qed

lemma delete_media:
  assumes here: "here crc \<sigma> (Delete_Media c r g slot) t H X" and run: "delete_step crc (Delete_Media c r g slot) t = Some (ph', t')"
  shows "goes crc \<sigma> (Delete_Media c r g slot) t H X ph' t'"
proof -
  note ok = hereD [OF here]
  have v: "victim_ok \<sigma> t c r" "slot = \<sigma> c" and h: "H slot = Deleting c r" using ok(3,4) by (simp_all add: agrees_Cons)
  obtain res t1 where w: "on_media (handle_write_tombstone crc (tr_media t) c r g) t = (res, t1)" by fastforce
  note sp = spoil_step [OF ok(1,2) v h w]
  have e: "event (Delete_Media c r g slot) ph' = Spoils c" by (simp add: event_def)
  show ?thesis
  proof (cases res)
    case (Inl err)
    then have t': "t' = t1" "ph' = Undo slot (Deleting c r) (respond (Inl (map_media_error err)))" using run w by simp_all
    have "H(slot := Deleting c r) = H" using h by (simp add: fun_upd_idem)
    then show ?thesis unfolding t'(1)
      using advance_replace [OF here, of slot "Deleting c r" "[]" ph' "Deleting c r" t1 "insert c X"] sp e by (auto simp: t'(2))
  next
    case (Inr u)
    then have t': "t' = t1" "ph' = Delete_Retire c g slot" using run w by simp_all
    show ?thesis unfolding t'(1)
      using advance_replace [OF here, of slot "Deleting c r" "[]" ph' "Tombstoned c" t1 "insert c X"] sp e v(2) by (auto simp: t'(2))
  qed
qed

lemma delete_late:
  assumes here: "here crc \<sigma> ph t H X" and run: "delete_step crc ph t = Some (ph', t')"
    and ph: "ph = Delete_Clear c g slot \<or> ph = Delete_Finish c g slot"
  shows "goes crc \<sigma> ph t H X ph' t'"
  using ph
proof
  note ok = hereD [OF here]
  assume ph: "ph = Delete_Clear c g slot"
  have h: "H slot = Retired c" using ok(4) by (simp add: ph agrees_Cons)
  note c = clear_target [OF ok(1,2) h]
  have t': "t' = t\<lparr>tr_engine := clear_granule_inverse (router_drive t) slot (tr_engine t)\<rparr>" "ph' = Delete_Finish c g slot" using run by (simp_all add: ph)
  show ?thesis unfolding t' ph
    by (intro exI, rule advance_replace [OF here [unfolded ph] _ _ c(1,2) _ c(3)]) (use ok(3) c(4) in \<open>simp_all add: ph event_def\<close>)
next
  note ok = hereD [OF here]
  assume ph: "ph = Delete_Finish c g slot"
  have h: "H slot = Cleared c" using ok(4) by (simp add: ph agrees_Cons)
  note f = free_target [OF ok(1,2) h]
  have t': "t' = modify_slot slot (finish_delete True) t" "ph' = respond (Inr (response_json 200 (DeleteChunkDocument True g)))" using run by (simp_all add: ph)
  show ?thesis unfolding t' ph
    by (intro exI, rule advance_release [OF here [unfolded ph] _ _ f(1,2) _ f(3)]) (simp_all add: event_def f(4))
qed

lemma delete_retire:
  assumes here: "here crc \<sigma> (Delete_Retire c g slot) t H X" and run: "delete_step crc (Delete_Retire c g slot) t = Some (ph', t')"
  shows "goes crc \<sigma> (Delete_Retire c g slot) t H X ph' t'"
proof -
  note ok = hereD [OF here]
  have h: "H slot = Tombstoned c" "slot = \<sigma> c" using ok(3,4) by (simp_all add: agrees_Cons)
  obtain res t1 where w: "client_call (kix_delete crc c) t = (res, t1)" by fastforce
  show ?thesis
  proof (cases res)
    case (Inl e)
    note d = drop_fails [OF ok(1,2) w [unfolded Inl]]
    have t': "t' = t1" "phase_holds ph' = phase_holds (Delete_Retire c g slot)" "phase_ok \<sigma> t1 ph'" "event (Delete_Retire c g slot) ph' = Silent"
      using run w Inl by (auto simp: event_def split: fault.splits)
    show ?thesis unfolding t'(1) by (intro exI, rule advance_stay [OF here t'(2) d(1,2) t'(3)]) (simp_all add: d(3,4) t'(4))
  next
    case (Inr u)
    note d = drop_step [OF ok(1,2) h w [unfolded Inr]]
    have t': "t' = t1" "ph' = Delete_Clear c g slot" using run w Inr by simp_all
    show ?thesis unfolding t'
      by (intro exI, rule advance_replace [OF here _ _ d(1,2) _ d(3)]) (simp_all add: event_def d(4) h(2))
  qed
qed

text \<open>Every step of a request is of one of these kinds.\<close>

lemma write_goes: "here crc \<sigma> ph t H X \<Longrightarrow> write_step crc ph t = Some (ph', t') \<Longrightarrow> goes crc \<sigma> ph t H X ph' t'"
  by (cases ph) (simp_all del: write_step.simps(1-7) add: write_lookup write_reserve write_guard write_media write_barrier write_publish write_commit)

lemma pack_goes: "here crc \<sigma> ph t H X \<Longrightarrow> pack_step crc error_text ph t = Some (ph', t') \<Longrightarrow> goes crc \<sigma> ph t H X ph' t'"
  by (cases ph) (auto simp del: pack_step.simps(1-14) intro: pack_lookup pack_reserve pack_media pack_abort pack_barrier pack_publish pack_upsert pack_commit)

lemma delete_goes: "here crc \<sigma> ph t H X \<Longrightarrow> delete_step crc ph t = Some (ph', t') \<Longrightarrow> goes crc \<sigma> ph t H X ph' t'"
  by (cases ph) (auto simp del: delete_step.simps(1-7) intro: delete_early delete_claim delete_media delete_retire delete_late)

lemma thread_cases:
  assumes "thread_step crc error_text ph t = Some (ph', t')"
  obtains s h where "ph = Undo s h ph'" "t' = modify_slot s rollback t"
  | "write_step crc ph t = Some (ph', t')" | "pack_step crc error_text ph t = Some (ph', t')" | "delete_step crc ph t = Some (ph', t')"
  using assms by (cases ph) (simp_all del: write_step.simps pack_step.simps delete_step.simps split: option.splits)

lemma thread_goes:
  assumes "here crc \<sigma> ph t H X" "thread_step crc error_text ph t = Some (ph', t')"
  shows "goes crc \<sigma> ph t H X ph' t'"
  using assms(2)
proof (cases rule: thread_cases)
  case (1 s h)
  then show ?thesis using undo_goes assms(1) by blast
qed (rule write_goes [OF assms(1)] pack_goes [OF assms(1)] delete_goes [OF assms(1)], assumption)+

end
