(* ===== verification/Spec2Isabelle.thy ===== *)
theory Spec2Isabelle
  imports Kix_Layout Kix_Publish Kix_Inverse Kp2_Spec Kst_Steps
begin

text \<open>
  Verification of the storage core of KeInFS: the KIX index and the chunk media below it.
\<close>

end
